(* ===== verification/Rbh_Prelude.thy ===== *)
theory Rbh_Prelude
  imports Main "HOL-Library.Word" "HOL-Library.List_Lexorder" "HOL-Library.Char_ord"
begin

text \<open>
  Shared types and lemmas of the robinhood-rs development.

  Machine integers: \<open>u8\<close> to \<open>u64\<close> are words, so that arithmetic wraps and
  comparison is unsigned as in Rust; an \<open>i64\<close> is an \<open>int\<close> and a cast
  \<open>as i64\<close> is \<open>sint\<close>. Rust's \<open>String\<close>, \<open>&str\<close> and \<open>Bytes\<close> are
  \<open>string\<close>: a HOL \<open>char\<close> is one byte. The functions of the Rust standard library
  that the sources use on strings (\<open>trim\<close>, \<open>split\<close>, \<open>strip_prefix\<close>,
  \<open>parse\<close>, \<open>from_str_radix\<close>, \<open>to_string\<close>, \<open>to_lowercase\<close>) are written out
  here on ASCII, together with big-endian byte strings and the list functions
  \<open>rposition\<close> and \<open>remove\<close> of \<open>VecDeque\<close>.
\<close>

named_theorems rbh_codec \<comment> \<open>round trips of printers, parsers and byte codecs\<close>
named_theorems rbh_defs \<comment> \<open>definitions that the component proofs unfold\<close>

type_synonym u8 = "8 word"
type_synonym u16 = "16 word"
type_synonym u32 = "32 word"
type_synonym u64 = "64 word"
type_synonym i64 = int
type_synonym bytes = string

section \<open>Integers\<close>

definition saturating_add :: "'a::len word \<Rightarrow> 'a word \<Rightarrow> 'a word" where
  "saturating_add a b = (if unat a + unat b < 2 ^ LENGTH('a) then a + b else - 1)"

definition saturating_sub :: "'a::len word \<Rightarrow> 'a word \<Rightarrow> 'a word" where
  "saturating_sub a b = (if b \<le> a then a - b else 0)"

definition i64_max :: i64 where
  "i64_max = 9223372036854775807"

definition i64_min :: i64 where
  "i64_min = - 9223372036854775808"

text \<open>Two's complement wrap-around of an \<open>i64\<close> sum or difference.\<close>

definition wrap_i64 :: "int \<Rightarrow> i64" where
  "wrap_i64 x = (x + 9223372036854775808) mod 18446744073709551616 - 9223372036854775808"

lemma wrap_i64_id: "i64_min \<le> x \<Longrightarrow> x \<le> i64_max \<Longrightarrow> wrap_i64 x = x"
  by (simp add: wrap_i64_def i64_min_def i64_max_def)

lemma unat_bounds:
  "unat (a :: u8) < 256" "unat (b :: u16) < 65536" "unat (c :: u32) < 4294967296"
  "unat (d :: u64) < 18446744073709551616"
  by (rule order.strict_trans2, rule unsigned_less, simp)+

lemma unat_saturating_add:
  "unat (saturating_add a b) = min (unat a + unat b) (2 ^ LENGTH('a) - 1)"
  for a b :: "'a::len word"
proof (cases "unat a + unat b < 2 ^ LENGTH('a)")
  case True
  then have "unat (a + b) = unat a + unat b"
    by (simp add: unat_word_ariths)
  with True show ?thesis by (simp add: saturating_add_def)
next
  case False
  then have "unat (saturating_add a b) = 2 ^ LENGTH('a) - 1"
    by (simp add: saturating_add_def unsigned_minus_1_eq_mask mask_eq_exp_minus_1)
  with False show ?thesis by simp
qed

lemma saturating_add_ge: "a \<le> saturating_add a b"
  for a b :: "'a::len word"
proof -
  have "unat a < 2 ^ LENGTH('a)" by (rule unsigned_less)
  then have "unat a \<le> 2 ^ LENGTH('a) - 1" by linarith
  then show ?thesis by (simp add: word_le_nat_alt unat_saturating_add)
qed

lemma unat_saturating_sub: "unat (saturating_sub a b) = unat a - unat b"
  by (auto simp: saturating_sub_def word_le_nat_alt unat_sub)

lemma unat_drop_bit: "unat (drop_bit k (w :: 'a::len word)) = unat w div 2 ^ k"
proof -
  have "take_bit LENGTH('a) (unat w) = unat w"
    by (rule bit_eqI) (auto simp: bit_simps dest: bit_imp_le_length)
  then show ?thesis unfolding unsigned_drop_bit_eq by (simp add: drop_bit_eq_div)
qed

lemma unat_and_mask: "unat (and (w :: 'a::len word) (mask k)) = unat w mod 2 ^ k"
proof -
  have "unat (take_bit k w) = take_bit k (unat w)"
    by (rule bit_eqI) (auto simp: bit_simps dest: bit_imp_le_length)
  then show ?thesis by (simp only: take_bit_eq_mask [symmetric] take_bit_eq_mod)
qed

lemma sint_small:
  assumes "unat (w :: 'a::len word) < 2 ^ (LENGTH('a) - 1)"
  shows "sint w = int (unat w)"
proof -
  have "uint w < 2 ^ (LENGTH('a) - 1)"
    using assms by (metis of_nat_less_iff of_nat_numeral of_nat_power uint_nat)
  moreover have "- (2 ^ (LENGTH('a) - 1)) \<le> uint w"
    using unsigned_greater_eq [of w] by (smt (verit) zero_le_power)
  ultimately have "sint w = uint w"
    unfolding sint_uint by (simp add: signed_take_bit_int_eq_self)
  then show ?thesis by (simp only: uint_nat)
qed

lemma sorted_hd_last: "sorted xs \<Longrightarrow> x \<in> set xs \<Longrightarrow> hd xs \<le> x \<and> x \<le> last xs"
  by (induction xs) (auto split: if_splits)

section \<open>Strings\<close>

definition is_ws :: "char \<Rightarrow> bool" where
  "is_ws c = (let n = of_char c :: nat in n = 32 \<or> 9 \<le> n \<and> n \<le> 13)"

definition trim :: "string \<Rightarrow> string" where
  "trim s = rev (dropWhile is_ws (rev (dropWhile is_ws s)))"

fun strip_prefix :: "string \<Rightarrow> string \<Rightarrow> string option" where
  "strip_prefix [] s = Some s"
| "strip_prefix (p # ps) [] = None"
| "strip_prefix (p # ps) (c # cs) = (if p = c then strip_prefix ps cs else None)"

definition strip_suffix :: "string \<Rightarrow> string \<Rightarrow> string option" where
  "strip_suffix p s = map_option rev (strip_prefix (rev p) (rev s))"

fun split_on :: "char \<Rightarrow> string \<Rightarrow> string list" where
  "split_on d [] = [[]]"
| "split_on d (c # cs) =
     (if c = d then [] # split_on d cs
      else (case split_on d cs of [] \<Rightarrow> [[c]] | p # ps \<Rightarrow> (c # p) # ps))"

fun split_once :: "char \<Rightarrow> string \<Rightarrow> (string \<times> string) option" where
  "split_once d [] = None"
| "split_once d (c # cs) =
     (if c = d then Some ([], cs)
      else map_option (\<lambda>(a, b). (c # a, b)) (split_once d cs))"

fun join :: "string \<Rightarrow> string list \<Rightarrow> string" where
  "join sep [] = []"
| "join sep [s] = s"
| "join sep (s # t # ss) = s @ sep @ join sep (t # ss)"

definition lower_char :: "char \<Rightarrow> char" where
  "lower_char c = (let n = of_char c :: nat in if 65 \<le> n \<and> n \<le> 90 then char_of (n + 32) else c)"

definition upper_char :: "char \<Rightarrow> char" where
  "upper_char c = (let n = of_char c :: nat in if 97 \<le> n \<and> n \<le> 122 then char_of (n - 32) else c)"

abbreviation to_lowercase :: "string \<Rightarrow> string" where
  "to_lowercase \<equiv> map lower_char"

abbreviation to_uppercase :: "string \<Rightarrow> string" where
  "to_uppercase \<equiv> map upper_char"

lemma strip_prefix_append [simp]: "strip_prefix p (p @ s) = Some s"
  by (induction p) auto

lemma strip_prefix_Some: "strip_prefix p s = Some r \<longleftrightarrow> s = p @ r"
  by (induction p s rule: strip_prefix.induct) auto

lemma strip_suffix_append [simp]: "strip_suffix p (s @ p) = Some s"
  by (simp add: strip_suffix_def)

lemma strip_suffix_Some: "strip_suffix p s = Some r \<longleftrightarrow> s = r @ p"
proof
  assume "strip_suffix p s = Some r"
  then obtain t where "strip_prefix (rev p) (rev s) = Some t" and "r = rev t"
    by (auto simp: strip_suffix_def)
  then have "rev s = rev p @ t" by (simp add: strip_prefix_Some)
  then have "s = rev (rev p @ t)" by (metis rev_rev_ident)
  with \<open>r = rev t\<close> show "s = r @ p" by simp
qed simp

lemma split_on_nonempty [simp]: "split_on d s \<noteq> []"
  by (induction s) (auto split: list.splits)

lemma split_on_none: "d \<notin> set s \<Longrightarrow> split_on d s = [s]"
  by (induction s) auto

lemma split_on_append: "d \<notin> set s \<Longrightarrow> split_on d (s @ d # t) = s # split_on d t"
  by (induction s) auto

lemma trim_id:
  assumes "s = [] \<or> \<not> is_ws (hd s) \<and> \<not> is_ws (last s)"
  shows "trim s = s"
proof (cases "s = []")
  case False
  with assms have "dropWhile is_ws s = s" by (cases s) auto
  moreover have "dropWhile is_ws (rev s) = rev s"
    using assms False by (cases "rev s") (auto simp: last_rev hd_rev)
  ultimately show ?thesis by (simp add: trim_def)
qed (simp add: trim_def)

section \<open>Lossy UTF-8 decoding\<close>

text \<open>
  \<open>String::from_utf8_lossy\<close>: every maximal ill-formed prefix of a sequence becomes
  U+FFFD. \<open>utf8_spec\<close> gives the number of continuation bytes of a first byte and the
  range of the second byte.
\<close>

definition in_rng :: "nat \<Rightarrow> nat \<Rightarrow> char \<Rightarrow> bool" where
  "in_rng lo hi c = (let n = of_char c :: nat in lo \<le> n \<and> n \<le> hi)"

definition utf8_spec :: "char \<Rightarrow> (nat \<times> nat \<times> nat) option" where
  "utf8_spec c =
     (let n = of_char c :: nat in
      if n < 128 then Some (0, 128, 191)
      else if 194 \<le> n \<and> n \<le> 223 then Some (1, 128, 191)
      else if n = 224 then Some (2, 160, 191)
      else if n = 237 then Some (2, 128, 159)
      else if 225 \<le> n \<and> n \<le> 239 then Some (2, 128, 191)
      else if n = 240 then Some (3, 144, 191)
      else if 241 \<le> n \<and> n \<le> 243 then Some (3, 128, 191)
      else if n = 244 then Some (3, 128, 143)
      else None)"

fun utf8_conts :: "nat \<Rightarrow> nat \<Rightarrow> nat \<Rightarrow> string \<Rightarrow> nat" where
  "utf8_conts (Suc k) lo hi (c # cs) =
     (if in_rng lo hi c then Suc (utf8_conts k 128 191 cs) else 0)"
| "utf8_conts k lo hi cs = 0"

definition utf8_repl :: string where
  "utf8_repl = [char_of (239 :: nat), char_of (191 :: nat), char_of (189 :: nat)]"

function from_utf8_lossy :: "bytes \<Rightarrow> string" where
  "from_utf8_lossy [] = []"
| "from_utf8_lossy (c # cs) =
     (case utf8_spec c of
        None \<Rightarrow> utf8_repl @ from_utf8_lossy cs
      | Some (k, lo, hi) \<Rightarrow>
          (let m = utf8_conts k lo hi cs
           in (if m = k then c # take k cs else utf8_repl) @ from_utf8_lossy (drop m cs)))"
  by pat_completeness auto
termination
  by (relation "measure length") auto

function utf8_valid :: "bytes \<Rightarrow> bool" where
  "utf8_valid [] = True"
| "utf8_valid (c # cs) =
     (case utf8_spec c of
        None \<Rightarrow> False
      | Some (k, lo, hi) \<Rightarrow> utf8_conts k lo hi cs = k \<and> utf8_valid (drop k cs))"
  by pat_completeness auto
termination
  by (relation "measure length") auto

lemma from_utf8_lossy_valid: "utf8_valid s \<Longrightarrow> from_utf8_lossy s = s"
  by (induction s rule: utf8_valid.induct) (auto split: option.splits)

lemma from_utf8_lossy_ascii: "\<forall>c \<in> set s. of_char c < (128 :: nat) \<Longrightarrow> from_utf8_lossy s = s"
  by (induction s rule: from_utf8_lossy.induct) (auto simp: utf8_spec_def Let_def)

section \<open>Numbers in strings\<close>

definition digit_val :: "nat \<Rightarrow> char \<Rightarrow> nat option" where
  "digit_val r c =
     (let n = of_char c :: nat;
          d = (if 48 \<le> n \<and> n \<le> 57 then Some (n - 48)
               else if 97 \<le> n \<and> n \<le> 122 then Some (n - 87)
               else if 65 \<le> n \<and> n \<le> 90 then Some (n - 55) else None)
      in (case d of None \<Rightarrow> None | Some v \<Rightarrow> if v < r then Some v else None))"

fun digits_val :: "nat \<Rightarrow> nat \<Rightarrow> string \<Rightarrow> nat option" where
  "digits_val r acc [] = Some acc"
| "digits_val r acc (c # cs) =
     (case digit_val r c of None \<Rightarrow> None | Some d \<Rightarrow> digits_val r (acc * r + d) cs)"

text \<open>
  \<open>from_str_radix\<close> of an unsigned type: an optional \<open>+\<close>, at least one digit, and
  an error when the value does not fit. Both kinds of error are \<open>None\<close>.
\<close>

definition parse_radix :: "nat \<Rightarrow> nat \<Rightarrow> string \<Rightarrow> nat option" where
  "parse_radix r bound s =
     (let ds = (case s of [] \<Rightarrow> [] | c # cs \<Rightarrow> if c = CHR ''+'' \<and> cs \<noteq> [] then cs else s)
      in if ds = [] then None
         else (case digits_val r 0 ds of
                 None \<Rightarrow> None | Some n \<Rightarrow> if n < bound then Some n else None))"

definition parse_u64 :: "string \<Rightarrow> u64 option" where
  "parse_u64 s = map_option word_of_nat (parse_radix 10 (2 ^ 64) s)"

definition parse_u32 :: "string \<Rightarrow> u32 option" where
  "parse_u32 s = map_option word_of_nat (parse_radix 10 (2 ^ 32) s)"

definition parse_i64 :: "string \<Rightarrow> i64 option" where
  "parse_i64 s =
     (case s of
        c # cs \<Rightarrow>
          if c = CHR ''-'' \<and> cs \<noteq> []
          then (case digits_val 10 0 cs of
                  None \<Rightarrow> None
                | Some n \<Rightarrow> if i64_min \<le> - int n then Some (- int n) else None)
          else map_option int (parse_radix 10 (2 ^ 63) s)
      | [] \<Rightarrow> None)"

definition digit_char :: "nat \<Rightarrow> char" where
  "digit_char d = char_of (if d < 10 then 48 + d else 87 + d)"

function radix_str :: "nat \<Rightarrow> nat \<Rightarrow> string" where
  "radix_str r n =
     (if n < r \<or> r < 2 then [digit_char n] else radix_str r (n div r) @ [digit_char (n mod r)])"
  by pat_completeness auto
termination
  by (relation "measure snd") auto

declare radix_str.simps [simp del]

abbreviation dec_str :: "nat \<Rightarrow> string" where
  "dec_str \<equiv> radix_str 10"

abbreviation hex_str :: "nat \<Rightarrow> string" where
  "hex_str \<equiv> radix_str 16"

lemma digit_val_digit_char: "d < r \<Longrightarrow> r \<le> 16 \<Longrightarrow> digit_val r (digit_char d) = Some d"
  by (simp add: digit_val_def digit_char_def)

lemma digits_val_append:
  "digits_val r acc (xs @ ys) =
     (case digits_val r acc xs of None \<Rightarrow> None | Some a \<Rightarrow> digits_val r a ys)"
  by (induction xs arbitrary: acc) (auto split: option.splits)

lemma digits_val_radix_str [rbh_codec]:
  "2 \<le> r \<Longrightarrow> r \<le> 16 \<Longrightarrow> digits_val r 0 (radix_str r n) = Some n"
proof (induction r n rule: radix_str.induct)
  case (1 r n)
  show ?case
  proof (cases "n < r")
    case True
    with "1.prems" show ?thesis
      by (subst radix_str.simps) (simp add: digit_val_digit_char)
  next
    case False
    with 1 have IH: "digits_val r 0 (radix_str r (n div r)) = Some (n div r)" by simp
    from False "1.prems" show ?thesis
      by (subst radix_str.simps) (simp add: digits_val_append IH digit_val_digit_char)
  qed
qed

lemma radix_str_chars:
  "2 \<le> r \<Longrightarrow> r \<le> 16 \<Longrightarrow> c \<in> set (radix_str r n) \<Longrightarrow> \<exists>d < r. c = digit_char d"
proof (induction r n rule: radix_str.induct)
  case (1 r n)
  show ?case
  proof (cases "n < r")
    case True
    with "1.prems" show ?thesis by (auto simp: radix_str.simps [of r n])
  next
    case False
    with "1.prems" have "c \<in> set (radix_str r (n div r)) \<or> c = digit_char (n mod r)"
      by (auto simp: radix_str.simps [of r n])
    with False 1 show ?thesis
      by (cases "c = digit_char (n mod r)") (auto intro!: exI [of _ "n mod r"])
  qed
qed

lemma radix_str_nonempty [simp]: "radix_str r n \<noteq> []"
  by (subst radix_str.simps) simp

lemma of_char_digit_char:
  "d < 16 \<Longrightarrow> of_char (digit_char d) = (if d < 10 then 48 + d else 87 + d)"
  by (simp add: digit_char_def)

text \<open>A character that is not a lower-case hexadecimal digit is not printed.\<close>

lemma not_in_radix_str:
  assumes "2 \<le> r" "r \<le> 16"
    and "\<not> (48 \<le> (of_char c :: nat) \<and> (of_char c :: nat) \<le> 57)"
    and "\<not> (97 \<le> (of_char c :: nat) \<and> (of_char c :: nat) \<le> 102)"
  shows "c \<notin> set (radix_str r n)"
proof
  assume "c \<in> set (radix_str r n)"
  with assms(1,2) obtain d where "d < r" and "c = digit_char d"
    using radix_str_chars by blast
  with assms show False by (auto simp: of_char_digit_char split: if_splits)
qed

lemma parse_radix_str [rbh_codec]:
  assumes "2 \<le> r" "r \<le> 16" "n < bound"
  shows "parse_radix r bound (radix_str r n) = Some n"
proof -
  have "CHR ''+'' \<notin> set (radix_str r n)"
    by (rule not_in_radix_str) (use assms in auto)
  then have "hd (radix_str r n) \<noteq> CHR ''+''"
    by (metis hd_in_set radix_str_nonempty)
  then show ?thesis
    using assms digits_val_radix_str [of r n] radix_str_nonempty [of r n]
    by (cases "radix_str r n") (auto simp: parse_radix_def)
qed

lemma radix_str_inj:
  "2 \<le> r \<Longrightarrow> r \<le> 16 \<Longrightarrow> radix_str r m = radix_str r n \<longleftrightarrow> m = n"
  by (metis digits_val_radix_str option.inject)

lemma dec_str_clean [simp]:
  "CHR ''|'' \<notin> set (dec_str n)" "CHR ''.'' \<notin> set (dec_str n)" "CHR '','' \<notin> set (dec_str n)"
  "CHR '')'' \<notin> set (dec_str n)" "CHR ''('' \<notin> set (dec_str n)" "CHR ''-'' \<notin> set (dec_str n)"
  by (rule not_in_radix_str; simp)+

lemma parse_i64_dec_str:
  assumes "int n \<le> i64_max"
  shows "parse_i64 (dec_str n) = Some (int n)"
proof -
  obtain c cs where cs: "dec_str n = c # cs"
    by (meson neq_Nil_conv radix_str_nonempty)
  have "CHR ''-'' \<notin> set (dec_str n)" by (rule dec_str_clean(6))
  then have "c \<noteq> CHR ''-''" by (auto simp: cs)
  moreover have "n < 9223372036854775808" using assms by (simp add: i64_max_def)
  then have "parse_radix 10 9223372036854775808 (dec_str n) = Some n" by (simp add: parse_radix_str)
  ultimately show ?thesis by (simp add: parse_i64_def cs)
qed

section \<open>Big-endian byte strings\<close>

fun be_bytes :: "nat \<Rightarrow> nat \<Rightarrow> u8 list" where
  "be_bytes 0 n = []"
| "be_bytes (Suc k) n = word_of_nat (n div 256 ^ k) # be_bytes k n"

fun be_val :: "u8 list \<Rightarrow> nat" where
  "be_val [] = 0"
| "be_val (b # bs) = unat b * 256 ^ length bs + be_val bs"

lemma length_be_bytes [simp]: "length (be_bytes k n) = k"
  by (induction k) auto

lemma be_val_append: "be_val (xs @ ys) = be_val xs * 256 ^ length ys + be_val ys"
  by (induction xs) (auto simp: power_add algebra_simps)

lemma be_val_less: "be_val bs < 256 ^ length bs"
proof (induction bs)
  case (Cons b bs)
  have "unat b \<le> 255" using unat_bounds(1) [of b] by simp
  then have "unat b * 256 ^ length bs \<le> 255 * 256 ^ length bs" by (rule mult_le_mono1)
  from this Cons have "unat b * 256 ^ length bs + be_val bs < 255 * 256 ^ length bs + 256 ^ length bs"
    by (rule add_le_less_mono)
  then show ?case by simp
qed simp

lemma be_val_be_bytes [rbh_codec]: "be_val (be_bytes k n) = n mod 256 ^ k"
proof (induction k)
  case (Suc k)
  have "n mod 256 ^ Suc k = 256 ^ k * (n div 256 ^ k mod 256) + n mod 256 ^ k"
    using mod_mult2_eq [of n "256 ^ k" 256] by (simp add: mult.commute)
  with Suc show ?case by (simp add: unsigned_of_nat take_bit_eq_mod mult.commute)
qed simp

lemma be_bytes_be_val [rbh_codec]: "be_bytes (length bs) (be_val bs) = bs"
proof (induction bs)
  case (Cons b bs)
  have drop: "be_bytes k (m * 256 ^ j + n) = be_bytes k n" if "k \<le> j" for k j m n :: nat
    using that
  proof (induction k)
    case (Suc k)
    then have "(256 :: nat) ^ j = 256 ^ (j - k) * 256 ^ k" by (simp flip: power_add)
    then have "(m * 256 ^ j + n) div 256 ^ k = m * 256 ^ (j - k) + n div 256 ^ k"
      by (simp flip: mult.assoc)
    moreover have "(256 :: nat) ^ (j - k) = 256 * 256 ^ (j - k - 1)"
      using Suc.prems by (simp flip: power_Suc)
    ultimately have "(m * 256 ^ j + n) div 256 ^ k = (m * 256 ^ (j - k - 1)) * 256 + n div 256 ^ k"
      by simp
    moreover have "(word_of_nat (q * 256 + r) :: u8) = word_of_nat r" for q r :: nat
      unfolding word_of_nat_eq_iff by (simp add: take_bit_eq_mod)
    ultimately have "(word_of_nat ((m * 256 ^ j + n) div 256 ^ k) :: u8) = word_of_nat (n div 256 ^ k)"
      by presburger
    with Suc show ?case by simp
  qed simp
  have "(unat b * 256 ^ length bs + be_val bs) div 256 ^ length bs = unat b"
    using be_val_less [of bs] by simp
  with Cons drop show ?case by simp
qed simp

lemma be_val_lex:
  "length xs = length ys \<Longrightarrow> xs < ys \<longleftrightarrow> be_val xs < be_val ys"
proof (induction xs ys rule: list_induct2)
  case (Cons x xs y ys)
  let ?k = "256 ^ length ys :: nat"
  have bnd_x: "be_val xs < ?k" and bnd_y: "be_val ys < ?k"
    using be_val_less [of xs] be_val_less [of ys] Cons.hyps by simp_all
  consider "x < y" | "x = y" | "y < x" by fastforce
  then show ?case
  proof cases
    case 1
    then have "(unat x + 1) * ?k \<le> unat y * ?k"
      by (intro mult_le_mono1) (simp add: word_less_nat_alt Suc_le_eq)
    with 1 bnd_x Cons.hyps show ?thesis by (simp add: algebra_simps)
  next
    case 2
    with Cons show ?thesis by simp
  next
    case 3
    then have "(unat y + 1) * ?k \<le> unat x * ?k"
      by (intro mult_le_mono1) (simp add: word_less_nat_alt Suc_le_eq)
    with 3 bnd_y Cons.hyps show ?thesis by (auto simp: algebra_simps)
  qed
qed simp

end
