(* ===== verification/Rbh_Fid.thy ===== *)
theory Rbh_Fid
  imports Rbh_Prelude
begin

text \<open>
  Lustre file identifiers: the triple \<open>LuFid\<close> with its printer and parser
  (\<open>crates/lustre-api/src/fid.rs\<close>) and its 16-byte database key
  (\<open>crates/entry-store/src/fid_codec.rs\<close>). The lemmas show that the parser inverts
  the printer, what the parser accepts and how it truncates, that the key is a
  bijection with the 16-byte strings, and that the byte order of keys is the
  numerical order of identifiers, which the range scans of the catalog rely on.
\<close>

section \<open>The identifier\<close>

datatype LuFid = LuFid (seq: u64) (oid: u32) (ver: u32)

definition ZERO :: LuFid where
  "ZERO = LuFid 0 0 0"

definition is_zero :: "LuFid \<Rightarrow> bool" where
  "is_zero f = (seq f = 0 \<and> oid f = 0 \<and> ver f = 0)"

section \<open>Printing and parsing\<close>

definition fid_to_string :: "LuFid \<Rightarrow> string" where
  "fid_to_string f =
     ''[0x'' @ hex_str (unat (seq f)) @ '':0x'' @ hex_str (unat (oid f)) @ '':0x''
       @ hex_str (unat (ver f)) @ '']''"

datatype FidParseError = InvalidFormat string | InvalidHex

text \<open>\<open>trim_start_matches\<close> of a two-character pattern removes it repeatedly.\<close>

fun trim_start_matches2 :: "char \<Rightarrow> char \<Rightarrow> string \<Rightarrow> string" where
  "trim_start_matches2 a b (x # y # s) =
     (if x = a \<and> y = b then trim_start_matches2 a b s else x # y # s)"
| "trim_start_matches2 a b s = s"

definition parse_hex :: "string \<Rightarrow> FidParseError + u64" where
  "parse_hex p =
     (let hex = trim_start_matches2 (CHR ''0'') (CHR ''X'')
                  (trim_start_matches2 (CHR ''0'') (CHR ''x'') p)
      in case parse_radix 16 (2 ^ 64) hex of
           None \<Rightarrow> Inl InvalidHex
         | Some n \<Rightarrow> Inr (word_of_nat n))"

definition fid_inner :: "string \<Rightarrow> string" where
  "fid_inner trimmed =
     (case Option.bind (strip_prefix ''['' trimmed) (strip_suffix '']'') of
        Some inner \<Rightarrow> inner
      | None \<Rightarrow> trimmed)"

definition fid_from_str :: "string \<Rightarrow> FidParseError + LuFid" where
  "fid_from_str s =
     (case split_on (CHR '':'') (fid_inner (trim s)) of
        [p0, p1, p2] \<Rightarrow>
          (case parse_hex p0 of
             Inl e \<Rightarrow> Inl e
           | Inr sq \<Rightarrow>
             (case parse_hex p1 of
                Inl e \<Rightarrow> Inl e
              | Inr oid_u64 \<Rightarrow>
                (case parse_hex p2 of
                   Inl e \<Rightarrow> Inl e
                 | Inr ver_u64 \<Rightarrow> Inr (LuFid sq (ucast oid_u64) (ucast ver_u64)))))
      | _ \<Rightarrow> Inl (InvalidFormat s))"

section \<open>The binary key\<close>

definition fid_encode :: "LuFid \<Rightarrow> u8 list" where
  "fid_encode f =
     be_bytes 8 (unat (seq f)) @ be_bytes 4 (unat (oid f)) @ be_bytes 4 (unat (ver f))"

definition fid_decode :: "u8 list \<Rightarrow> LuFid option" where
  "fid_decode buf =
     (if length buf \<noteq> 16 then None
      else Some (LuFid (word_of_nat (be_val (take 8 buf)))
                       (word_of_nat (be_val (take 4 (drop 8 buf))))
                       (word_of_nat (be_val (take 4 (drop 12 buf))))))"

section \<open>Order\<close>

text \<open>Identifiers are ordered numerically by sequence, object and version.\<close>

instantiation LuFid :: linorder
begin

definition less_eq_LuFid :: "LuFid \<Rightarrow> LuFid \<Rightarrow> bool" where
  "less_eq_LuFid a b =
     (seq a < seq b \<or> seq a = seq b \<and> (oid a < oid b \<or> oid a = oid b \<and> ver a \<le> ver b))"

definition less_LuFid :: "LuFid \<Rightarrow> LuFid \<Rightarrow> bool" where
  "less_LuFid a b =
     (seq a < seq b \<or> seq a = seq b \<and> (oid a < oid b \<or> oid a = oid b \<and> ver a < ver b))"

instance
proof
  fix a b c :: LuFid
  show "a < b \<longleftrightarrow> a \<le> b \<and> \<not> b \<le> a"
    by (auto simp: less_eq_LuFid_def less_LuFid_def)
  show "a \<le> a" by (simp add: less_eq_LuFid_def)
  show "a \<le> b \<Longrightarrow> b \<le> c \<Longrightarrow> a \<le> c"
    by (auto simp: less_eq_LuFid_def)
  show "a \<le> b \<Longrightarrow> b \<le> a \<Longrightarrow> a = b"
    unfolding less_eq_LuFid_def by (metis LuFid.expand antisym less_asym)
  show "a \<le> b \<or> b \<le> a"
    unfolding less_eq_LuFid_def by (metis linear linorder_neqE)
qed

end

section \<open>Lemmas\<close>

lemma is_zero_iff: "is_zero f \<longleftrightarrow> f = ZERO"
  by (cases f) (simp add: is_zero_def ZERO_def)

lemma trim2_stop: "\<not> (\<exists>t. s = a # b # t) \<Longrightarrow> trim_start_matches2 a b s = s"
  by (cases "(a, b, s)" rule: trim_start_matches2.cases) auto

lemma parse_hex_printed [rbh_codec]:
  assumes "n < 2 ^ 64"
  shows "parse_hex (CHR ''0'' # CHR ''x'' # hex_str n) = Inr (word_of_nat n)"
proof -
  have x: "CHR ''x'' \<notin> set (hex_str n)" and X: "CHR ''X'' \<notin> set (hex_str n)"
    by (rule not_in_radix_str; simp)+
  then have "trim_start_matches2 (CHR ''0'') (CHR ''x'') (hex_str n) = hex_str n"
    and "trim_start_matches2 (CHR ''0'') (CHR ''X'') (hex_str n) = hex_str n"
    by (intro trim2_stop; force)+
  with assms show ?thesis by (simp add: parse_hex_def parse_radix_str)
qed

lemma fid_string_inner:
  "fid_inner (trim (fid_to_string f)) =
     ''0x'' @ hex_str (unat (seq f)) @ '':0x'' @ hex_str (unat (oid f)) @ '':0x''
       @ hex_str (unat (ver f))" (is "_ = ?inner")
proof -
  have str: "fid_to_string f = ''['' @ ?inner @ '']''"
    by (simp add: fid_to_string_def)
  have "trim (fid_to_string f) = fid_to_string f"
    by (rule trim_id) (simp add: str is_ws_def)
  then show ?thesis
    using strip_suffix_append [of "'']''" ?inner] by (simp add: fid_inner_def str)
qed

lemma ucast_u64_u32 [simp]: "(ucast (ucast w :: u64) :: u32) = w"
  by (rule bit_word_eqI) (auto simp: bit_simps)

lemma colon_free: "CHR '':'' \<notin> set (''0x'' @ hex_str n)"
  using not_in_radix_str [of 16 "CHR '':''" n] by simp

lemma split_three:
  assumes "d \<notin> set a" "d \<notin> set b" "d \<notin> set c"
  shows "split_on d (a @ d # b @ d # c) = [a, b, c]"
  using assms by (simp add: split_on_append split_on_none)

lemma fid_encode_length [simp]: "length (fid_encode f) = 16"
  by (simp add: fid_encode_def)

lemma fid_encode_val:
  "be_val (fid_encode f) =
     unat (seq f) * 256 ^ 8 + unat (oid f) * 256 ^ 4 + unat (ver f)"
proof -
  have "unat (seq f) < 256 ^ 8" "unat (oid f) < 256 ^ 4" "unat (ver f) < 256 ^ 4"
    using unat_bounds(4) [of "seq f"] unat_bounds(3) [of "oid f"] unat_bounds(3) [of "ver f"]
    by simp_all
  then show ?thesis
    by (simp add: fid_encode_def be_val_append be_val_be_bytes)
qed

lemma parse_three:
  assumes "a < 2 ^ 64" "b < 2 ^ 64" "c < 2 ^ 64"
    and "fid_inner (trim s) = ''0x'' @ hex_str a @ '':0x'' @ hex_str b @ '':0x'' @ hex_str c"
  shows "fid_from_str s =
    Inr (LuFid (word_of_nat a) (ucast (word_of_nat b :: u64)) (ucast (word_of_nat c :: u64)))"
proof -
  have "split_on (CHR '':'') (fid_inner (trim s)) =
      [''0x'' @ hex_str a, ''0x'' @ hex_str b, ''0x'' @ hex_str c]"
    using split_three [OF colon_free colon_free colon_free] by (simp add: assms(4))
  with assms(1-3) show ?thesis by (simp add: fid_from_str_def parse_hex_printed)
qed

text \<open>
  The object and version components are cut to 32 bits without an error, so two
  different strings can denote one identifier.
\<close>

lemma fid_parse_truncates:
  "fid_from_str ''0x1:0x100000001:0x0'' = Inr (LuFid 1 1 0)"
  "fid_from_str ''1:0x0x1:0'' = Inr (LuFid 1 1 0)"
  by (simp_all add: fid_from_str_def fid_inner_def trim_def is_ws_def strip_suffix_def
      parse_hex_def parse_radix_def digit_val_def)

lemma fid_decode_some:
  assumes "length buf = 16"
  shows "fid_decode buf = Some (LuFid (word_of_nat (be_val (take 8 buf)))
    (word_of_nat (be_val (take 4 (drop 8 buf)))) (word_of_nat (be_val (take 4 (drop 12 buf)))))"
  using assms by (simp add: fid_decode_def)

lemma unat_of_be_val:
  assumes "length bs = 8" shows "unat (word_of_nat (be_val bs) :: u64) = be_val bs"
  using be_val_less [of bs] assms by (simp add: unsigned_of_nat take_bit_eq_mod)

lemma unat_of_be_val4:
  assumes "length bs = 4" shows "unat (word_of_nat (be_val bs) :: u32) = be_val bs"
  using be_val_less [of bs] assms by (simp add: unsigned_of_nat take_bit_eq_mod)

lemma be_bytes_part: "length bs = k \<Longrightarrow> be_bytes k (be_val bs) = bs"
  using be_bytes_be_val [of bs] by simp

lemma decode_encode: "fid_decode (fid_encode f) = Some f"
  using unat_bounds(4) [of "seq f"] unat_bounds(3) [of "oid f"] unat_bounds(3) [of "ver f"]
  by (subst fid_decode_some) (simp_all add: fid_encode_def be_val_be_bytes)

lemma encode_decode: "fid_decode buf = Some f \<Longrightarrow> fid_encode f = buf"
proof -
  assume dec: "fid_decode buf = Some f"
  then have len: "length buf = 16" by (simp add: fid_decode_def split: if_splits)
  have "fid_encode f = take 8 buf @ take 4 (drop 8 buf) @ take 4 (drop 12 buf)"
    using dec len by (auto simp: fid_decode_some fid_encode_def unat_of_be_val unat_of_be_val4 be_bytes_part)
  also have "\<dots> = take 8 buf @ take 4 (drop 8 buf) @ drop 4 (drop 8 buf)"
    using len by simp
  also have "\<dots> = buf" by (simp only: append_take_drop_id)
  finally show ?thesis .
qed

section \<open>Properties\<close>

text \<open>Parsing a printed identifier gives the identifier back, for every triple.\<close>

theorem fid_parse_print: "fid_from_str (fid_to_string f) = Inr f"
  using parse_three [OF _ _ _ fid_string_inner]
    unat_bounds(4) [of "seq f"] unat_bounds(3) [of "oid f"] unat_bounds(3) [of "ver f"]
  by simp

text \<open>
  The 16-byte key is a bijection: a buffer decodes to an identifier exactly when it
  is the key of that identifier, and every buffer of 16 bytes decodes.
\<close>

theorem fid_codec_bijection:
  "(fid_decode buf = Some f \<longleftrightarrow> fid_encode f = buf) \<and>
   (fid_decode buf = None \<longleftrightarrow> length buf \<noteq> 16)"
  using decode_encode encode_decode by (auto simp: fid_decode_def)

text \<open>
  The byte-wise lexicographic order of the keys, the order of a \<open>BINARY(16)\<close>
  index, is the numerical order of the identifiers.
\<close>

theorem fid_encode_order: "fid_encode f < fid_encode g \<longleftrightarrow> f < g"
proof -
  let ?n = "\<lambda>f. unat (seq f) * 256 ^ 8 + (unat (oid f) * 256 ^ 4 + unat (ver f))"
  have low: "unat (oid h) * 256 ^ 4 + unat (ver h) < 256 ^ 8" for h
    using unat_bounds(3) [of "oid h"] unat_bounds(3) [of "ver h"] by simp
  have "fid_encode f < fid_encode g \<longleftrightarrow> ?n f < ?n g"
    by (simp add: be_val_lex fid_encode_val add.assoc)
  also have "\<dots> \<longleftrightarrow> f < g"
    using low [of f] low [of g] unat_bounds(3) [of "ver f"] unat_bounds(3) [of "ver g"]
    by (auto simp: less_LuFid_def word_less_nat_alt word_unat_eq_iff)
  finally show ?thesis .
qed

end
