(* ===== verification/Rbh_Event.thy ===== *)
theory Rbh_Event
  imports Rbh_Fid
begin

unbundle bit_operations_syntax

text \<open>
  Lustre changelog records and the typed events parsed from them: the record kinds of
  \<open>crates/lustre-api/src/rec.rs\<close> (\<open>ChangelogEventType\<close>), the domain events and their
  envelope of \<open>crates/lustre-changelog/src/event.rs\<close>, and \<open>parse_event\<close> of
  \<open>crates/lustre-changelog/src/parse.rs\<close> over the record accessors of the trait
  \<open>RawRec\<close>, which \<open>raw_rec\<close> holds as fields. The lemmas show what every record kind
  becomes, when parsing fails, and that the packed fields of \<open>cr_time\<close> and
  \<open>cr_flags\<close> are decoded exactly.
\<close>

section \<open>Record kinds\<close>

datatype ChangelogEventType =
    ET_Mark | ET_Create | ET_Mkdir | ET_Hardlink | ET_Softlink | ET_Mknod | ET_Unlink
  | ET_Rmdir | ET_Rename | ET_RenameTo | ET_Open | ET_Close | ET_Layout | ET_Truncate
  | ET_SetAttr | ET_XAttr | ET_Hsm | ET_MTime | ET_CTime | ET_ATime | ET_Migrate
  | ET_FlrWrite | ET_Resync | ET_GetXattr | ET_NoOpen | ET_Unknown u32

definition event_type_from_raw :: "u32 \<Rightarrow> ChangelogEventType" where
  "event_type_from_raw n =
     (if n = 0 then ET_Mark else if n = 1 then ET_Create else if n = 2 then ET_Mkdir
      else if n = 3 then ET_Hardlink else if n = 4 then ET_Softlink else if n = 5 then ET_Mknod
      else if n = 6 then ET_Unlink else if n = 7 then ET_Rmdir else if n = 8 then ET_Rename
      else if n = 9 then ET_RenameTo else if n = 10 then ET_Open else if n = 11 then ET_Close
      else if n = 12 then ET_Layout else if n = 13 then ET_Truncate
      else if n = 14 then ET_SetAttr else if n = 15 then ET_XAttr else if n = 16 then ET_Hsm
      else if n = 17 then ET_MTime else if n = 18 then ET_CTime else if n = 19 then ET_ATime
      else if n = 20 then ET_Migrate else if n = 21 then ET_FlrWrite
      else if n = 22 then ET_Resync else if n = 23 then ET_GetXattr
      else if n = 24 then ET_NoOpen else ET_Unknown n)"

fun event_type_as_str :: "ChangelogEventType \<Rightarrow> string" where
  "event_type_as_str ET_Mark = ''MARK''"
| "event_type_as_str ET_Create = ''CREAT''"
| "event_type_as_str ET_Mkdir = ''MKDIR''"
| "event_type_as_str ET_Hardlink = ''HLINK''"
| "event_type_as_str ET_Softlink = ''SLINK''"
| "event_type_as_str ET_Mknod = ''MKNOD''"
| "event_type_as_str ET_Unlink = ''UNLNK''"
| "event_type_as_str ET_Rmdir = ''RMDIR''"
| "event_type_as_str ET_Rename = ''RENME''"
| "event_type_as_str ET_RenameTo = ''RNMTO''"
| "event_type_as_str ET_Open = ''OPEN''"
| "event_type_as_str ET_Close = ''CLOSE''"
| "event_type_as_str ET_Layout = ''LYOUT''"
| "event_type_as_str ET_Truncate = ''TRUNC''"
| "event_type_as_str ET_SetAttr = ''SATTR''"
| "event_type_as_str ET_XAttr = ''XATTR''"
| "event_type_as_str ET_Hsm = ''HSM''"
| "event_type_as_str ET_MTime = ''MTIME''"
| "event_type_as_str ET_CTime = ''CTIME''"
| "event_type_as_str ET_ATime = ''ATIME''"
| "event_type_as_str ET_Migrate = ''MIGRT''"
| "event_type_as_str ET_FlrWrite = ''FLRW''"
| "event_type_as_str ET_Resync = ''RESYNC''"
| "event_type_as_str ET_GetXattr = ''GXATR''"
| "event_type_as_str ET_NoOpen = ''NOPEN''"
| "event_type_as_str (ET_Unknown n) = ''UNKNOWN''"

fun event_type_display :: "ChangelogEventType \<Rightarrow> string" where
  "event_type_display (ET_Unknown n) = ''UNKNOWN('' @ dec_str (unat n) @ '')''"
| "event_type_display t = event_type_as_str t"

section \<open>Events\<close>

datatype ChangelogEvent =
    Create (fid: LuFid) (parent: LuFid) (name: bytes) (jobid: "string option")
      (uid: "u32 option") (gid: "u32 option")
  | Mkdir (fid: LuFid) (parent: LuFid) (name: bytes) (jobid: "string option")
      (uid: "u32 option") (gid: "u32 option")
  | Mknod (fid: LuFid) (parent: LuFid) (name: bytes) (jobid: "string option")
      (uid: "u32 option") (gid: "u32 option")
  | Hardlink (fid: LuFid) (parent: LuFid) (name: bytes)
  | Softlink (fid: LuFid) (parent: LuFid) (name: bytes)
  | Unlink (fid: LuFid) (parent: LuFid) (name: bytes) (last_link: bool) (hsm_exists: bool)
  | Rmdir (fid: LuFid) (parent: LuFid) (name: bytes)
  | Rename (fid: LuFid) (parent: LuFid) (name: bytes) (src_parent: LuFid) (src_name: bytes)
  | Close (fid: LuFid) (parent: LuFid) (name: bytes)
  | Truncate (fid: LuFid)
  | SetAttr (fid: LuFid)
  | MTime (fid: LuFid)
  | CTime (fid: LuFid)
  | XAttr (fid: LuFid) (xattr_name: bytes)
  | Layout (fid: LuFid)
  | Hsm (fid: LuFid) (hsm_event: u8) (hsm_flags: u8) (hsm_error: u8)

fun kind_name :: "ChangelogEvent \<Rightarrow> string" where
  "kind_name (Create _ _ _ _ _ _) = ''CREAT''"
| "kind_name (Mkdir _ _ _ _ _ _) = ''MKDIR''"
| "kind_name (Mknod _ _ _ _ _ _) = ''MKNOD''"
| "kind_name (Hardlink _ _ _) = ''HLINK''"
| "kind_name (Softlink _ _ _) = ''SLINK''"
| "kind_name (Unlink _ _ _ _ _) = ''UNLNK''"
| "kind_name (Rmdir _ _ _) = ''RMDIR''"
| "kind_name (Rename _ _ _ _ _) = ''RENME''"
| "kind_name (Close _ _ _) = ''CLOSE''"
| "kind_name (Truncate _) = ''TRUNC''"
| "kind_name (SetAttr _) = ''SATTR''"
| "kind_name (MTime _) = ''MTIME''"
| "kind_name (CTime _) = ''CTIME''"
| "kind_name (XAttr _ _) = ''XATTR''"
| "kind_name (Layout _) = ''LYOUT''"
| "kind_name (Hsm _ _ _ _) = ''HSM''"

record ChangelogEventEnvelope =
  mdt :: string
  index :: u64
  time :: i64
  event :: ChangelogEvent

section \<open>Parsing a record\<close>

record RawRec =
  rr_event_type :: ChangelogEventType
  rr_index :: u64
  rr_time :: u64
  rr_target_fid :: LuFid
  rr_parent_fid :: LuFid
  rr_name :: bytes
  rr_source_name :: "bytes option"
  rr_rename_source_fid :: "LuFid option"
  rr_rename_source_parent_fid :: "LuFid option"
  rr_uid :: "u32 option"
  rr_gid :: "u32 option"
  rr_jobid :: "bytes option"
  rr_flags :: u16

definition CLF_FLAGMASK :: u16 where "CLF_FLAGMASK = 0x0FFF"
definition CLF_UNLINK_LAST :: u16 where "CLF_UNLINK_LAST = 0x0001"
definition CLF_UNLINK_HSM_EXISTS :: u16 where "CLF_UNLINK_HSM_EXISTS = 0x0002"
definition HSM_ERR_MASK :: u16 where "HSM_ERR_MASK = 0x007F"
definition HSM_EVENT_SHIFT :: nat where "HSM_EVENT_SHIFT = 7"
definition HSM_EVENT_MASK :: u16 where "HSM_EVENT_MASK = 0x0007"
definition HSM_FLAGS_SHIFT :: nat where "HSM_FLAGS_SHIFT = 10"
definition HSM_FLAGS_MASK :: u16 where "HSM_FLAGS_MASK = 0x0003"

lemmas flag_defs = CLF_FLAGMASK_def CLF_UNLINK_LAST_def CLF_UNLINK_HSM_EXISTS_def
  HSM_ERR_MASK_def HSM_EVENT_SHIFT_def HSM_EVENT_MASK_def HSM_FLAGS_SHIFT_def HSM_FLAGS_MASK_def

text \<open>The errors of the crate (\<open>cursor.rs\<close>, \<open>error.rs\<close>); a failed call of liblustreapi has an errno.\<close>

datatype CursorError = NonMonotonic string u64 u64 | Backend string

datatype ChangelogError =
    LustreApi int
  | Parse u64 string
  | AckChannelClosed
  | EventChannelClosed
  | Cursor CursorError
  | BlockingJoin

definition parse_jobid :: "RawRec \<Rightarrow> string option" where
  "parse_jobid rec =
     Option.bind (rr_jobid rec) (\<lambda>b. if b = [] then None else Some (from_utf8_lossy b))"

definition parse_rename :: "RawRec \<Rightarrow> ChangelogError + ChangelogEvent" where
  "parse_rename rec =
     (let file_fid = (case rr_rename_source_fid rec of
                        Some f \<Rightarrow> f | None \<Rightarrow> rr_target_fid rec)
      in case rr_rename_source_parent_fid rec of
           None \<Rightarrow> Inl (Parse (rr_index rec) ''rename missing source parent FID'')
         | Some sp \<Rightarrow>
           (case rr_source_name rec of
              None \<Rightarrow> Inl (Parse (rr_index rec) ''rename missing source name'')
            | Some sn \<Rightarrow> Inr (Rename file_fid (rr_parent_fid rec) (rr_name rec) sp sn)))"

definition parse_payload :: "RawRec \<Rightarrow> ChangelogError + ChangelogEvent option" where
  "parse_payload rec =
     (let fid = rr_target_fid rec; parent = rr_parent_fid rec; name = rr_name rec;
          type_flags = rr_flags rec AND CLF_FLAGMASK;
          jobid = parse_jobid rec; uid = rr_uid rec; gid = rr_gid rec
      in case rr_event_type rec of
           ET_Create \<Rightarrow> Inr (Some (Create fid parent name jobid uid gid))
         | ET_Mkdir \<Rightarrow> Inr (Some (Mkdir fid parent name jobid uid gid))
         | ET_Mknod \<Rightarrow> Inr (Some (Mknod fid parent name jobid uid gid))
         | ET_Hardlink \<Rightarrow> Inr (Some (Hardlink fid parent name))
         | ET_Softlink \<Rightarrow> Inr (Some (Softlink fid parent name))
         | ET_Unlink \<Rightarrow>
             Inr (Some (Unlink fid parent name (type_flags AND CLF_UNLINK_LAST \<noteq> 0)
                          (type_flags AND CLF_UNLINK_HSM_EXISTS \<noteq> 0)))
         | ET_Rmdir \<Rightarrow> Inr (Some (Rmdir fid parent name))
         | ET_Rename \<Rightarrow> map_sum id Some (parse_rename rec)
         | ET_RenameTo \<Rightarrow> map_sum id Some (parse_rename rec)
         | ET_Close \<Rightarrow> Inr (Some (Close fid parent name))
         | ET_Truncate \<Rightarrow> Inr (Some (Truncate fid))
         | ET_SetAttr \<Rightarrow> Inr (Some (SetAttr fid))
         | ET_MTime \<Rightarrow> Inr (Some (MTime fid))
         | ET_CTime \<Rightarrow> Inr (Some (CTime fid))
         | ET_XAttr \<Rightarrow> Inr (Some (XAttr fid name))
         | ET_Layout \<Rightarrow> Inr (Some (Layout fid))
         | ET_Hsm \<Rightarrow>
             Inr (Some (Hsm fid
               (ucast (drop_bit HSM_EVENT_SHIFT type_flags AND HSM_EVENT_MASK))
               (ucast (drop_bit HSM_FLAGS_SHIFT type_flags AND HSM_FLAGS_MASK))
               (ucast (type_flags AND HSM_ERR_MASK))))
         | _ \<Rightarrow> Inr None)"

definition parse_event ::
  "string \<Rightarrow> RawRec \<Rightarrow> ChangelogError + ChangelogEventEnvelope option" where
  "parse_event mdt_name rec =
     map_sum id (map_option (\<lambda>ev.
         \<lparr>mdt = mdt_name, index = rr_index rec, time = sint (drop_bit 30 (rr_time rec)),
          event = ev\<rparr>))
       (parse_payload rec)"

section \<open>Lemmas\<close>

definition ignored_types :: "ChangelogEventType set" where
  "ignored_types =
     {ET_Mark, ET_Open, ET_NoOpen, ET_ATime, ET_Migrate, ET_FlrWrite, ET_Resync, ET_GetXattr}
     \<union> range ET_Unknown"

definition rename_types :: "ChangelogEventType set" where
  "rename_types = {ET_Rename, ET_RenameTo}"

lemma parse_event_fields:
  assumes "parse_event m rec = Inr (Some env)"
  shows "mdt env = m" "index env = rr_index rec" "time env = sint (drop_bit 30 (rr_time rec))"
    "parse_payload rec = Inr (Some (event env))"
  using assms by (auto simp: parse_event_def map_sum_def split: sum.splits)

lemma parse_event_Inl: "parse_event m rec = Inl e \<longleftrightarrow> parse_payload rec = Inl e"
  by (auto simp: parse_event_def split: sum.splits) (cases "parse_payload rec"; simp)+

lemma parse_event_None: "parse_event m rec = Inr None \<longleftrightarrow> parse_payload rec = Inr None"
  by (auto simp: parse_event_def) (cases "parse_payload rec"; simp)+

lemma parse_payload_None: "parse_payload rec = Inr None \<longleftrightarrow> rr_event_type rec \<in> ignored_types"
  by (cases "rr_event_type rec")
    (auto simp: parse_payload_def parse_rename_def ignored_types_def Let_def
      split: option.splits)

lemma parse_payload_Inl:
  "(\<exists>e. parse_payload rec = Inl e) \<longleftrightarrow>
     rr_event_type rec \<in> rename_types \<and>
     (rr_rename_source_parent_fid rec = None \<or> rr_source_name rec = None)"
  by (cases "rr_event_type rec")
    (auto simp: parse_payload_def parse_rename_def rename_types_def Let_def
      split: option.splits)

lemma parse_payload_kind:
  "parse_payload rec = Inr (Some ev) \<Longrightarrow> rr_event_type rec \<notin> rename_types \<Longrightarrow>
     kind_name ev = event_type_as_str (rr_event_type rec) \<and> fid ev = rr_target_fid rec"
  by (cases "rr_event_type rec")
    (auto simp: parse_payload_def rename_types_def Let_def split: option.splits)

lemma parse_payload_rename:
  "parse_payload rec = Inr (Some ev) \<Longrightarrow> rr_event_type rec \<in> rename_types \<Longrightarrow>
     \<exists>sp sn. rr_rename_source_parent_fid rec = Some sp \<and> rr_source_name rec = Some sn \<and>
       ev = Rename (case rr_rename_source_fid rec of Some f \<Rightarrow> f | None \<Rightarrow> rr_target_fid rec)
              (rr_parent_fid rec) (rr_name rec) sp sn"
  by (auto simp: parse_payload_def parse_rename_def rename_types_def Let_def
      split: option.splits)

lemma sint_time: "sint (drop_bit 30 t) = int (unat t div 2 ^ 30)" for t :: u64
proof -
  have "unat t div 2 ^ 30 < 2 ^ 34"
    using unat_bounds(4) [of t] by (simp add: div_less_iff_less_mult)
  then have "unat (drop_bit 30 t) < 2 ^ 63" by (simp add: unat_drop_bit)
  then have "sint (drop_bit 30 t) = int (unat (drop_bit 30 t))"
    by (intro sint_small) simp
  then show ?thesis by (simp add: unat_drop_bit)
qed

lemma hsm_fields:
  fixes e v f u :: nat
  assumes "e < 128" "v < 8" "f < 4"
    and w: "w = word_of_nat (e + 128 * v + 1024 * f + 4096 * u)"
  shows "ucast (drop_bit HSM_EVENT_SHIFT (w AND CLF_FLAGMASK) AND HSM_EVENT_MASK) = (word_of_nat v :: u8)"
    and "ucast (drop_bit HSM_FLAGS_SHIFT (w AND CLF_FLAGMASK) AND HSM_FLAGS_MASK) = (word_of_nat f :: u8)"
    and "ucast ((w AND CLF_FLAGMASK) AND HSM_ERR_MASK) = (word_of_nat e :: u8)"
proof -
  have masks: "CLF_FLAGMASK = mask 12" "HSM_EVENT_MASK = mask 3" "HSM_FLAGS_MASK = mask 2"
    "HSM_ERR_MASK = mask 7"
    by (simp_all add: flag_defs mask_eq_exp_minus_1)
  have "unat w mod 4096 = e + 128 * v + 1024 * f"
  proof -
    have "unat w mod 4096 = (e + 128 * v + 1024 * f + 4096 * u) mod 65536 mod 4096"
      unfolding w unat_of_nat by simp
    also have "\<dots> = (e + 128 * v + 1024 * f + 4096 * u) mod 4096" by (rule mod_mod_cancel) simp
    finally show ?thesis using assms(1-3) by simp
  qed
  then have low: "unat (w AND CLF_FLAGMASK) = e + 128 * v + 1024 * f"
    by (simp add: masks unat_and_mask)
  have split128: "(e + 128 * q) div 128 = q" "(e + 128 * q) mod 128 = e" for q
    using assms(1) by simp_all
  have "unat (drop_bit HSM_EVENT_SHIFT (w AND CLF_FLAGMASK) AND HSM_EVENT_MASK) = v"
    "unat (drop_bit HSM_FLAGS_SHIFT (w AND CLF_FLAGMASK) AND HSM_FLAGS_MASK) = f"
    "unat ((w AND CLF_FLAGMASK) AND HSM_ERR_MASK) = e"
    unfolding masks(2-4) unat_and_mask unat_drop_bit low HSM_EVENT_SHIFT_def HSM_FLAGS_SHIFT_def
    using assms(1-3) split128 [of "v + 8 * f"] by (simp_all add: add.assoc)
  then show "ucast (drop_bit HSM_EVENT_SHIFT (w AND CLF_FLAGMASK) AND HSM_EVENT_MASK) = (word_of_nat v :: u8)"
    and "ucast (drop_bit HSM_FLAGS_SHIFT (w AND CLF_FLAGMASK) AND HSM_FLAGS_MASK) = (word_of_nat f :: u8)"
    and "ucast ((w AND CLF_FLAGMASK) AND HSM_ERR_MASK) = (word_of_nat e :: u8)"
    by (metis of_nat_unat)+
qed

definition sample_rec :: RawRec where
  "sample_rec =
     \<lparr>rr_event_type = ET_Create, rr_index = 1, rr_time = 1919724587777133588,
      rr_target_fid = LuFid 0x200000401 0x1a 0, rr_parent_fid = LuFid 0x200000401 1 0,
      rr_name = ''test.txt'', rr_source_name = None, rr_rename_source_fid = None,
      rr_rename_source_parent_fid = None, rr_uid = None, rr_gid = None, rr_jobid = None,
      rr_flags = 0\<rparr>"

section \<open>Properties\<close>

text \<open>
  Every record has one of three outcomes. It is dropped exactly when its kind is one
  of the ignored ones; it is an error exactly when it is a rename without a source
  parent or a source name; otherwise the envelope carries the record's stream, index
  and time and an event of the record's kind about the record's target.
\<close>

theorem parse_event_outcomes:
  "(parse_event m rec = Inr None \<longleftrightarrow> rr_event_type rec \<in> ignored_types) \<and>
   ((\<exists>e. parse_event m rec = Inl e) \<longleftrightarrow>
      rr_event_type rec \<in> rename_types \<and>
      (rr_rename_source_parent_fid rec = None \<or> rr_source_name rec = None)) \<and>
   (\<forall>env. parse_event m rec = Inr (Some env) \<longrightarrow>
      mdt env = m \<and> index env = rr_index rec \<and>
      time env = int (unat (rr_time rec) div 2 ^ 30) \<and>
      (if rr_event_type rec \<in> rename_types
       then kind_name (event env) = ''RENME'' \<and>
         fid (event env) =
           (case rr_rename_source_fid rec of Some f \<Rightarrow> f | None \<Rightarrow> rr_target_fid rec)
       else kind_name (event env) = event_type_as_str (rr_event_type rec) \<and>
         fid (event env) = rr_target_fid rec))"
  using parse_payload_kind [of rec] parse_payload_rename [of rec]
  by (auto simp: parse_event_None parse_payload_None parse_event_Inl parse_payload_Inl
      parse_event_fields(1-3) sint_time dest!: parse_event_fields(4))

theorem parse_event_outcomes_witness:
  "parse_event ''fs-MDT0000'' sample_rec =
     Inr (Some \<lparr>mdt = ''fs-MDT0000'', index = 1, time = 1787882845,
       event = Create (LuFid 0x200000401 0x1a 0) (LuFid 0x200000401 1 0) ''test.txt'' None None None\<rparr>)
   \<and> time (the (projr (parse_event ''fs-MDT0000'' sample_rec))) =
       int (unat (rr_time sample_rec) div 2 ^ 30)"
proof -
  have p: "parse_event ''fs-MDT0000'' sample_rec =
     Inr (Some \<lparr>mdt = ''fs-MDT0000'', index = 1, time = 1787882845,
       event = Create (LuFid 0x200000401 0x1a 0) (LuFid 0x200000401 1 0) ''test.txt'' None None None\<rparr>)"
    by (simp add: parse_event_def parse_payload_def parse_jobid_def sample_rec_def)
  then show ?thesis
    using parse_event_outcomes [of "''fs-MDT0000''" sample_rec] by auto
qed

text \<open>
  The packed flags of an HSM record are decoded exactly: error in bits 0 to 6, event
  in bits 7 to 9, flags in bits 10 and 11, whatever the structural bits above are.
\<close>

theorem parse_hsm_bitfields:
  assumes "rr_event_type rec = ET_Hsm"
    and "rr_flags rec = word_of_nat (e + 128 * v + 1024 * f + 4096 * u)"
    and "e < 128" "v < 8" "f < 4"
  shows "parse_event m rec =
    Inr (Some \<lparr>mdt = m, index = rr_index rec, time = int (unat (rr_time rec) div 2 ^ 30),
      event = Hsm (rr_target_fid rec) (word_of_nat v) (word_of_nat f) (word_of_nat e)\<rparr>)"
  using hsm_fields [OF assms(3-5,2)]
  by (simp add: parse_event_def parse_payload_def assms(1) sint_time)

theorem parse_hsm_bitfields_witness:
  "parse_event ''m'' (sample_rec\<lparr>rr_event_type := ET_Hsm, rr_flags := 3 + 128 + 1024 + 4096\<rparr>) =
    Inr (Some \<lparr>mdt = ''m'', index = 1, time = 1787882845,
      event = Hsm (LuFid 0x200000401 0x1a 0) 1 1 3\<rparr>)"
  using parse_hsm_bitfields
    [of "sample_rec\<lparr>rr_event_type := ET_Hsm, rr_flags := 3 + 128 + 1024 + 4096\<rparr>" 3 1 1 1 "''m''"]
  by (simp add: sample_rec_def)

end
