(* ===== verification/Rbh_Dedup.thy ===== *)
theory Rbh_Dedup
  imports Rbh_Event "HOL-Library.AList" "HOL-Library.Multiset"
begin

text \<open>
  Per-identifier deduplication of changelog events and the batcher around it:
  \<open>crates/lustre-changelog/src/dedup.rs\<close> (\<open>Deduplicator\<close>) and
  \<open>crates/lustre-changelog/src/batcher.rs\<close> (\<open>EventBatcher\<close>).

  A \<open>HashMap\<close> of queues is an association list, whose order stands for the
  unspecified iteration order of the map; \<open>drain_order_irrelevant\<close> shows that the order
  does not reach the output. An \<open>Instant\<close> is a number of nanoseconds, the current one an
  argument of the operations that read the clock. The locale \<open>event_buffer\<close> is the contract
  that the listener relies on; it is interpreted on both components.
\<close>

section \<open>Deduplicator\<close>

fun rposition :: "('a \<Rightarrow> bool) \<Rightarrow> 'a list \<Rightarrow> nat option" where
  "rposition P [] = None"
| "rposition P (x # xs) =
     (case rposition P xs of
        Some i \<Rightarrow> Some (Suc i)
      | None \<Rightarrow> if P x then Some 0 else None)"

definition remove_at :: "nat \<Rightarrow> 'a list \<Rightarrow> 'a list" where
  "remove_at i xs = take i xs @ drop (Suc i) xs"

record Deduplicator =
  queues :: "(LuFid \<times> ChangelogEventEnvelope list) list"
  pending :: nat

definition dedup_new :: Deduplicator where
  "dedup_new = \<lparr>queues = [], pending = 0\<rparr>"

definition pending_count :: "Deduplicator \<Rightarrow> nat" where
  "pending_count d = pending d"

fun should_cancel :: "ChangelogEventEnvelope list \<Rightarrow> ChangelogEvent \<Rightarrow> bool" where
  "should_cancel queue (Unlink f p n ll he) =
     (if \<not> ll then False
      else (case rposition (\<lambda>e. is_Create (event e)) queue of
              Some pos \<Rightarrow>
                \<not> (\<exists>e \<in> set (drop (pos + 1) queue). is_Rename (event e) \<or> is_Hardlink (event e))
            | None \<Rightarrow> False))"
| "should_cancel queue (Rmdir f p n) = (\<exists>e \<in> set queue. is_Mkdir (event e))"
| "should_cancel queue _ = False"

fun is_cancel_partner :: "ChangelogEventEnvelope \<Rightarrow> ChangelogEvent \<Rightarrow> bool" where
  "is_cancel_partner existing (Unlink f p n ll he) = is_Create (event existing)"
| "is_cancel_partner existing (Rmdir f p n) = is_Mkdir (event existing)"
| "is_cancel_partner existing _ = False"

definition dominated :: "ChangelogEventEnvelope list \<Rightarrow> string \<Rightarrow> bool" where
  "dominated queue kind = (\<exists>e \<in> set queue. kind_name (event e) = kind)"

fun is_masked :: "ChangelogEventEnvelope list \<Rightarrow> ChangelogEvent \<Rightarrow> bool" where
  "is_masked queue (Close f p n) = dominated queue ''CLOSE''"
| "is_masked queue (Truncate f) = (dominated queue ''TRUNC'' \<or> dominated queue ''CLOSE'')"
| "is_masked queue (MTime f) =
     (dominated queue ''MTIME'' \<or> dominated queue ''CLOSE'' \<or> dominated queue ''TRUNC'')"
| "is_masked queue (CTime f) =
     (dominated queue ''CTIME'' \<or> dominated queue ''SATTR'' \<or> dominated queue ''CLOSE'')"
| "is_masked queue (SetAttr f) = dominated queue ''SATTR''"
| "is_masked queue _ = False"

text \<open>\<open>entry(fid).or_default()\<close>: the queue of an identifier, empty when there is none.\<close>

definition queue_of ::
  "(LuFid \<times> ChangelogEventEnvelope list) list \<Rightarrow> LuFid \<Rightarrow> ChangelogEventEnvelope list" where
  "queue_of qs f = (case map_of qs f of Some q \<Rightarrow> q | None \<Rightarrow> [])"

definition dedup_push ::
  "Deduplicator \<Rightarrow> ChangelogEventEnvelope \<Rightarrow> Deduplicator \<times> bool" where
  "dedup_push d env =
     (let f = fid (event env);
          queue = queue_of (queues d) f;
          qs = AList.update f queue (queues d)
      in if should_cancel queue (event env) then
           (let (queue', n) =
                  (case rposition (\<lambda>e. is_cancel_partner e (event env)) queue of
                     Some pos \<Rightarrow> (remove_at pos queue, pending d - 1)
                   | None \<Rightarrow> (queue, pending d));
                qs' = (if queue' = [] then AList.delete f qs else AList.update f queue' qs)
            in (\<lparr>queues = qs', pending = n\<rparr>, False))
         else if is_masked queue (event env) then (\<lparr>queues = qs, pending = pending d\<rparr>, False)
         else (\<lparr>queues = AList.update f (queue @ [env]) qs, pending = pending d + 1\<rparr>, True))"

definition drain :: "Deduplicator \<Rightarrow> ChangelogEventEnvelope list \<times> Deduplicator" where
  "drain d = (sort_key index (concat (map snd (queues d))), \<lparr>queues = [], pending = 0\<rparr>)"

section \<open>Batcher\<close>

record EventBatch =
  eb_mdt :: string
  events :: "ChangelogEventEnvelope list"
  min_index :: u64
  max_index :: u64

record BatcherConfig =
  flush_interval :: nat
  flush_batch_size :: nat
  pending_soft_cap :: nat

definition batcher_config_default :: BatcherConfig where
  "batcher_config_default =
     \<lparr>flush_interval = 5000000000, flush_batch_size = 10000, pending_soft_cap = 50000\<rparr>"

record EventBatcher =
  ba_mdt :: string
  dedup :: Deduplicator
  ba_cfg :: BatcherConfig
  window_start :: "nat option"

definition batcher_new :: "string \<Rightarrow> BatcherConfig \<Rightarrow> EventBatcher" where
  "batcher_new m c = \<lparr>ba_mdt = m, dedup = dedup_new, ba_cfg = c, window_start = None\<rparr>"

definition should_flush :: "nat \<Rightarrow> EventBatcher \<Rightarrow> bool" where
  "should_flush now b =
     (let n = pending_count (dedup b)
      in if n = 0 then False
         else if n \<ge> flush_batch_size (ba_cfg b) then True
         else if n \<ge> pending_soft_cap (ba_cfg b) then True
         else (case window_start b of
                 Some start \<Rightarrow> now - start \<ge> flush_interval (ba_cfg b)
               | None \<Rightarrow> False))"

definition batcher_push ::
  "nat \<Rightarrow> EventBatcher \<Rightarrow> ChangelogEventEnvelope \<Rightarrow> EventBatcher \<times> bool" where
  "batcher_push now b env =
     (let b1 = b\<lparr>dedup := fst (dedup_push (dedup b) env)\<rparr>;
          b2 = (if window_start b1 = None then b1\<lparr>window_start := Some now\<rparr> else b1)
      in (b2, should_flush now b2))"

definition flush :: "EventBatcher \<Rightarrow> EventBatch option \<times> EventBatcher" where
  "flush b =
     (let (evs, d) = drain (dedup b);
          b' = b\<lparr>dedup := d, window_start := None\<rparr>
      in (if evs = [] then None
          else Some \<lparr>eb_mdt = ba_mdt b, events = evs, min_index = index (hd evs),
                     max_index = index (last evs)\<rparr>, b'))"

definition batcher_is_empty :: "EventBatcher \<Rightarrow> bool" where
  "batcher_is_empty b = (pending_count (dedup b) = 0)"

section \<open>The contract of an event buffer\<close>

text \<open>
  What a client of a buffer of events relies on: the buffer holds a multiset of events;
  a push adds at most the pushed event; a drain hands out the contents in index order
  and leaves nothing behind.
\<close>

locale event_buffer =
  fixes bpush :: "'s \<Rightarrow> ChangelogEventEnvelope \<Rightarrow> 's"
    and bcount :: "'s \<Rightarrow> nat"
    and bdrain :: "'s \<Rightarrow> ChangelogEventEnvelope list \<times> 's"
    and contents :: "'s \<Rightarrow> ChangelogEventEnvelope multiset"
    and inv :: "'s \<Rightarrow> bool"
  assumes inv_push: "inv s \<Longrightarrow> inv (bpush s e)"
    and push_sub: "inv s \<Longrightarrow> contents (bpush s e) \<subseteq># add_mset e (contents s)"
    and count_size: "inv s \<Longrightarrow> bcount s = size (contents s)"
    and drain_mset: "inv s \<Longrightarrow> mset (fst (bdrain s)) = contents s"
    and drain_sorted: "inv s \<Longrightarrow> sorted (map index (fst (bdrain s)))"
    and drain_empty: "inv s \<Longrightarrow> contents (snd (bdrain s)) = {#}"
    and drain_inv: "inv s \<Longrightarrow> inv (snd (bdrain s))"
begin

lemma inv_pushes: "inv s \<Longrightarrow> inv (foldl bpush s es)"
  by (induction es arbitrary: s) (auto intro: inv_push)

lemma pushes_sub: "inv s \<Longrightarrow> contents (foldl bpush s es) \<subseteq># contents s + mset es"
proof (induction es arbitrary: s)
  case (Cons e es)
  then have "contents (foldl bpush (bpush s e) es) \<subseteq># contents (bpush s e) + mset es"
    by (simp add: inv_push)
  also have "\<dots> \<subseteq># add_mset e (contents s) + mset es"
    using push_sub [OF Cons.prems] by (rule subset_mset.add_right_mono)
  finally show ?case by simp
qed simp

lemma drained_after_pushes:
  assumes "inv s" "contents s = {#}"
  shows "mset (fst (bdrain (foldl bpush s es))) \<subseteq># mset es"
    and "bcount (foldl bpush s es) \<le> length es"
    and "length (fst (bdrain (foldl bpush s es))) = bcount (foldl bpush s es)"
proof -
  let ?t = "foldl bpush s es"
  have sub: "contents ?t \<subseteq># mset es" using pushes_sub [OF assms(1), of es] assms(2) by simp
  have t: "inv ?t" by (rule inv_pushes [OF assms(1)])
  show "mset (fst (bdrain ?t)) \<subseteq># mset es" using sub t by (simp add: drain_mset)
  show "bcount ?t \<le> length es"
    using size_mset_mono [OF sub] t by (simp add: count_size)
  show "length (fst (bdrain ?t)) = bcount ?t"
    using t by (simp add: count_size flip: drain_mset)
qed

lemma drain_strict:
  assumes "inv s" "contents s = {#}" "distinct (map index es)"
  shows "sorted_wrt (<) (map index (fst (bdrain (foldl bpush s es))))"
proof -
  let ?out = "fst (bdrain (foldl bpush s es))"
  have "mset (map index ?out) \<subseteq># mset (map index es)"
    using drained_after_pushes(1) [OF assms(1,2), of es] by (simp add: image_mset_subseteq_mono)
  then obtain rest where "mset (map index es) = mset (map index ?out @ rest)"
    by (metis mset_append mset_subset_eq_exists_conv ex_mset)
  with assms(3) have "distinct (map index ?out)"
    by (metis distinct_append mset_eq_imp_distinct_iff)
  with drain_sorted [OF inv_pushes [OF assms(1)], of es] show ?thesis
    by (simp add: strict_sorted_iff)
qed

lemma drain_twice: "inv s \<Longrightarrow> fst (bdrain (snd (bdrain s))) = []"
  using drain_mset [OF drain_inv, of s] by (simp add: drain_empty)

end

section \<open>Lemmas on the deduplicator\<close>

definition qmset ::
  "(LuFid \<times> ChangelogEventEnvelope list) list \<Rightarrow> ChangelogEventEnvelope multiset" where
  "qmset qs = mset (concat (map snd qs))"

definition queues_ok :: "(LuFid \<times> ChangelogEventEnvelope list) list \<Rightarrow> bool" where
  "queues_ok qs =
     (\<forall>f q. (f, q) \<in> set qs \<longrightarrow> q \<noteq> [] \<and> (\<forall>e \<in> set q. fid (event e) = f))"

definition dedup_inv :: "Deduplicator \<Rightarrow> bool" where
  "dedup_inv d =
     (distinct (map fst (queues d)) \<and>
      queues_ok (queues d) \<and>
      pending d = size (qmset (queues d)))"

lemma rposition_None: "rposition P xs = None \<longleftrightarrow> (\<forall>x \<in> set xs. \<not> P x)"
  by (induction xs) (auto split: option.splits)

lemma rposition_Some:
  "rposition P xs = Some i \<Longrightarrow>
     \<exists>ys x zs. xs = ys @ x # zs \<and> length ys = i \<and> P x \<and> (\<forall>z \<in> set zs. \<not> P z)"
proof (induction xs arbitrary: i)
  case (Cons x xs)
  show ?case
  proof (cases "rposition P xs")
    case None
    with Cons.prems show ?thesis
      by (intro exI [of _ "[]"] exI [of _ x] exI [of _ xs])
        (auto simp: rposition_None split: if_splits)
  next
    case (Some j)
    with Cons obtain ys y zs where "xs = ys @ y # zs" "length ys = j" "P y" "\<forall>z \<in> set zs. \<not> P z"
      by blast
    with Some Cons.prems show ?thesis
      by (intro exI [of _ "x # ys"] exI [of _ y] exI [of _ zs]) auto
  qed
qed simp

lemma rposition_append:
  "P x \<Longrightarrow> \<forall>z \<in> set zs. \<not> P z \<Longrightarrow> rposition P (ys @ x # zs) = Some (length ys)"
  by (induction ys) (auto simp: rposition_None [THEN iffD2])

lemma remove_at_append [simp]: "remove_at (length ys) (ys @ x # zs) = ys @ zs"
  by (simp add: remove_at_def)

lemma should_cancel_partner:
  assumes "should_cancel q ev"
  obtains ys c zs where "q = ys @ c # zs" "is_cancel_partner c ev"
    "rposition (\<lambda>e. is_cancel_partner e ev) q = Some (length ys)"
    "\<forall>z \<in> set zs. \<not> is_cancel_partner z ev"
proof -
  have "rposition (\<lambda>e. is_cancel_partner e ev) q \<noteq> None"
    using assms by (cases "(q, ev)" rule: should_cancel.cases)
      (auto simp: rposition_None split: option.splits dest!: rposition_Some)
  then obtain i where i: "rposition (\<lambda>e. is_cancel_partner e ev) q = Some i" by blast
  from rposition_Some [OF i] that i show ?thesis by blast
qed

lemma queue_of_update [simp]:
  "queue_of (AList.update f q qs) g = (if g = f then q else queue_of qs g)"
  by (simp add: queue_of_def update_conv')

lemma queue_of_delete [simp]:
  "queue_of (AList.delete f qs) g = (if g = f then [] else queue_of qs g)"
  by (simp add: queue_of_def delete_conv')

lemma qmset_update:
  "distinct (map fst qs) \<Longrightarrow>
     qmset (AList.update f q qs) + mset (queue_of qs f) = qmset qs + mset q"
  by (induction qs) (auto simp: qmset_def queue_of_def map_of_eq_None_iff split: option.splits)

lemma qmset_delete:
  "distinct (map fst qs) \<Longrightarrow> qmset (AList.delete f qs) + mset (queue_of qs f) = qmset qs"
proof (induction qs)
  case (Cons a qs)
  obtain g q where a: "a = (g, q)" by (cases a)
  show ?case
  proof (cases "g = f")
    case True
    with Cons.prems a have "f \<notin> fst ` set qs" by simp
    then have "AList.delete f qs = qs" by (simp add: image_iff)
    with True a show ?thesis by (simp add: qmset_def queue_of_def)
  next
    case False
    with Cons a show ?thesis by (simp add: qmset_def queue_of_def)
  qed
qed (simp add: qmset_def queue_of_def)

lemma queue_of_in:
  "q \<noteq> [] \<Longrightarrow> queue_of qs f = q \<Longrightarrow> (f, q) \<in> set qs"
  by (auto simp: queue_of_def dest: map_of_SomeD split: option.splits)

lemma queue_of_fids: "dedup_inv d \<Longrightarrow> e \<in> set (queue_of (queues d) f) \<Longrightarrow> fid (event e) = f"
  using queue_of_in [of "queue_of (queues d) f" "queues d" f]
  by (cases "queue_of (queues d) f = []") (auto simp: dedup_inv_def queues_ok_def)

lemma set_delete: "x \<in> set (AList.delete f qs) \<longleftrightarrow> x \<in> set qs \<and> fst x \<noteq> f"
  by (auto simp: AList.delete_eq)

lemma set_update:
  "distinct (map fst qs) \<Longrightarrow>
     x \<in> set (AList.update f q qs) \<longleftrightarrow> x = (f, q) \<or> (x \<in> set qs \<and> fst x \<noteq> f)"
  by (induction qs) auto

lemma update_shape:
  assumes "distinct (map fst qs)"
    and "queues_ok qs"
    and "q' \<noteq> []" "\<forall>e \<in> set q'. fid (event e) = f"
  shows "distinct (map fst (AList.update f q' qs)) \<and> queues_ok (AList.update f q' qs)"
  using assms by (auto simp: set_update distinct_update queues_ok_def)

lemma delete_shape:
  assumes "distinct (map fst qs)"
    and "queues_ok qs"
  shows "distinct (map fst (AList.delete f qs)) \<and> queues_ok (AList.delete f qs)"
  using assms by (auto simp: set_delete distinct_delete queues_ok_def)

text \<open>The three outcomes of a push: a pair cancels, the event is masked, or it is queued.\<close>

lemma update_queue_of: "queue_of qs f \<noteq> [] \<Longrightarrow> AList.update f (queue_of qs f) qs = qs"
  by (auto simp: queue_of_def update_triv split: option.splits)

lemma push_masked:
  assumes "\<not> should_cancel (queue_of (queues d) (fid (event env))) (event env)"
    and "is_masked (queue_of (queues d) (fid (event env))) (event env)"
  shows "dedup_push d env = (d, False)"
proof -
  have "queue_of (queues d) (fid (event env)) \<noteq> []"
    using assms(2) by (cases "(queue_of (queues d) (fid (event env)), event env)" rule: is_masked.cases)
      (auto simp: dominated_def)
  with assms show ?thesis by (simp add: dedup_push_def update_queue_of)
qed

lemma push_append:
  assumes "\<not> should_cancel (queue_of (queues d) (fid (event env))) (event env)"
    and "\<not> is_masked (queue_of (queues d) (fid (event env))) (event env)"
    and inv: "dedup_inv d"
  obtains d' where "dedup_push d env = (d', True)" "dedup_inv d'"
    "qmset (queues d') = add_mset env (qmset (queues d))"
    "\<And>g. queue_of (queues d') g =
       (if g = fid (event env) then queue_of (queues d) g @ [env] else queue_of (queues d) g)"
proof -
  let ?f = "fid (event env)" let ?q = "queue_of (queues d) ?f"
  let ?d' = "\<lparr>queues = AList.update ?f (?q @ [env]) (queues d), pending = pending d + 1\<rparr>"
  have p: "dedup_push d env = (?d', True)"
    using assms(1,2) by (simp add: dedup_push_def Let_def)
  have "qmset (queues ?d') + mset ?q = add_mset env (qmset (queues d)) + mset ?q"
    using inv qmset_update [of "queues d" ?f "?q @ [env]"] by (simp add: dedup_inv_def)
  then have m: "qmset (queues ?d') = add_mset env (qmset (queues d))" by (rule add_right_imp_eq)
  have "\<forall>e \<in> set (?q @ [env]). fid (event e) = ?f"
    by (auto intro: queue_of_fids [OF inv])
  from update_shape [OF _ _ _ this, of "queues d"] inv
  have "distinct (map fst (queues ?d')) \<and> queues_ok (queues ?d')"
    by (simp add: dedup_inv_def)
  with inv m have "dedup_inv ?d'" by (simp add: dedup_inv_def)
  with p show thesis using m by (rule that) simp
qed

lemma push_cancel:
  assumes "should_cancel (queue_of (queues d) (fid (event env))) (event env)"
    and inv: "dedup_inv d"
  obtains d' ys c zs where "dedup_push d env = (d', False)" "dedup_inv d'"
    "queue_of (queues d) (fid (event env)) = ys @ c # zs"
    "is_cancel_partner c (event env)" "\<forall>z \<in> set zs. \<not> is_cancel_partner z (event env)"
    "qmset (queues d) = add_mset c (qmset (queues d'))"
    "\<And>g. queue_of (queues d') g =
       (if g = fid (event env) then ys @ zs else queue_of (queues d) g)"
proof -
  let ?f = "fid (event env)" let ?q = "queue_of (queues d) ?f"
  obtain ys c zs where q: "?q = ys @ c # zs" "is_cancel_partner c (event env)"
      "rposition (\<lambda>e. is_cancel_partner e (event env)) ?q = Some (length ys)"
      "\<forall>z \<in> set zs. \<not> is_cancel_partner z (event env)"
    using assms(1) by (rule should_cancel_partner)
  let ?qs = "if ys @ zs = [] then AList.delete ?f (queues d) else AList.update ?f (ys @ zs) (queues d)"
  let ?d' = "\<lparr>queues = ?qs, pending = pending d - 1\<rparr>"
  have "AList.update ?f ?q (queues d) = queues d"
    using q(1) by (intro update_queue_of) simp
  then have p: "dedup_push d env = (?d', False)"
    using assms(1) q(1,3) unfolding dedup_push_def Let_def
    by (simp add: delete_update_same)
  have dist: "distinct (map fst (queues d))" using inv by (simp add: dedup_inv_def)
  have "add_mset c (qmset ?qs) + mset (ys @ zs) = qmset (queues d) + mset (ys @ zs)"
    using qmset_delete [OF dist, of ?f] qmset_update [OF dist, of ?f "ys @ zs"] q(1) by auto
  then have m: "qmset (queues d) = add_mset c (qmset ?qs)" by simp
  have "\<forall>e \<in> set (ys @ zs). fid (event e) = ?f"
    using queue_of_fids [OF inv, of _ ?f] q(1) by auto
  then have "distinct (map fst ?qs) \<and> queues_ok ?qs"
    using inv update_shape [OF dist, of "ys @ zs" ?f] delete_shape [OF dist, of ?f]
    by (auto simp: dedup_inv_def)
  with m inv have "dedup_inv ?d'" by (simp add: dedup_inv_def)
  with p show thesis using q(1,2,4) by (rule that) (use m in auto)
qed

lemma dedup_inv_new: "dedup_inv dedup_new"
  by (simp add: dedup_inv_def dedup_new_def queues_ok_def qmset_def)

lemma dedup_push_inv: "dedup_inv d \<Longrightarrow> dedup_inv (fst (dedup_push d env))"
  by (metis fst_conv push_append push_cancel push_masked)

lemma dedup_push_sub:
  "dedup_inv d \<Longrightarrow> qmset (queues (fst (dedup_push d env))) \<subseteq># add_mset env (qmset (queues d))"
  by (cases "should_cancel (queue_of (queues d) (fid (event env))) (event env)";
      cases "is_masked (queue_of (queues d) (fid (event env))) (event env)")
    (auto elim!: push_append push_cancel simp: push_masked)

lemma drain_facts:
  "mset (fst (drain d)) = qmset (queues d)" "sorted (map index (fst (drain d)))"
  "qmset (queues (snd (drain d))) = {#}" "dedup_inv (snd (drain d))"
  by (simp_all add: drain_def qmset_def dedup_inv_def queues_ok_def)

interpretation dd: event_buffer "\<lambda>d e. fst (dedup_push d e)" pending_count drain
    "\<lambda>d. qmset (queues d)" dedup_inv
  by unfold_locales
    (simp_all add: dedup_push_inv dedup_push_sub drain_facts, simp add: dedup_inv_def pending_count_def)

section \<open>What deduplication keeps\<close>

definition maskable :: "ChangelogEvent \<Rightarrow> bool" where
  "maskable ev = (is_Close ev \<or> is_Truncate ev \<or> is_MTime ev \<or> is_CTime ev \<or> is_SetAttr ev)"

text \<open>The kinds that make a further signal about the same identifier redundant.\<close>

fun dominators :: "ChangelogEvent \<Rightarrow> string set" where
  "dominators (Close _ _ _) = {''CLOSE''}"
| "dominators (Truncate _) = {''TRUNC'', ''CLOSE''}"
| "dominators (MTime _) = {''MTIME'', ''CLOSE'', ''TRUNC''}"
| "dominators (CTime _) = {''CTIME'', ''SATTR'', ''CLOSE''}"
| "dominators (SetAttr _) = {''SATTR''}"
| "dominators _ = {}"

definition is_last_unlink :: "ChangelogEvent \<Rightarrow> bool" where
  "is_last_unlink ev = (is_Unlink ev \<and> last_link ev)"

definition cancels :: "ChangelogEvent \<Rightarrow> ChangelogEvent \<Rightarrow> bool" where
  "cancels c ev = (fid c = fid ev \<and>
     (is_Create c \<and> is_last_unlink ev \<or> is_Mkdir c \<and> is_Rmdir ev))"

text \<open>
  \<open>blocks z ev\<close>: an event that, queued after the partner of \<open>ev\<close>, keeps the pair from
  cancelling (a rename or a new link), or is itself a more recent partner.
\<close>

definition blocks :: "ChangelogEvent \<Rightarrow> ChangelogEvent \<Rightarrow> bool" where
  "blocks z ev =
     (if is_Rmdir ev then is_Mkdir z
      else is_Create z \<or> is_Rename z \<or> is_Hardlink z)"

definition cancellable :: "ChangelogEventEnvelope list \<Rightarrow> ChangelogEvent \<Rightarrow> bool" where
  "cancellable q ev =
     (\<exists>ys c zs. q = ys @ c # zs \<and> cancels (event c) ev \<and> (\<forall>z \<in> set zs. \<not> blocks (event z) ev))"

text \<open>The contract of a push, on the queues as a function of the identifier.\<close>

inductive abs_push ::
  "(LuFid \<Rightarrow> ChangelogEventEnvelope list) \<Rightarrow> ChangelogEventEnvelope \<Rightarrow>
   (LuFid \<Rightarrow> ChangelogEventEnvelope list) \<Rightarrow> bool \<Rightarrow> bool"
  for Q :: "LuFid \<Rightarrow> ChangelogEventEnvelope list" and e :: ChangelogEventEnvelope where
  cancel: "Q (fid (event e)) = ys @ c # zs \<Longrightarrow> cancels (event c) (event e) \<Longrightarrow>
    \<forall>z \<in> set zs. \<not> blocks (event z) (event e) \<Longrightarrow>
    abs_push Q e (Q(fid (event e) := ys @ zs)) False"
| mask: "\<not> cancellable (Q (fid (event e))) (event e) \<Longrightarrow>
    \<exists>x \<in> set (Q (fid (event e))). kind_name (event x) \<in> dominators (event e) \<Longrightarrow>
    abs_push Q e Q False"
| enqueue: "\<not> cancellable (Q (fid (event e))) (event e) \<Longrightarrow>
    \<not> (\<exists>x \<in> set (Q (fid (event e))). kind_name (event x) \<in> dominators (event e)) \<Longrightarrow>
    abs_push Q e (Q(fid (event e) := Q (fid (event e)) @ [e])) True"

lemma is_masked_iff: "is_masked q ev \<longleftrightarrow> (\<exists>x \<in> set q. kind_name (event x) \<in> dominators ev)"
  by (cases "(q, ev)" rule: is_masked.cases) (auto simp: dominated_def)

lemma dominators_maskable: "dominators ev \<noteq> {} \<longleftrightarrow> maskable ev"
  by (cases ev) (auto simp: maskable_def)

lemma kind_is:
  "kind_name ev = ''CLOSE'' \<longleftrightarrow> is_Close ev" "kind_name ev = ''TRUNC'' \<longleftrightarrow> is_Truncate ev"
  "kind_name ev = ''MTIME'' \<longleftrightarrow> is_MTime ev" "kind_name ev = ''CTIME'' \<longleftrightarrow> is_CTime ev"
  "kind_name ev = ''SATTR'' \<longleftrightarrow> is_SetAttr ev"
  by (cases ev; simp)+

lemma dominator_maskable: "kind_name x \<in> dominators ev \<Longrightarrow> maskable x"
  by (cases ev) (auto simp: kind_is maskable_def)

lemma should_cancelD:
  assumes "should_cancel q ev" "\<forall>x \<in> set q. fid (event x) = fid ev"
    and q: "q = ys @ c # zs" "is_cancel_partner c ev" "\<forall>z \<in> set zs. \<not> is_cancel_partner z ev"
  shows "cancels (event c) ev \<and> (\<forall>z \<in> set zs. \<not> blocks (event z) ev)"
proof (cases ev)
  case (Unlink f p n ll he)
  have "rposition (\<lambda>e. is_Create (event e)) (ys @ c # zs) = Some (length ys)"
    using q Unlink by (intro rposition_append) auto
  with Unlink assms show ?thesis
    by (auto simp: cancels_def blocks_def is_last_unlink_def split: if_splits)
next
  case (Rmdir f p n)
  with assms show ?thesis by (auto simp: cancels_def blocks_def)
qed (use assms in simp_all)

lemma should_cancel_cancellable:
  assumes "\<forall>x \<in> set q. fid (event x) = fid ev"
  shows "should_cancel q ev \<longleftrightarrow> cancellable q ev"
proof
  assume s: "should_cancel q ev"
  then show "cancellable q ev"
    by (rule should_cancel_partner) (use should_cancelD [OF s assms] in \<open>unfold cancellable_def, blast\<close>)
next
  assume "cancellable q ev"
  then obtain ys c zs where q: "q = ys @ c # zs" and c: "cancels (event c) ev"
    and z: "\<forall>z \<in> set zs. \<not> blocks (event z) ev"
    unfolding cancellable_def by blast
  show "should_cancel q ev"
  proof (cases ev)
    case (Unlink f p n ll he)
    have "rposition (\<lambda>e. is_Create (event e)) q = Some (length ys)"
      unfolding q using c z Unlink by (intro rposition_append) (auto simp: cancels_def blocks_def)
    with c z Unlink show ?thesis
      by (auto simp: q cancels_def blocks_def is_last_unlink_def)
  qed (use c in \<open>auto simp: q cancels_def is_last_unlink_def\<close>)
qed

lemma queue_fids: "dedup_inv d \<Longrightarrow> \<forall>x \<in> set (queue_of (queues d) f). fid (event x) = f"
  using queue_of_fids by blast

lemma dedup_push_abs:
  assumes "dedup_inv d"
  shows "abs_push (queue_of (queues d)) env (queue_of (queues (fst (dedup_push d env))))
    (snd (dedup_push d env))"
proof -
  let ?f = "fid (event env)" let ?Q = "queue_of (queues d)"
  note iff = should_cancel_cancellable [OF queue_fids [OF assms, of ?f]]
  consider "should_cancel (?Q ?f) (event env)"
    | "\<not> should_cancel (?Q ?f) (event env)" "is_masked (?Q ?f) (event env)"
    | "\<not> should_cancel (?Q ?f) (event env)" "\<not> is_masked (?Q ?f) (event env)" by blast
  then show ?thesis
  proof cases
    case 1
    from this assms show ?thesis
    proof (rule push_cancel)
      fix d' ys c zs
      assume r: "dedup_push d env = (d', False)" "?Q ?f = ys @ c # zs"
        "is_cancel_partner c (event env)" "\<forall>z \<in> set zs. \<not> is_cancel_partner z (event env)"
        "\<And>g. queue_of (queues d') g = (if g = ?f then ys @ zs else ?Q g)"
      then have "queue_of (queues d') = ?Q(?f := ys @ zs)" by auto
      with r should_cancelD [OF 1 queue_fids [OF assms] r(2-4)] show ?thesis
        by (simp add: abs_push.cancel)
    qed
  next
    case 2
    then show ?thesis by (simp add: push_masked iff is_masked_iff abs_push.mask)
  next
    case 3
    from this assms show ?thesis
    proof (rule push_append)
      fix d'
      assume r: "dedup_push d env = (d', True)"
        "\<And>g. queue_of (queues d') g = (if g = ?f then ?Q g @ [env] else ?Q g)"
      then have "queue_of (queues d') = ?Q(?f := ?Q ?f @ [env])" by auto
      with r(1) 3 iff show ?thesis by (simp add: is_masked_iff abs_push.enqueue)
    qed
  qed
qed

lemma push_weight:
  fixes w :: "ChangelogEventEnvelope \<Rightarrow> int"
  assumes inv: "dedup_inv d"
    and mask: "\<And>e. maskable (event e) \<Longrightarrow> w e = 0"
    and pair: "\<And>c e. cancels (event c) (event e) \<Longrightarrow> w c + w e = 0"
  shows "(\<Sum>e \<in># qmset (queues (fst (dedup_push d env))). w e) =
    (\<Sum>e \<in># qmset (queues d). w e) + w env"
proof -
  let ?q = "queue_of (queues d) (fid (event env))"
  consider "should_cancel ?q (event env)"
    | "\<not> should_cancel ?q (event env)" "is_masked ?q (event env)"
    | "\<not> should_cancel ?q (event env)" "\<not> is_masked ?q (event env)" by blast
  then show ?thesis
  proof cases
    case 1
    from this inv show ?thesis
    proof (rule push_cancel)
      fix d' ys c zs
      assume r: "dedup_push d env = (d', False)" "?q = ys @ c # zs"
        "is_cancel_partner c (event env)" "\<forall>z \<in> set zs. \<not> is_cancel_partner z (event env)"
        "qmset (queues d) = add_mset c (qmset (queues d'))"
      then have "w c + w env = 0"
        using should_cancelD [OF 1 queue_fids [OF inv] r(2-4)] by (intro pair) simp
      with r(1,5) show ?thesis by simp
    qed
  next
    case 2
    then have "maskable (event env)"
      unfolding is_masked_iff using dominators_maskable by blast
    with 2 show ?thesis by (simp add: push_masked mask)
  next
    case 3
    from this inv show ?thesis by (rule push_append) simp
  qed
qed

lemma pushes_weight:
  fixes w :: "ChangelogEventEnvelope \<Rightarrow> int"
  assumes "dedup_inv d"
    and "\<And>e. maskable (event e) \<Longrightarrow> w e = 0"
    and "\<And>c e. cancels (event c) (event e) \<Longrightarrow> w c + w e = 0"
  shows "(\<Sum>e \<in># qmset (queues (foldl (\<lambda>d e. fst (dedup_push d e)) d es)). w e) =
    (\<Sum>e \<in># qmset (queues d). w e) + (\<Sum>e \<leftarrow> es. w e)"
  using assms(1)
proof (induction es arbitrary: d)
  case (Cons e es)
  from push_weight [where d = d and w = w and env = e] Cons.prems assms(2,3)
  have "(\<Sum>x \<in># qmset (queues (fst (dedup_push d e))). w x) = (\<Sum>x \<in># qmset (queues d). w x) + w e"
    by blast
  with Cons show ?case by (simp add: dedup_push_inv)
qed simp

lemma push_keeps_maskable:
  assumes inv: "dedup_inv d" and x: "x \<in># qmset (queues d)" "maskable (event x)"
  shows "x \<in># qmset (queues (fst (dedup_push d env)))"
proof -
  let ?q = "queue_of (queues d) (fid (event env))"
  have np: "\<not> is_cancel_partner x (event env)"
    using x(2) by (cases "(x, event env)" rule: is_cancel_partner.cases)
      (auto simp: maskable_def ChangelogEvent.discI split: ChangelogEvent.splits)
  consider "should_cancel ?q (event env)"
    | "\<not> should_cancel ?q (event env)" "is_masked ?q (event env)"
    | "\<not> should_cancel ?q (event env)" "\<not> is_masked ?q (event env)" by blast
  then show ?thesis
  proof cases
    case 1
    from this inv show ?thesis by (rule push_cancel) (use x np in auto)
  next
    case 2
    with x show ?thesis by (simp add: push_masked)
  next
    case 3
    from this inv show ?thesis by (rule push_append) (use x in simp)
  qed
qed

lemma pushes_keep_maskable:
  "dedup_inv d \<Longrightarrow> x \<in># qmset (queues d) \<Longrightarrow> maskable (event x) \<Longrightarrow>
     x \<in># qmset (queues (foldl (\<lambda>d e. fst (dedup_push d e)) d es))"
  by (induction es arbitrary: d) (auto intro: push_keeps_maskable dedup_push_inv)

lemma queue_of_qmset: "x \<in> set (queue_of qs f) \<Longrightarrow> x \<in># qmset qs"
  by (cases "map_of qs f") (force simp: queue_of_def qmset_def dest: map_of_SomeD)+

lemma push_signal:
  assumes inv: "dedup_inv d" and m: "maskable (event env)"
  shows "\<exists>x \<in># qmset (queues (fst (dedup_push d env))).
    fid (event x) = fid (event env) \<and> kind_name (event x) \<in> dominators (event env)"
proof -
  let ?q = "queue_of (queues d) (fid (event env))"
  have nc: "\<not> should_cancel ?q (event env)" using m by (cases "event env") (auto simp: maskable_def)
  show ?thesis
  proof (cases "is_masked ?q (event env)")
    case True
    with nc inv show ?thesis
      by (auto simp: push_masked is_masked_iff dest: queue_of_fids queue_of_qmset)
  next
    case False
    have "kind_name (event env) \<in> dominators (event env)"
      using m by (cases "event env") (auto simp: maskable_def)
    with nc False inv show ?thesis by (rule_tac push_append) auto
  qed
qed

text \<open>The batcher, driven by a clock that gives the time of each push, is a buffer too.\<close>

definition batch_events :: "EventBatch option \<Rightarrow> ChangelogEventEnvelope list" where
  "batch_events b = (case b of None \<Rightarrow> [] | Some batch \<Rightarrow> events batch)"

definition clocked_push ::
  "(nat \<Rightarrow> nat) \<Rightarrow> EventBatcher \<times> nat \<Rightarrow> ChangelogEventEnvelope \<Rightarrow> EventBatcher \<times> nat" where
  "clocked_push clock = (\<lambda>(b, i) e. (fst (batcher_push (clock i) b e), Suc i))"

definition clocked_flush ::
  "EventBatcher \<times> nat \<Rightarrow> ChangelogEventEnvelope list \<times> (EventBatcher \<times> nat)" where
  "clocked_flush = (\<lambda>(b, i). (batch_events (fst (flush b)), (snd (flush b), i)))"

lemma dedup_batcher_push: "dedup (fst (batcher_push now b e)) = fst (dedup_push (dedup b) e)"
  by (simp add: batcher_push_def Let_def)

lemma batch_events_flush: "batch_events (fst (flush b)) = fst (drain (dedup b))"
  by (auto simp: flush_def batch_events_def split: prod.splits)

lemma dedup_flush: "dedup (snd (flush b)) = snd (drain (dedup b))"
  by (auto simp: flush_def split: prod.splits)

interpretation ba: event_buffer "clocked_push clock" "\<lambda>(b, i). pending_count (dedup b)" clocked_flush
    "\<lambda>(b, i). qmset (queues (dedup b))" "\<lambda>(b, i). dedup_inv (dedup b)"
  for clock
  by unfold_locales
    (auto simp: clocked_push_def clocked_flush_def dedup_batcher_push batch_events_flush dedup_flush
      dedup_push_inv dedup_push_sub drain_facts dd.count_size)

definition run_dedup :: "ChangelogEventEnvelope list \<Rightarrow> ChangelogEventEnvelope list" where
  "run_dedup es = fst (drain (foldl (\<lambda>d e. fst (dedup_push d e)) dedup_new es))"

lemma qmset_new [simp]: "qmset (queues dedup_new) = {#}"
  by (simp add: dedup_new_def qmset_def)

lemma run_dedup_mset:
  "mset (run_dedup es) = qmset (queues (foldl (\<lambda>d e. fst (dedup_push d e)) dedup_new es))"
  by (simp add: run_dedup_def drain_facts)

lemma run_dedup_facts:
  "sorted (map index (run_dedup es))" "mset (run_dedup es) \<subseteq># mset es"
  "length (run_dedup es) = pending_count (foldl (\<lambda>d e. fst (dedup_push d e)) dedup_new es)"
  unfolding run_dedup_def
  by (rule dd.drain_sorted [OF dd.inv_pushes [OF dedup_inv_new]],
      rule dd.drained_after_pushes(1) [OF dedup_inv_new qmset_new],
      rule dd.drained_after_pushes(3) [OF dedup_inv_new qmset_new])

lemma run_dedup_weight:
  fixes w :: "ChangelogEventEnvelope \<Rightarrow> int"
  assumes "\<And>e. maskable (event e) \<Longrightarrow> w e = 0"
    and "\<And>c e. cancels (event c) (event e) \<Longrightarrow> w c + w e = 0"
  shows "(\<Sum>e \<leftarrow> run_dedup es. w e) = (\<Sum>e \<leftarrow> es. w e)"
proof -
  have "(\<Sum>e \<in># mset (run_dedup es). w e) = (\<Sum>e \<leftarrow> es. w e)"
    using pushes_weight [where d = dedup_new and w = w and es = es] assms dedup_inv_new
    by (simp add: run_dedup_mset)
  then show ?thesis by (simp flip: sum_mset_sum_list)
qed

text \<open>Events that no rule may drop: not a data-change signal and not half of a pair.\<close>

definition durable :: "ChangelogEvent \<Rightarrow> bool" where
  "durable ev = (\<not> maskable ev \<and> \<not> is_Create ev \<and> \<not> is_Mkdir ev \<and> \<not> is_Rmdir ev \<and>
     \<not> is_last_unlink ev)"

definition net_created :: "LuFid \<Rightarrow> ChangelogEventEnvelope \<Rightarrow> int" where
  "net_created f e =
     (if fid (event e) \<noteq> f then 0
      else if is_Create (event e) then 1 else if is_last_unlink (event e) then - 1 else 0)"

definition net_mkdir :: "LuFid \<Rightarrow> ChangelogEventEnvelope \<Rightarrow> int" where
  "net_mkdir f e =
     (if fid (event e) \<noteq> f then 0
      else if is_Mkdir (event e) then 1 else if is_Rmdir (event e) then - 1 else 0)"

lemma maskable_not:
  "maskable ev \<Longrightarrow> \<not> is_Create ev \<and> \<not> is_Mkdir ev \<and> \<not> is_Rmdir ev \<and> \<not> is_last_unlink ev"
  by (cases ev) (auto simp: maskable_def is_last_unlink_def)

lemma sort_key_unique:
  assumes "mset xs = mset ys" "distinct (map index xs)"
  shows "sort_key index xs = sort_key index ys"
proof (rule sort_key_eq_sort_key)
  show "mset xs = mset ys" by (rule assms)
  show "inj_on index (set xs)" using assms(2) by (simp add: distinct_map)
qed

text \<open>When indices are distinct, the iteration order of the map does not reach the output.\<close>

lemma drain_order_irrelevant:
  assumes "mset (queues d) = mset (queues d')" "distinct (map index (concat (map snd (queues d))))"
  shows "fst (drain d) = fst (drain d')"
proof -
  have "mset (concat (map snd (queues d))) = mset (concat (map snd (queues d')))"
    using arg_cong [OF assms(1), of "\<lambda>M. sum_mset (image_mset (mset \<circ> snd) M)"]
    by (simp add: mset_concat sum_mset_sum_list flip: mset_map)
  with assms(2) show ?thesis by (simp add: drain_def sort_key_unique)
qed

definition sample_create :: ChangelogEventEnvelope where
  "sample_create = \<lparr>mdt = ''m'', index = 4, time = 0, event = Create (LuFid 1 2 0) ZERO ''a'' None None None\<rparr>"

definition sample_stream :: "ChangelogEventEnvelope list" where
  "sample_stream =
     [sample_create, sample_create\<lparr>index := 5, event := Close (LuFid 1 2 0) ZERO ''a''\<rparr>,
      sample_create\<lparr>index := 6, event := MTime (LuFid 1 2 0)\<rparr>,
      sample_create\<lparr>index := 7, event := Unlink (LuFid 1 2 0) ZERO ''a'' True False\<rparr>]"

section \<open>Properties\<close>

text \<open>
  C11: a push implements its contract on the queues: it removes the most recent
  \<open>Create\<close> (\<open>Mkdir\<close>) for a last unlink (rmdir) when nothing blocks the pair, drops a
  data-change signal that a queued event dominates, and otherwise appends the event;
  it keeps the invariant that no queue is empty, every event is in the queue of its
  identifier and the counter is the number of queued events.
\<close>

theorem dedup_push_refines:
  assumes "dedup_inv d"
  shows "abs_push (queue_of (queues d)) env (queue_of (queues (fst (dedup_push d env))))
      (snd (dedup_push d env)) \<and> dedup_inv (fst (dedup_push d env))"
  using assms by (simp add: dedup_push_abs dedup_push_inv)

theorem dedup_push_refines_witness:
  "abs_push (queue_of (queues dedup_new)) sample_create
     (queue_of (queues (fst (dedup_push dedup_new sample_create)))) (snd (dedup_push dedup_new sample_create))
   \<and> snd (dedup_push dedup_new sample_create)"
  using dedup_push_refines [OF dedup_inv_new, of sample_create]
  by (simp add: dedup_push_def dedup_new_def queue_of_def sample_create_def)

text \<open>
  Over any stream of events, what the deduplicator hands out is sorted by index,
  is a part of what was pushed and is counted by its counter; draining leaves nothing.
\<close>

theorem run_dedup_output:
  "sorted (map index (run_dedup es)) \<and> mset (run_dedup es) \<subseteq># mset es \<and>
   length (run_dedup es) = pending_count (foldl (\<lambda>d e. fst (dedup_push d e)) dedup_new es) \<and>
   fst (drain (snd (drain d))) = [] \<and> pending_count (snd (drain d)) = 0"
  by (simp add: run_dedup_facts, simp add: drain_def pending_count_def)

text \<open>
  C2: nothing structural is lost. Every event that is neither a data-change signal nor
  half of a create/unlink or mkdir/rmdir pair comes out as often as it went in, and for
  every identifier the creates minus the last unlinks, and the mkdirs minus the rmdirs,
  are the same in the output as in the input.
\<close>

theorem run_dedup_conservation:
  "filter_mset (\<lambda>e. durable (event e)) (mset (run_dedup es)) =
     filter_mset (\<lambda>e. durable (event e)) (mset es) \<and>
   (\<Sum>e \<leftarrow> run_dedup es. net_created f e) = (\<Sum>e \<leftarrow> es. net_created f e) \<and>
   (\<Sum>e \<leftarrow> run_dedup es. net_mkdir f e) = (\<Sum>e \<leftarrow> es. net_mkdir f e)"
proof (intro conjI multiset_eqI)
  fix x :: ChangelogEventEnvelope
  let ?w = "\<lambda>e :: ChangelogEventEnvelope. if e = x \<and> durable (event e) then 1 else 0 :: int"
  have cnt: "(\<Sum>e \<leftarrow> xs. ?w e) = int (count (filter_mset (\<lambda>e. durable (event e)) (mset xs)) x)" for xs
    by (induction xs) auto
  have "(\<Sum>e \<leftarrow> run_dedup es. ?w e) = (\<Sum>e \<leftarrow> es. ?w e)"
    by (rule run_dedup_weight) (auto simp: durable_def cancels_def)
  then show "count (filter_mset (\<lambda>e. durable (event e)) (mset (run_dedup es))) x =
      count (filter_mset (\<lambda>e. durable (event e)) (mset es)) x"
    unfolding cnt by simp
next
  show "(\<Sum>e \<leftarrow> run_dedup es. net_created f e) = (\<Sum>e \<leftarrow> es. net_created f e)"
    by (rule run_dedup_weight)
      (auto simp: net_created_def cancels_def is_last_unlink_def dest: maskable_not
        split: ChangelogEvent.splits)
next
  show "(\<Sum>e \<leftarrow> run_dedup es. net_mkdir f e) = (\<Sum>e \<leftarrow> es. net_mkdir f e)"
    by (rule run_dedup_weight)
      (auto simp: net_mkdir_def cancels_def is_last_unlink_def dest: maskable_not
        split: ChangelogEvent.splits)
qed

text \<open>
  C16: no data-change signal is lost: for every close, truncate, time or attribute event
  pushed, the output holds an event about the same identifier of a kind that covers it.
\<close>

theorem run_dedup_signals:
  assumes "e \<in> set es" "maskable (event e)"
  shows "\<exists>x \<in> set (run_dedup es).
    fid (event x) = fid (event e) \<and> kind_name (event x) \<in> dominators (event e)"
proof -
  obtain as bs where es: "es = as @ e # bs" using assms(1) by (meson split_list)
  let ?d = "foldl (\<lambda>d e. fst (dedup_push d e)) dedup_new as"
  have inv: "dedup_inv ?d" by (rule dd.inv_pushes [OF dedup_inv_new])
  obtain x where x: "x \<in># qmset (queues (fst (dedup_push ?d e)))" "fid (event x) = fid (event e)"
      "kind_name (event x) \<in> dominators (event e)"
    using push_signal [OF inv assms(2)] by blast
  then have "x \<in># mset (run_dedup es)"
    using pushes_keep_maskable [OF dedup_push_inv [OF inv] x(1), of bs] dominator_maskable
    by (simp add: run_dedup_mset es)
  with x show ?thesis by auto
qed

theorem run_dedup_signals_witness:
  "(\<exists>x \<in> set (run_dedup sample_stream).
     fid (event x) = LuFid 1 2 0 \<and> kind_name (event x) \<in> {''MTIME'', ''CLOSE'', ''TRUNC''})"
  using run_dedup_signals [of "sample_create\<lparr>index := 6, event := MTime (LuFid 1 2 0)\<rparr>" sample_stream]
  by (simp add: sample_stream_def maskable_def)

end
