(* ===== verification/Rbh_Cursor.thy ===== *)
theory Rbh_Cursor
  imports Rbh_Event "HOL-Library.AList"
begin

text \<open>
  Durable changelog cursors: the trait \<open>CursorStore\<close> and the in-memory store of
  \<open>crates/lustre-changelog/src/cursor.rs\<close>, and the table-backed store
  \<open>MariaDbCursorStore\<close> with the migration \<open>bind_legacy_lustre_cursors\<close> of
  \<open>crates/rbh-entry-store/src/store.rs\<close>.

  The trait is the locale \<open>cursor_store\<close>: a commit makes the record index durable,
  never lowers a cursor and leaves the other streams alone. Both implementations are
  interpretations. A database failure is a parameter \<open>fails\<close> of the table-backed
  store, since the server is not part of the sources.
\<close>

section \<open>The in-memory store\<close>

type_synonym MemoryCursorStore = "string \<Rightarrow> u64 option"

definition memory_get :: "MemoryCursorStore \<Rightarrow> string \<Rightarrow> u64 option" where
  "memory_get st m = st m"

definition memory_commit ::
  "MemoryCursorStore \<Rightarrow> string \<Rightarrow> u64 \<Rightarrow> CursorError + MemoryCursorStore" where
  "memory_commit st m rec_id =
     (case st m of
        Some stored \<Rightarrow>
          if rec_id < stored then Inl (NonMonotonic m stored rec_id) else Inr (st(m \<mapsto> rec_id))
      | None \<Rightarrow> Inr (st(m \<mapsto> rec_id)))"

section \<open>The table\<close>

record CursorRow =
  reader_id :: "string option"
  last_rec :: u64
  updated_at :: i64

type_synonym cursor_table = "((string \<times> string) \<times> CursorRow) list"

definition mariadb_get :: "string \<Rightarrow> cursor_table \<Rightarrow> string \<Rightarrow> u64 option" where
  "mariadb_get fs tbl m = map_option last_rec (map_of tbl (fs, m))"

definition mariadb_commit ::
  "(cursor_table \<Rightarrow> string \<Rightarrow> u64 \<Rightarrow> string option) \<Rightarrow> i64 \<Rightarrow> string \<Rightarrow>
   cursor_table \<Rightarrow> string \<Rightarrow> u64 \<Rightarrow> CursorError + cursor_table" where
  "mariadb_commit fails now fs tbl m rec_id =
     (case fails tbl m rec_id of
        Some msg \<Rightarrow> Inl (Backend msg)
      | None \<Rightarrow>
          Inr (AList.update (fs, m)
            (case map_of tbl (fs, m) of
               None \<Rightarrow> \<lparr>reader_id = None, last_rec = rec_id, updated_at = now\<rparr>
             | Some r \<Rightarrow> r\<lparr>last_rec := max (last_rec r) rec_id, updated_at := now\<rparr>) tbl))"

definition LEGACY :: string where
  "LEGACY = ''__legacy_lustre__''"

definition merge_legacy :: "cursor_table \<Rightarrow> string \<Rightarrow> cursor_table" where
  "merge_legacy tbl filesystem =
     map (\<lambda>((fs, m), row).
       ((fs, m),
        if fs = filesystem then
          (case map_of tbl (LEGACY, m) of
             None \<Rightarrow> row
           | Some l \<Rightarrow>
               row\<lparr>last_rec := max (last_rec row) (last_rec l),
                   updated_at := max (updated_at row) (updated_at l),
                   reader_id := (case reader_id row of Some r \<Rightarrow> Some r | None \<Rightarrow> reader_id l)\<rparr>)
        else row)) tbl"

definition legacy_missing :: "cursor_table \<Rightarrow> string \<Rightarrow> cursor_table" where
  "legacy_missing tbl filesystem =
     map (\<lambda>((fs, m), row). ((filesystem, m), row))
       (filter (\<lambda>((fs, m), row). fs = LEGACY \<and> (filesystem, m) \<notin> fst ` set tbl) tbl)"

definition bind_legacy_lustre_cursors :: "cursor_table \<Rightarrow> string \<Rightarrow> nat \<times> cursor_table" where
  "bind_legacy_lustre_cursors tbl filesystem =
     (let tbl1 = merge_legacy tbl filesystem;
          added = legacy_missing tbl1 filesystem;
          tbl2 = tbl1 @ added
      in (length added, filter (\<lambda>((fs, m), row). fs \<noteq> LEGACY) tbl2))"

text \<open>A run of commits, in which a failed commit leaves the store as it is.\<close>

fun run_commits ::
  "('s \<Rightarrow> string \<Rightarrow> u64 \<Rightarrow> CursorError + 's) \<Rightarrow> 's \<Rightarrow> (string \<times> u64) list \<Rightarrow> 's" where
  "run_commits commit s [] = s"
| "run_commits commit s ((m, r) # cs) =
     run_commits commit (case commit s m r of Inl e \<Rightarrow> s | Inr s' \<Rightarrow> s') cs"

section \<open>The contract\<close>

locale cursor_store =
  fixes get :: "'s \<Rightarrow> string \<Rightarrow> u64 option"
    and commit :: "'s \<Rightarrow> string \<Rightarrow> u64 \<Rightarrow> CursorError + 's"
  assumes durable: "commit s m r = Inr s' \<Longrightarrow> \<exists>v. get s' m = Some v \<and> r \<le> v"
    and monotone: "commit s m r = Inr s' \<Longrightarrow> get s m = Some v \<Longrightarrow>
      \<exists>v'. get s' m = Some v' \<and> v \<le> v'"
    and exact: "commit s m r = Inr s' \<Longrightarrow> get s' m = Some r \<or> get s' m = get s m"
    and isolated: "commit s m r = Inr s' \<Longrightarrow> n \<noteq> m \<Longrightarrow> get s' n = get s n"
begin

lemma commit_step:
  "get (case commit s m r of Inl e \<Rightarrow> s | Inr s' \<Rightarrow> s') n = get s n \<or>
   (n = m \<and> get (case commit s m r of Inl e \<Rightarrow> s | Inr s' \<Rightarrow> s') n = Some r \<and>
     (\<forall>v. get s n = Some v \<longrightarrow> v \<le> r))"
proof (cases "commit s m r")
  case (Inr s')
  then show ?thesis
    using exact [OF Inr] isolated [OF Inr, of n] monotone [OF Inr] by (cases "n = m") auto
qed simp

lemma commits_monotone:
  "get s n = Some v \<Longrightarrow> \<exists>v'. get (run_commits commit s cs) n = Some v' \<and> v \<le> v'"
proof (induction cs arbitrary: s v)
  case (Cons c cs)
  obtain m r where c: "c = (m, r)" by (cases c)
  let ?s = "case commit s m r of Inl e \<Rightarrow> s | Inr s' \<Rightarrow> s'"
  obtain v1 where v1: "get ?s n = Some v1" "v \<le> v1"
    using commit_step [of s m r n] Cons.prems by auto
  from Cons.IH [OF v1(1)] v1(2) show ?case by (auto simp: c)
qed simp

lemma commits_isolated: "n \<notin> fst ` set cs \<Longrightarrow> get (run_commits commit s cs) n = get s n"
proof (induction cs arbitrary: s)
  case (Cons c cs)
  then show ?case by (cases c) (use commit_step [of s "fst c" "snd c" n] in auto)
qed simp

lemma commits_origin:
  "get (run_commits commit s cs) n = Some v \<Longrightarrow> get s n = Some v \<or> (n, v) \<in> set cs"
proof (induction cs arbitrary: s)
  case (Cons c cs)
  obtain m r where c: "c = (m, r)" by (cases c)
  from Cons.IH [of "case commit s m r of Inl e \<Rightarrow> s | Inr s' \<Rightarrow> s'"] Cons.prems
    commit_step [of s m r n]
  show ?case by (auto simp: c)
qed simp

end

text \<open>A store that accepts every commit that does not go backwards.\<close>

locale reliable_cursor_store = cursor_store +
  assumes accepts: "(\<forall>v. get s m = Some v \<longrightarrow> v \<le> r) \<Longrightarrow> \<exists>s'. commit s m r = Inr s'"
begin

lemma accepted_value:
  assumes "\<forall>v. get s m = Some v \<longrightarrow> v \<le> r"
  shows "\<exists>s'. commit s m r = Inr s' \<and> get s' m = Some r"
proof -
  obtain s' where s': "commit s m r = Inr s'" using accepts [OF assms] by blast
  with exact [OF s'] durable [OF s'] assms show ?thesis by fastforce
qed

end

interpretation mem: reliable_cursor_store memory_get memory_commit
  by unfold_locales
    (auto simp: memory_get_def memory_commit_def not_less split: option.splits if_splits)

interpretation maria: cursor_store "mariadb_get fs" "mariadb_commit fails now fs" for fs fails now
  by unfold_locales
    (auto simp: mariadb_get_def mariadb_commit_def update_conv' max_def split: option.splits if_splits)

section \<open>Lemmas on the table\<close>

lemma map_of_merge:
  "map_of (merge_legacy tbl filesystem) (fs, m) =
     (if fs = filesystem then
        map_option (\<lambda>row. case map_of tbl (LEGACY, m) of
             None \<Rightarrow> row
           | Some l \<Rightarrow>
               row\<lparr>last_rec := max (last_rec row) (last_rec l),
                   updated_at := max (updated_at row) (updated_at l),
                   reader_id := (case reader_id row of Some r \<Rightarrow> Some r | None \<Rightarrow> reader_id l)\<rparr>)
          (map_of tbl (fs, m))
      else map_of tbl (fs, m))"
proof -
  have "map_of (map (\<lambda>((a, b), row). ((a, b), h a b row)) t) (fs, m) =
      map_option (h fs m) (map_of t (fs, m))" for h :: "string \<Rightarrow> string \<Rightarrow> CursorRow \<Rightarrow> CursorRow" and t
    by (induction t) auto
  then show ?thesis
    unfolding merge_legacy_def by (simp add: option.map_ident cong: option.map_cong)
qed

lemma map_of_legacy_missing:
  assumes "(filesystem, m) \<notin> fst ` set tbl"
  shows "map_of (legacy_missing tbl filesystem) (filesystem, m) = map_of tbl (LEGACY, m)"
proof -
  have "map_of (map (\<lambda>((fs, m), row). ((filesystem, m), row))
      (filter (\<lambda>((fs, m), row). fs = LEGACY \<and> P m) t)) (filesystem, m) = map_of t (LEGACY, m)"
    if "P m" for P t using that by (induction t) auto
  from this [of "\<lambda>m. (filesystem, m) \<notin> fst ` set tbl"] assms show ?thesis
    by (simp add: legacy_missing_def)
qed

lemma map_of_legacy_missing_present:
  "(filesystem, m) \<in> fst ` set tbl \<Longrightarrow> map_of (legacy_missing tbl filesystem) (filesystem, m) = None"
  by (force simp: legacy_missing_def map_of_eq_None_iff)

lemma map_of_legacy_missing_other:
  "fs \<noteq> filesystem \<Longrightarrow> map_of (legacy_missing tbl filesystem) (fs, m) = None"
  by (force simp: legacy_missing_def map_of_eq_None_iff)

lemma map_of_filter_legacy:
  "map_of (filter (\<lambda>((fs, m), row). fs \<noteq> LEGACY) tbl) (fs, m) =
     (if fs = LEGACY then None else map_of tbl (fs, m))"
  by (induction tbl) auto

lemma keys_merge [simp]: "fst ` set (merge_legacy tbl filesystem) = fst ` set tbl"
  by (force simp: merge_legacy_def image_iff split: prod.splits)

definition sample_cursors :: cursor_table where
  "sample_cursors =
     [((LEGACY, ''fs-MDT0000''), \<lparr>reader_id = Some ''cl1'', last_rec = 88, updated_at = 1\<rparr>),
      ((''lustre-a'', ''fs-MDT0000''), \<lparr>reader_id = None, last_rec = 70, updated_at = 2\<rparr>)]"

section \<open>Properties\<close>

text \<open>
  C24: through any run of commits, failed ones included, the table-backed cursor of a
  stream never goes backwards, its value is the initial one or one that was committed,
  and the cursors of streams that were not committed, in this filesystem or in another
  one, do not change.
\<close>

theorem mariadb_cursor_monotone:
  fixes fails now fs tbl cs
  defines "tbl' \<equiv> run_commits (mariadb_commit fails now fs) tbl cs"
  shows "(\<forall>v. mariadb_get fs tbl n = Some v \<longrightarrow>
            (\<exists>v'. mariadb_get fs tbl' n = Some v' \<and> v \<le> v')) \<and>
         (\<forall>v. mariadb_get fs tbl' n = Some v \<longrightarrow>
            mariadb_get fs tbl n = Some v \<or> (n, v) \<in> set cs) \<and>
         (n \<notin> fst ` set cs \<longrightarrow> mariadb_get fs tbl' n = mariadb_get fs tbl n) \<and>
         (fs' \<noteq> fs \<longrightarrow> mariadb_get fs' tbl' n = mariadb_get fs' tbl n)"
proof -
  have "mariadb_get fs' tbl' n = mariadb_get fs' tbl n" if "fs' \<noteq> fs"
    unfolding tbl'_def using that
    by (induction "mariadb_commit fails now fs" tbl cs rule: run_commits.induct)
      (auto simp: mariadb_get_def mariadb_commit_def update_conv' split: option.splits)
  then show ?thesis
    unfolding tbl'_def
    by (intro conjI allI impI maria.commits_monotone maria.commits_origin maria.commits_isolated)
qed

theorem mariadb_cursor_monotone_witness:
  "mariadb_get ''lustre-a''
     (run_commits (mariadb_commit (\<lambda>_ _ _. None) 9 ''lustre-a'') sample_cursors
        [(''fs-MDT0000'', 90), (''fs-MDT0000'', 80)]) ''fs-MDT0000'' = Some 90 \<and>
   (\<exists>v'. mariadb_get ''lustre-a''
     (run_commits (mariadb_commit (\<lambda>_ _ _. None) 9 ''lustre-a'') sample_cursors
        [(''fs-MDT0000'', 90), (''fs-MDT0000'', 80)]) ''fs-MDT0000'' = Some v' \<and> 70 \<le> v')"
proof
  show "mariadb_get ''lustre-a''
     (run_commits (mariadb_commit (\<lambda>_ _ _. None) 9 ''lustre-a'') sample_cursors
        [(''fs-MDT0000'', 90), (''fs-MDT0000'', 80)]) ''fs-MDT0000'' = Some 90"
    by (simp add: sample_cursors_def LEGACY_def mariadb_get_def mariadb_commit_def)
  have "mariadb_get ''lustre-a'' sample_cursors ''fs-MDT0000'' = Some 70"
    by (simp add: sample_cursors_def LEGACY_def mariadb_get_def)
  with mariadb_cursor_monotone [of "''lustre-a''" sample_cursors "''fs-MDT0000''"
      "\<lambda>_ _ _. None" 9 "[(''fs-MDT0000'', 90), (''fs-MDT0000'', 80)]"]
  show "\<exists>v'. mariadb_get ''lustre-a''
     (run_commits (mariadb_commit (\<lambda>_ _ _. None) 9 ''lustre-a'') sample_cursors
        [(''fs-MDT0000'', 90), (''fs-MDT0000'', 80)]) ''fs-MDT0000'' = Some v' \<and> 70 \<le> v'"
    by blast
qed

text \<open>
  Binding the cursors of the time before filesystem identifiers gives every stream of
  the filesystem the larger of its own and its legacy position, removes the legacy rows
  and touches no other filesystem.
\<close>

theorem bind_legacy_cursors:
  assumes "filesystem \<noteq> LEGACY"
  shows "mariadb_get fs (snd (bind_legacy_lustre_cursors tbl filesystem)) m =
    (if fs = LEGACY then None
     else if fs = filesystem then
       (case (mariadb_get filesystem tbl m, mariadb_get LEGACY tbl m) of
          (Some a, Some b) \<Rightarrow> Some (max a b)
        | (Some a, None) \<Rightarrow> Some a
        | (None, b) \<Rightarrow> b)
     else mariadb_get fs tbl m)"
proof -
  let ?t = "merge_legacy tbl filesystem"
  have "map_of (snd (bind_legacy_lustre_cursors tbl filesystem)) (fs, m) =
      (if fs = LEGACY then None
       else case map_of ?t (fs, m) of
              Some r \<Rightarrow> Some r | None \<Rightarrow> map_of (legacy_missing ?t filesystem) (fs, m))"
    by (auto simp: bind_legacy_lustre_cursors_def Let_def map_of_filter_legacy map_add_def
        split: option.splits)
  moreover have "map_of (legacy_missing ?t filesystem) (filesystem, m) =
      (if map_of tbl (filesystem, m) = None then map_of tbl (LEGACY, m) else None)"
    using map_of_legacy_missing [of filesystem m ?t] map_of_legacy_missing_present [of filesystem m ?t]
      assms by (auto simp: map_of_eq_None_iff map_of_merge)
  ultimately show ?thesis
    using assms map_of_legacy_missing_other [of fs filesystem ?t m]
    by (cases "map_of tbl (filesystem, m)"; cases "map_of tbl (LEGACY, m)")
      (auto simp: mariadb_get_def map_of_merge split: option.splits)
qed

theorem bind_legacy_cursors_witness:
  "mariadb_get ''lustre-a'' (snd (bind_legacy_lustre_cursors sample_cursors ''lustre-a''))
     ''fs-MDT0000'' = Some 88"
  using bind_legacy_cursors [of "''lustre-a''" "''lustre-a''" sample_cursors "''fs-MDT0000''"]
  by (simp add: sample_cursors_def LEGACY_def mariadb_get_def)

end
