(* ===== verification/Rbh_Listener.thy ===== *)
theory Rbh_Listener
  imports Rbh_Dedup Rbh_Cursor
begin

text \<open>
  The changelog listener of one stream (\<open>crates/lustre-changelog/src/listener.rs\<close>): the
  receive loops that parse, batch and send records, and \<open>process_acks\<close>, which turns the
  consumer's acknowledgements into durable cursors and clears of the server's log.

  What the listener does not control is an input of the definitions: the results of
  \<open>recv_changelog\<close>, \<open>open_changelog\<close> and \<open>clear_changelog\<close>, the time of each push, whether
  the consumer still holds its end of the channel, the acknowledgements that arrive and
  the cancellation of the token. The cursor store is the trait object, an argument with
  the contract \<open>cursor_store\<close>. Sent batches and the calls that leave the process are
  recorded in order.
\<close>

section \<open>Configuration\<close>

record ListenerConfig =
  lc_mdt :: string
  lc_reader_id :: string
  follow :: bool
  poll_interval :: nat
  lc_batcher :: BatcherConfig
  channel_buffer :: nat
  lc_ignored_types :: "ChangelogEventType list"

definition listener_config_default :: ListenerConfig where
  "listener_config_default =
     \<lparr>lc_mdt = [], lc_reader_id = [], follow = True, poll_interval = 1000000000,
      lc_batcher = batcher_config_default, channel_buffer = 16,
      lc_ignored_types = [ET_Mark, ET_Open, ET_NoOpen, ET_ATime]\<rparr>"

record EventAck =
  ack_mdt :: string
  committed_index :: u64

definition start_rec :: "('s \<Rightarrow> string \<Rightarrow> u64 option) \<Rightarrow> 's \<Rightarrow> string \<Rightarrow> i64" where
  "start_rec get st m =
     (case get st m of Some pos \<Rightarrow> wrap_i64 (sint pos + 1) | None \<Rightarrow> 0)"

section \<open>Acknowledgements\<close>

record AckState =
  last_cleared :: i64
  ack_pending :: "i64 option"

definition ack_state_init :: "i64 \<Rightarrow> AckState" where
  "ack_state_init start =
     \<lparr>last_cleared = - 1, ack_pending = (if start > 0 then Some (start - 1) else None)\<rparr>"

text \<open>
  Outside results of one round: whether the cursor task can run and report
  (\<open>PersistCursorError::Runtime\<close>, \<open>ResultChannel\<close>), and the errno of \<open>clear_changelog\<close>.
\<close>

datatype PersistEnv = Env_ok | No_runtime | No_result

datatype 'e PersistCursorError = Runtime | CursorRejected 'e | ResultChannel

datatype action = Committed string u64 | Clear string string i64

definition EINVAL :: int where "EINVAL = 22"
definition EINTR :: int where "EINTR = 4"

definition persist_cursor ::
  "('s \<Rightarrow> string \<Rightarrow> u64 \<Rightarrow> CursorError + 's) \<Rightarrow> PersistEnv \<Rightarrow> 's \<Rightarrow> string \<Rightarrow> u64 \<Rightarrow>
   CursorError PersistCursorError option \<times> 's" where
  "persist_cursor commit env st m idx =
     (case env of
        No_runtime \<Rightarrow> (Some Runtime, st)
      | _ \<Rightarrow>
          (let (res, st') =
             (case commit st m idx of
                Inl e \<Rightarrow> (Some (CursorRejected e), st)
              | Inr st' \<Rightarrow> (None, st'))
           in (if env = No_result then Some ResultChannel else res, st')))"

definition take_ack :: "AckState \<Rightarrow> EventAck \<Rightarrow> AckState" where
  "take_ack state ack =
     (let idx = sint (committed_index ack)
      in if idx > last_cleared state \<and>
            (case ack_pending state of None \<Rightarrow> True | Some p \<Rightarrow> idx > p)
         then state\<lparr>ack_pending := Some idx\<rparr> else state)"

definition process_acks ::
  "('s \<Rightarrow> string \<Rightarrow> u64 \<Rightarrow> CursorError + 's) \<Rightarrow> PersistEnv \<Rightarrow> (i64 \<Rightarrow> int option) \<Rightarrow>
   string \<Rightarrow> string \<Rightarrow> EventAck list \<Rightarrow> AckState \<Rightarrow> 's \<Rightarrow> AckState \<times> 's \<times> action list" where
  "process_acks commit env clear m reader acks state st =
     (let state1 = foldl take_ack state acks
      in case ack_pending state1 of
           None \<Rightarrow> (state1, st, [])
         | Some idx \<Rightarrow>
           (case persist_cursor commit env st m (word_of_int idx) of
              (Some err, st') \<Rightarrow> (state1, st', [])
            | (None, st') \<Rightarrow>
              (let log = [Committed m (word_of_int idx), Clear m reader idx] in
               case clear idx of
                 None \<Rightarrow> (\<lparr>last_cleared = idx, ack_pending = None\<rparr>, st', log)
               | Some errno \<Rightarrow>
                   if errno = EINVAL
                   then (\<lparr>last_cleared = idx, ack_pending = None\<rparr>, st', log)
                   else (state1, st', log))))"

section \<open>The receive loops\<close>

text \<open>
  The result of one \<open>recv_changelog\<close>: a record, received at a time and while the
  consumer's end of the channel is open or closed; the end of the log; or an errno.
\<close>

datatype recv = Rec nat bool RawRec | Eof | RecvErr int

record Listener =
  li_batcher :: EventBatcher
  next_start :: i64
  sent :: "EventBatch list"
  opens :: "i64 list"

definition listener_init :: "ListenerConfig \<Rightarrow> i64 \<Rightarrow> Listener" where
  "listener_init cfg start =
     \<lparr>li_batcher = batcher_new (lc_mdt cfg) (lc_batcher cfg), next_start = start, sent = [],
      opens = []\<rparr>"

definition send_batch :: "bool \<Rightarrow> EventBatch option \<Rightarrow> Listener \<Rightarrow> bool \<times> Listener" where
  "send_batch rx_open batch li =
     (case batch of
        None \<Rightarrow> (True, li)
      | Some b \<Rightarrow> if rx_open then (True, li\<lparr>sent := sent li @ [b]\<rparr>) else (False, li))"

definition accept_record ::
  "ListenerConfig \<Rightarrow> RawRec \<Rightarrow> ChangelogEventEnvelope option" where
  "accept_record cfg rec =
     (if rr_event_type rec \<in> set (lc_ignored_types cfg) then None
      else (case parse_event (lc_mdt cfg) rec of
              Inr (Some env) \<Rightarrow> Some env
            | Inr None \<Rightarrow> None
            | Inl e \<Rightarrow> None))"

definition push_and_send ::
  "nat \<Rightarrow> bool \<Rightarrow> ChangelogEventEnvelope \<Rightarrow> Listener \<Rightarrow> bool \<times> Listener" where
  "push_and_send now rx_open env li =
     (let (b1, full) = batcher_push now (li_batcher li) env
      in if full then
           (let (batch, b2) = flush b1 in send_batch rx_open batch (li\<lparr>li_batcher := b2\<rparr>))
         else (True, li\<lparr>li_batcher := b1\<rparr>))"

definition flush_and_send :: "bool \<Rightarrow> Listener \<Rightarrow> bool \<times> Listener" where
  "flush_and_send rx_open li =
     (let (batch, b) = flush (li_batcher li)
      in send_batch rx_open batch (li\<lparr>li_batcher := b\<rparr>))"

text \<open>The inner loop of the polling mode; \<open>False\<close> is the closed channel. A script that
  ends is the end of the log.\<close>

fun drain_loop :: "ListenerConfig \<Rightarrow> recv list \<Rightarrow> Listener \<Rightarrow> bool \<times> Listener" where
  "drain_loop cfg [] li = (True, li)"
| "drain_loop cfg (Eof # rs) li = (True, li)"
| "drain_loop cfg (RecvErr errno # rs) li =
     (if errno = EINTR then drain_loop cfg rs li else (True, li))"
| "drain_loop cfg (Rec now rx_open rec # rs) li =
     (case accept_record cfg rec of
        None \<Rightarrow> drain_loop cfg rs li
      | Some env \<Rightarrow>
          (let li1 = li\<lparr>next_start := wrap_i64 (sint (index env) + 1)\<rparr>
           in case push_and_send now rx_open env li1 of
                (False, li2) \<Rightarrow> (False, li2)
              | (True, li2) \<Rightarrow> drain_loop cfg rs li2))"

text \<open>What the outside does in one turn of a loop.\<close>

record Turn =
  cancelled :: bool
  open_errno :: "int option"
  recvs :: "recv list"
  rx_open :: bool
  acks :: "EventAck list"
  persist_env :: PersistEnv
  clear_res :: "i64 \<Rightarrow> int option"

record 's Run =
  rn_listener :: Listener
  rn_acks :: AckState
  rn_store :: 's
  rn_log :: "action list"

definition turn_acks ::
  "('s \<Rightarrow> string \<Rightarrow> u64 \<Rightarrow> CursorError + 's) \<Rightarrow> ListenerConfig \<Rightarrow> Turn \<Rightarrow> 's Run \<Rightarrow> 's Run" where
  "turn_acks commit cfg t r =
     (let (a, st, log) =
            process_acks commit (persist_env t) (clear_res t) (lc_mdt cfg) (lc_reader_id cfg)
              (acks t) (rn_acks r) (rn_store r)
      in r\<lparr>rn_acks := a, rn_store := st, rn_log := rn_log r @ log\<rparr>)"

definition shutdown ::
  "('s \<Rightarrow> string \<Rightarrow> u64 \<Rightarrow> CursorError + 's) \<Rightarrow> ListenerConfig \<Rightarrow> Turn \<Rightarrow> 's Run \<Rightarrow> 's Run" where
  "shutdown commit cfg t r =
     turn_acks commit cfg t
       (r\<lparr>rn_listener := snd (flush_and_send (rx_open t) (rn_listener r))\<rparr>)"

text \<open>
  One turn of the polling loop, then the loop over the turns: the value is the error with
  which the loop returns, and the final state. The last turn \<open>fin\<close> is the shutdown.
\<close>

definition poll_turn ::
  "('s \<Rightarrow> string \<Rightarrow> u64 \<Rightarrow> CursorError + 's) \<Rightarrow> ListenerConfig \<Rightarrow> Turn \<Rightarrow> 's Run \<Rightarrow>
   ChangelogError option \<times> 's Run" where
  "poll_turn commit cfg t r =
     (let li0 = (rn_listener r)\<lparr>opens := opens (rn_listener r) @ [next_start (rn_listener r)]\<rparr>
      in case open_errno t of
           Some errno \<Rightarrow> (None, r\<lparr>rn_listener := li0\<rparr>)
         | None \<Rightarrow>
           (case drain_loop cfg (recvs t) li0 of
              (False, li1) \<Rightarrow> (Some EventChannelClosed, r\<lparr>rn_listener := li1\<rparr>)
            | (True, li1) \<Rightarrow>
              (case flush_and_send (rx_open t) li1 of
                 (False, li2) \<Rightarrow> (Some EventChannelClosed, r\<lparr>rn_listener := li2\<rparr>)
               | (True, li2) \<Rightarrow> (None, turn_acks commit cfg t (r\<lparr>rn_listener := li2\<rparr>)))))"

fun run_polling_loop ::
  "('s \<Rightarrow> string \<Rightarrow> u64 \<Rightarrow> CursorError + 's) \<Rightarrow> ListenerConfig \<Rightarrow> Turn list \<Rightarrow> Turn \<Rightarrow>
   's Run \<Rightarrow> ChangelogError option \<times> 's Run" where
  "run_polling_loop commit cfg [] fin r = (None, shutdown commit cfg fin r)"
| "run_polling_loop commit cfg (t # ts) fin r =
     (if cancelled t then (None, shutdown commit cfg fin r)
      else (case poll_turn commit cfg t r of
              (Some e, r') \<Rightarrow> (Some e, r')
            | (None, r') \<Rightarrow> run_polling_loop commit cfg ts fin r'))"

text \<open>
  The blocking mode receives one record per turn, after a round of acknowledgements. A
  receive error flushes, reopens the log after the last cleared record, and goes on;
  \<open>open_errno\<close> is the result of that reopening.
\<close>

definition follow_turn ::
  "('s \<Rightarrow> string \<Rightarrow> u64 \<Rightarrow> CursorError + 's) \<Rightarrow> ListenerConfig \<Rightarrow> Turn \<Rightarrow> 's Run \<Rightarrow>
   (ChangelogError option \<times> bool) \<times> 's Run" where
  "follow_turn commit cfg t r0 =
     (let r = turn_acks commit cfg t r0; li = rn_listener r
      in case recvs t of
           [] \<Rightarrow> ((None, True), r)
         | Eof # _ \<Rightarrow> ((None, True), r)
         | RecvErr errno # _ \<Rightarrow>
             if errno = EINTR then ((None, False), r)
             else (case flush_and_send (rx_open t) li of
                     (False, li1) \<Rightarrow> ((Some EventChannelClosed, True), r\<lparr>rn_listener := li1\<rparr>)
                   | (True, li1) \<Rightarrow>
                     (let li2 = li1\<lparr>opens := opens li1 @ [wrap_i64 (last_cleared (rn_acks r) + 1)]\<rparr>
                      in case open_errno t of
                           Some e \<Rightarrow> ((Some (LustreApi e), True), r\<lparr>rn_listener := li2\<rparr>)
                         | None \<Rightarrow> ((None, False), r\<lparr>rn_listener := li2\<rparr>)))
         | Rec now rx rec # _ \<Rightarrow>
             (case accept_record cfg rec of
                None \<Rightarrow> ((None, False), r)
              | Some env \<Rightarrow>
                (case push_and_send now rx env li of
                   (False, li1) \<Rightarrow> ((Some EventChannelClosed, True), r\<lparr>rn_listener := li1\<rparr>)
                 | (True, li1) \<Rightarrow> ((None, False), r\<lparr>rn_listener := li1\<rparr>))))"

fun run_follow_turns ::
  "('s \<Rightarrow> string \<Rightarrow> u64 \<Rightarrow> CursorError + 's) \<Rightarrow> ListenerConfig \<Rightarrow> Turn list \<Rightarrow> Turn \<Rightarrow>
   's Run \<Rightarrow> ChangelogError option \<times> 's Run" where
  "run_follow_turns commit cfg [] fin r = (None, shutdown commit cfg fin r)"
| "run_follow_turns commit cfg (t # ts) fin r =
     (if cancelled t then (None, shutdown commit cfg fin r)
      else (case follow_turn commit cfg t r of
              ((Some e, _), r') \<Rightarrow> (Some e, r')
            | ((None, True), r') \<Rightarrow> (None, shutdown commit cfg fin r')
            | ((None, False), r') \<Rightarrow> run_follow_turns commit cfg ts fin r'))"

definition run_follow_loop ::
  "('s \<Rightarrow> string \<Rightarrow> u64 \<Rightarrow> CursorError + 's) \<Rightarrow> ListenerConfig \<Rightarrow> int option \<Rightarrow> Turn list \<Rightarrow>
   Turn \<Rightarrow> 's Run \<Rightarrow> ChangelogError option \<times> 's Run" where
  "run_follow_loop commit cfg first_open ts fin r =
     (let r1 = r\<lparr>rn_listener := (rn_listener r)\<lparr>opens := [next_start (rn_listener r)]\<rparr>\<rparr>
      in case first_open of
           Some e \<Rightarrow> (Some (LustreApi e), r1)
         | None \<Rightarrow>
           (case run_follow_turns commit cfg ts fin r1 of
              (Some e, r2) \<Rightarrow> (Some e, r2)
            | (None, r2) \<Rightarrow>
              \<comment> \<open>\<open>close_changelog\<close> after the last round\<close>
              (map_option LustreApi (open_errno fin), r2)))"

definition run_blocking ::
  "('s \<Rightarrow> string \<Rightarrow> u64 \<Rightarrow> CursorError + 's) \<Rightarrow> ListenerConfig \<Rightarrow> int option \<Rightarrow> Turn list \<Rightarrow>
   Turn \<Rightarrow> i64 \<Rightarrow> 's \<Rightarrow> ChangelogError option \<times> 's Run" where
  "run_blocking commit cfg first_open ts fin start st =
     (let r = \<lparr>rn_listener = listener_init cfg start, rn_acks = ack_state_init start,
               rn_store = st, rn_log = []\<rparr>
      in if follow cfg \<and> poll_interval cfg > 0
         then run_polling_loop commit cfg ts fin r
         else run_follow_loop commit cfg first_open ts fin r)"

section \<open>Acknowledgements: lemmas\<close>

text \<open>A log in which every clear directly follows the commit of the same index.\<close>

definition paired_log :: "string \<Rightarrow> string \<Rightarrow> i64 list \<Rightarrow> action list" where
  "paired_log m reader cs =
     concat (map (\<lambda>i. [Committed m (word_of_int i), Clear m reader i]) cs)"

definition ack_bound :: "AckState \<Rightarrow> i64" where
  "ack_bound a = (case ack_pending a of Some p \<Rightarrow> p | None \<Rightarrow> last_cleared a)"

definition ack_inv :: "AckState \<Rightarrow> bool" where
  "ack_inv a = (last_cleared a \<le> ack_bound a)"

lemma ack_inv_init: "ack_inv (ack_state_init start)"
  by (simp add: ack_inv_def ack_state_init_def ack_bound_def)

lemma take_ack_facts:
  assumes "ack_inv a"
  shows "ack_inv (take_ack a k)" "ack_bound a \<le> ack_bound (take_ack a k)"
    "last_cleared (take_ack a k) = last_cleared a"
    "ack_pending (take_ack a k) = ack_pending a \<or>
       ack_pending (take_ack a k) = Some (sint (committed_index k))"
    "sint (committed_index k) \<le> ack_bound (take_ack a k)"
  using assms by (auto simp: take_ack_def ack_inv_def ack_bound_def Let_def split: option.splits)

lemma take_acks_facts:
  assumes "ack_inv a"
  shows "ack_inv (foldl take_ack a ks) \<and> ack_bound a \<le> ack_bound (foldl take_ack a ks) \<and>
    last_cleared (foldl take_ack a ks) = last_cleared a \<and>
    (ack_pending (foldl take_ack a ks) = ack_pending a \<or>
     (\<exists>k \<in> set ks. ack_pending (foldl take_ack a ks) = Some (sint (committed_index k))))"
  using assms
proof (induction ks rule: rev_induct)
  case (snoc k ks)
  then have IH: "ack_inv (foldl take_ack a ks)" by simp
  from snoc take_ack_facts [OF IH, of k] show ?case by auto
qed simp

lemma take_acks_ge:
  assumes "ack_inv a" "k \<in> set ks"
  shows "sint (committed_index k) \<le> ack_bound (foldl take_ack a ks)"
  using assms(2)
proof (induction ks rule: rev_induct)
  case (snoc k' ks)
  have inv: "ack_inv (foldl take_ack a ks)" using take_acks_facts [OF assms(1)] by blast
  show ?case
  proof (cases "k = k'")
    case True
    with take_ack_facts(5) [OF inv, of k'] show ?thesis by simp
  next
    case False
    with snoc take_ack_facts(2) [OF inv, of k'] show ?thesis by auto
  qed
qed simp

text \<open>The three outcomes of a round.\<close>

lemma process_acks_cases:
  fixes state acks
  defines "s1 \<equiv> foldl take_ack state acks"
  assumes "process_acks commit env clear m reader acks state st = (state', st', log)"
  obtains (idle) "ack_pending s1 = None" "state' = s1" "st' = st" "log = []"
  | (rejected) idx where "ack_pending s1 = Some idx" "state' = s1" "log = []"
      "st' = st \<or> commit st m (word_of_int idx) = Inr st'"
  | (cleared) idx where "ack_pending s1 = Some idx" "commit st m (word_of_int idx) = Inr st'"
      "log = paired_log m reader [idx]"
      "state' = \<lparr>last_cleared = idx, ack_pending = None\<rparr> \<or> state' = s1"
      "clear idx = None \<or> clear idx = Some EINVAL \<longleftrightarrow>
         state' = \<lparr>last_cleared = idx, ack_pending = None\<rparr>"
proof (cases "ack_pending s1")
  case None
  with assms(2) have "state' = s1 \<and> st' = st \<and> log = []"
    by (simp add: process_acks_def s1_def)
  with None show thesis by (intro idle) simp_all
next
  case (Some idx)
  have ne: "s1 \<noteq> \<lparr>last_cleared = idx, ack_pending = None\<rparr>" using Some by auto
  show thesis
  proof (cases "persist_cursor commit env st m (word_of_int idx)")
    case (Pair res st1)
    show thesis
    proof (cases res)
      case None
      with Pair have c: "commit st m (word_of_int idx) = Inr st1"
        by (auto simp: persist_cursor_def split: PersistEnv.splits sum.splits if_splits)
      from assms(2) Some Pair None c ne show thesis
        by (intro cleared [of idx])
          (auto simp: process_acks_def s1_def paired_log_def Let_def split: option.splits if_splits)
    next
      case err: (Some e)
      with Pair have "st1 = st \<or> commit st m (word_of_int idx) = Inr st1"
        by (auto simp: persist_cursor_def split: PersistEnv.splits sum.splits if_splits prod.splits)
      with assms(2) Some Pair err show thesis
        by (intro rejected [of idx]) (auto simp: process_acks_def s1_def)
    qed
  qed
qed

lemma paired_log_append: "paired_log m r (xs @ ys) = paired_log m r xs @ paired_log m r ys"
  by (simp add: paired_log_def)

text \<open>
  The state of a run, as far as acknowledgements go: the log pairs commits and clears, the
  cleared indices do not decrease and lie below the acknowledged bound, all of them and the
  pending one come from \<open>ok\<close>, and the cursor of the stream covers what was cleared.
\<close>

definition ack_run_ok ::
  "('s \<Rightarrow> string \<Rightarrow> u64 option) \<Rightarrow> ListenerConfig \<Rightarrow> i64 set \<Rightarrow> 's Run \<Rightarrow> bool" where
  "ack_run_ok get cfg ok r =
     (\<exists>cs. rn_log r = paired_log (lc_mdt cfg) (lc_reader_id cfg) cs \<and> sorted cs \<and>
        set cs \<subseteq> ok \<and> set_option (ack_pending (rn_acks r)) \<subseteq> ok \<and>
        (\<forall>i \<in> set cs. i \<le> ack_bound (rn_acks r)) \<and> ack_inv (rn_acks r) \<and>
        (\<forall>i \<in> set cs. \<exists>v. get (rn_store r) (lc_mdt cfg) = Some v \<and> word_of_int i \<le> v))"

lemma ack_run_ok_listener [simp]:
  "ack_run_ok get cfg ok (r\<lparr>rn_listener := li\<rparr>) = ack_run_ok get cfg ok r"
  by (simp add: ack_run_ok_def)

definition acked :: "Turn \<Rightarrow> i64 set" where
  "acked t = (\<lambda>k. sint (committed_index k)) ` set (acks t)"

context cursor_store
begin

lemma turn_acks_ok:
  assumes r: "ack_run_ok get cfg ok r"
    and acked: "acked t \<subseteq> ok"
  shows "ack_run_ok get cfg ok (turn_acks commit cfg t r)"
proof -
  let ?m = "lc_mdt cfg" let ?rd = "lc_reader_id cfg"
  from r obtain cs where cs: "rn_log r = paired_log ?m ?rd cs" "sorted cs" "set cs \<subseteq> ok"
    "set_option (ack_pending (rn_acks r)) \<subseteq> ok" "\<forall>i \<in> set cs. i \<le> ack_bound (rn_acks r)"
    "ack_inv (rn_acks r)"
    "\<forall>i \<in> set cs. \<exists>v. get (rn_store r) ?m = Some v \<and> word_of_int i \<le> v"
    unfolding ack_run_ok_def by blast
  let ?s1 = "foldl take_ack (rn_acks r) (acks t)"
  have s1: "ack_inv ?s1" "ack_bound (rn_acks r) \<le> ack_bound ?s1" "set_option (ack_pending ?s1) \<subseteq> ok"
    using take_acks_facts [OF cs(6), of "acks t"] cs(4) acked by (auto simp: acked_def)
  obtain a st log where p: "process_acks commit (persist_env t) (clear_res t) ?m ?rd (acks t)
      (rn_acks r) (rn_store r) = (a, st, log)" by (metis prod_cases3)
  then have t: "turn_acks commit cfg t r =
      r\<lparr>rn_acks := a, rn_store := st, rn_log := rn_log r @ log\<rparr>"
    by (simp add: turn_acks_def)
  have keep: "\<exists>v. get st' ?m = Some v \<and> word_of_int i \<le> v"
    if "i \<in> set cs" "st' = rn_store r \<or> commit (rn_store r) ?m w = Inr st'" for i st' w
    using cs(7) that monotone [of "rn_store r" ?m w st'] by (meson order_trans)
  from p show ?thesis
  proof (cases rule: process_acks_cases)
    case idle
    with cs s1 show ?thesis unfolding t ack_run_ok_def by (intro exI [of _ cs]) auto
  next
    case (rejected idx)
    have "\<forall>i \<in> set cs. \<exists>v. get st ?m = Some v \<and> word_of_int i \<le> v"
      using keep [OF _ rejected(4)] by blast
    with cs s1 rejected show ?thesis unfolding t ack_run_ok_def
      by (intro exI [of _ cs]) (auto intro: order_trans)
  next
    case (cleared idx)
    have "ack_bound a = idx" "ack_inv a" using cleared s1(1) by (auto simp: ack_bound_def ack_inv_def)
    moreover have "idx \<in> ok" "\<forall>i \<in> set cs. i \<le> idx"
      using cleared(1) s1 cs(5) by (auto simp: ack_bound_def)
    moreover have "set_option (ack_pending a) \<subseteq> ok" using cleared s1(3) by auto
    ultimately show ?thesis
      unfolding t ack_run_ok_def using cs cleared keep [OF _ disjI2 [OF cleared(2)]] durable [OF cleared(2)]
      by (intro exI [of _ "cs @ [idx]"]) (auto simp: sorted_append paired_log_append)
  qed
qed

lemma shutdown_ok:
  "ack_run_ok get cfg ok r \<Longrightarrow> acked t \<subseteq> ok \<Longrightarrow> ack_run_ok get cfg ok (shutdown commit cfg t r)"
  by (simp add: shutdown_def turn_acks_ok)

lemma poll_turn_ok:
  "ack_run_ok get cfg ok r \<Longrightarrow> acked t \<subseteq> ok \<Longrightarrow>
     ack_run_ok get cfg ok (snd (poll_turn commit cfg t r))"
  by (auto simp: poll_turn_def Let_def turn_acks_ok split: option.splits prod.splits bool.splits)

lemma follow_turn_ok:
  "ack_run_ok get cfg ok r \<Longrightarrow> acked t \<subseteq> ok \<Longrightarrow>
     ack_run_ok get cfg ok (snd (follow_turn commit cfg t r))"
  by (auto simp: follow_turn_def Let_def turn_acks_ok
      split: option.splits prod.splits bool.splits list.splits recv.splits)

lemma run_polling_ok:
  "ack_run_ok get cfg ok r \<Longrightarrow> (\<Union>t \<in> set ts. acked t) \<subseteq> ok \<Longrightarrow> acked fin \<subseteq> ok \<Longrightarrow>
     ack_run_ok get cfg ok (snd (run_polling_loop commit cfg ts fin r))"
proof (induction ts arbitrary: r)
  case (Cons t ts)
  then show ?case
    using poll_turn_ok [of cfg ok r t] by (auto simp: shutdown_ok split: prod.splits option.splits)
qed (simp add: shutdown_ok)

lemma run_follow_ok:
  "ack_run_ok get cfg ok r \<Longrightarrow> (\<Union>t \<in> set ts. acked t) \<subseteq> ok \<Longrightarrow> acked fin \<subseteq> ok \<Longrightarrow>
     ack_run_ok get cfg ok (snd (run_follow_turns commit cfg ts fin r))"
proof (induction ts arbitrary: r)
  case (Cons t ts)
  then show ?case
    using follow_turn_ok [of cfg ok r t]
    by (auto simp: shutdown_ok split: prod.splits option.splits bool.splits)
qed (simp add: shutdown_ok)

lemma run_blocking_ok:
  fixes start ts fin
  defines "ok \<equiv> {i. start > 0 \<and> i = start - 1} \<union> (\<Union>t \<in> set (ts @ [fin]). acked t)"
  shows "ack_run_ok get cfg ok (snd (run_blocking commit cfg first_open ts fin start st))"
proof -
  let ?r = "\<lambda>li. \<lparr>rn_listener = li, rn_acks = ack_state_init start, rn_store = st, rn_log = []\<rparr>"
  have r: "ack_run_ok get cfg ok (?r li)" for li
    unfolding ack_run_ok_def
    by (rule exI [of _ "[]"])
      (auto simp: paired_log_def ok_def ack_state_init_def ack_inv_def ack_bound_def)
  have sub: "(\<Union>t \<in> set ts. acked t) \<subseteq> ok" "acked fin \<subseteq> ok" by (auto simp: ok_def)
  note runs = run_polling_ok [OF r sub, of "listener_init cfg start"]
    run_follow_ok [OF r sub, of "(listener_init cfg start)\<lparr>opens := [start]\<rparr>"]
  have "next_start (listener_init cfg start) = start" by (simp add: listener_init_def)
  with runs r show ?thesis
    by (auto simp: run_blocking_def run_follow_loop_def Let_def split: option.splits prod.splits)
qed

end

section \<open>Batches: lemmas\<close>

text \<open>The events that a sequence of receive results contributes.\<close>

fun accepted :: "ListenerConfig \<Rightarrow> recv list \<Rightarrow> ChangelogEventEnvelope list" where
  "accepted cfg [] = []"
| "accepted cfg (Eof # rs) = []"
| "accepted cfg (RecvErr errno # rs) = (if errno = EINTR then accepted cfg rs else [])"
| "accepted cfg (Rec now rx rec # rs) =
     (case accept_record cfg rec of None \<Rightarrow> [] | Some env \<Rightarrow> [env]) @ accepted cfg rs"

fun poll_events :: "ListenerConfig \<Rightarrow> Turn list \<Rightarrow> ChangelogEventEnvelope list" where
  "poll_events cfg [] = []"
| "poll_events cfg (t # ts) =
     (if cancelled t then []
      else (if open_errno t = None then accepted cfg (recvs t) else []) @ poll_events cfg ts)"

abbreviation pushes :: "Deduplicator \<Rightarrow> ChangelogEventEnvelope list \<Rightarrow> Deduplicator" where
  "pushes \<equiv> foldl (\<lambda>d e. fst (dedup_push d e))"

definition batch_limit :: "BatcherConfig \<Rightarrow> nat" where
  "batch_limit c = max 1 (min (flush_batch_size c) (pending_soft_cap c))"

text \<open>
  \<open>windows li es\<close>: the events \<open>es\<close> received so far are a sequence of closed windows, whose
  deduplicated contents were sent as batches, and an open window in the batcher.
\<close>

definition windows :: "Listener \<Rightarrow> ChangelogEventEnvelope list \<Rightarrow> bool" where
  "windows li es =
     (\<exists>ws w. es = concat ws @ w \<and>
        map events (sent li) = filter (\<lambda>b. b \<noteq> []) (map run_dedup ws) \<and>
        dedup (li_batcher li) = pushes dedup_new w \<and>
        pending_count (dedup (li_batcher li)) < batch_limit (ba_cfg (li_batcher li)) \<and>
        (\<forall>b \<in> set (sent li). length (events b) \<le> batch_limit (ba_cfg (li_batcher li)) \<and>
           min_index b = index (hd (events b)) \<and> max_index b = index (last (events b)) \<and>
           eb_mdt b = ba_mdt (li_batcher li)))"

definition window_batch :: "string \<Rightarrow> ChangelogEventEnvelope list \<Rightarrow> EventBatch" where
  "window_batch m evs =
     \<lparr>eb_mdt = m, events = evs, min_index = index (hd evs), max_index = index (last evs)\<rparr>"

lemma flush_window:
  assumes "dedup b = pushes dedup_new w"
  shows "flush b =
    (if run_dedup w = [] then None else Some (window_batch (ba_mdt b) (run_dedup w)),
     b\<lparr>dedup := dedup_new, window_start := None\<rparr>)"
  by (simp add: flush_def assms drain_def run_dedup_def window_batch_def dedup_new_def)

lemma length_run_dedup: "length (run_dedup w) = pending_count (pushes dedup_new w)"
  by (rule run_dedup_facts)

lemma push_count: "pending_count (pushes dedup_new (w @ [e])) \<le> pending_count (pushes dedup_new w) + 1"
proof -
  have inv: "dedup_inv (pushes dedup_new w)" by (rule dd.inv_pushes [OF dedup_inv_new])
  show ?thesis
    using size_mset_mono [OF dd.push_sub [OF inv, of e]] dd.count_size [OF inv]
      dd.count_size [OF dd.inv_push [OF inv, of e]] by simp
qed

definition closed_windows :: "Listener \<Rightarrow> ChangelogEventEnvelope list \<Rightarrow> bool" where
  "closed_windows li es = (windows li es \<and> dedup (li_batcher li) = dedup_new \<and>
     (\<exists>ws. es = concat ws \<and> map events (sent li) = filter (\<lambda>b. b \<noteq> []) (map run_dedup ws)))"

lemma close_window:
  assumes w: "es = concat ws @ w"
    "map events (sent li) = filter (\<lambda>b. b \<noteq> []) (map run_dedup ws)"
    "dedup b = pushes dedup_new w"
    "pending_count (dedup b) \<le> batch_limit (ba_cfg b)"
    "\<forall>x \<in> set (sent li). length (events x) \<le> batch_limit (ba_cfg b) \<and>
       min_index x = index (hd (events x)) \<and> max_index x = index (last (events x)) \<and>
       eb_mdt x = ba_mdt b"
    and s: "send_batch rx (fst (flush b)) (li\<lparr>li_batcher := snd (flush b)\<rparr>) = (True, li')"
  shows "closed_windows li' es"
proof -
  have li': "li' = li\<lparr>li_batcher := b\<lparr>dedup := dedup_new, window_start := None\<rparr>,
      sent := sent li @ (if run_dedup w = [] then [] else [window_batch (ba_mdt b) (run_dedup w)])\<rparr>"
    using s by (auto simp: flush_window [OF w(3)] send_batch_def split: if_splits)
  have new: "pending_count dedup_new < batch_limit (ba_cfg b)"
    by (simp add: pending_count_def dedup_new_def batch_limit_def)
  have len: "length (run_dedup w) \<le> batch_limit (ba_cfg b)"
    using w(3,4) by (simp add: length_run_dedup)
  show ?thesis
    unfolding closed_windows_def windows_def
  proof (intro conjI exI [of _ "ws @ [w]"] exI [of _ "[]"])
    show "es = concat (ws @ [w]) @ []" "es = concat (ws @ [w])" using w(1) by simp_all
    show "map events (sent li') = filter (\<lambda>b. b \<noteq> []) (map run_dedup (ws @ [w]))"
      "map events (sent li') = filter (\<lambda>b. b \<noteq> []) (map run_dedup (ws @ [w]))"
      using w(2) by (simp_all add: li' window_batch_def)
    show "\<forall>b \<in> set (sent li'). length (events b) \<le> batch_limit (ba_cfg (li_batcher li')) \<and>
       min_index b = index (hd (events b)) \<and> max_index b = index (last (events b)) \<and>
       eb_mdt b = ba_mdt (li_batcher li')"
      using w(5) len by (auto simp: li' window_batch_def)
  qed (simp_all add: li' new)
qed

lemma flush_and_send_windows:
  assumes "windows li es" "flush_and_send rx li = (True, li')"
  shows "closed_windows li' es"
proof -
  from assms(1) obtain ws w where "es = concat ws @ w"
    "map events (sent li) = filter (\<lambda>b. b \<noteq> []) (map run_dedup ws)"
    "dedup (li_batcher li) = pushes dedup_new w"
    "pending_count (dedup (li_batcher li)) < batch_limit (ba_cfg (li_batcher li))"
    "\<forall>b \<in> set (sent li). length (events b) \<le> batch_limit (ba_cfg (li_batcher li)) \<and>
       min_index b = index (hd (events b)) \<and> max_index b = index (last (events b)) \<and>
       eb_mdt b = ba_mdt (li_batcher li)"
    unfolding windows_def by blast
  then show ?thesis
    using assms(2) by (intro close_window [of es ws w li "li_batcher li" rx])
      (auto simp: flush_and_send_def split: prod.splits)
qed

lemma batcher_push_parts:
  "ba_cfg (fst (batcher_push now b e)) = ba_cfg b"
  "ba_mdt (fst (batcher_push now b e)) = ba_mdt b"
  "snd (batcher_push now b e) = should_flush now (fst (batcher_push now b e))"
  by (simp_all add: batcher_push_def Let_def)

lemma not_flush_limit: "\<not> should_flush now b \<Longrightarrow> pending_count (dedup b) < batch_limit (ba_cfg b)"
  by (auto simp: should_flush_def Let_def batch_limit_def split: if_splits)

lemma push_and_send_windows:
  assumes "windows li es" "push_and_send now rx env li = (True, li')"
  shows "windows li' (es @ [env])"
proof -
  let ?b = "li_batcher li" let ?b1 = "fst (batcher_push now ?b env)"
  from assms(1) obtain ws w where w: "es = concat ws @ w"
    "map events (sent li) = filter (\<lambda>b. b \<noteq> []) (map run_dedup ws)"
    "dedup ?b = pushes dedup_new w" "pending_count (dedup ?b) < batch_limit (ba_cfg ?b)"
    "\<forall>b \<in> set (sent li). length (events b) \<le> batch_limit (ba_cfg ?b) \<and>
       min_index b = index (hd (events b)) \<and> max_index b = index (last (events b)) \<and>
       eb_mdt b = ba_mdt ?b"
    unfolding windows_def by blast
  have d1: "dedup ?b1 = pushes dedup_new (w @ [env])"
    using w(3) by (simp add: dedup_batcher_push)
  show ?thesis
  proof (cases "snd (batcher_push now ?b env)")
    case True
    have "pending_count (dedup ?b1) \<le> batch_limit (ba_cfg ?b1)"
      using push_count [of w env] w(3,4) d1 by (simp add: batcher_push_parts)
    moreover have "send_batch rx (fst (flush ?b1)) (li\<lparr>li_batcher := snd (flush ?b1)\<rparr>) = (True, li')"
      using assms(2) True by (simp add: push_and_send_def case_prod_beta Let_def)
    ultimately have "closed_windows li' (es @ [env])"
      using w d1 by (intro close_window [of "es @ [env]" ws "w @ [env]" li ?b1 rx])
        (simp_all add: batcher_push_parts)
    then show ?thesis by (simp add: closed_windows_def)
  next
    case False
    then have "li' = li\<lparr>li_batcher := ?b1\<rparr>"
      using assms(2) by (simp add: push_and_send_def case_prod_beta)
    moreover have "pending_count (dedup ?b1) < batch_limit (ba_cfg ?b1)"
      using False by (intro not_flush_limit) (simp add: batcher_push_parts)
    ultimately show ?thesis
      unfolding windows_def
      using w d1 by (intro exI [of _ ws] exI [of _ "w @ [env]"]) (simp add: batcher_push_parts)
  qed
qed

lemma windows_positions [simp]:
  "windows (li\<lparr>next_start := n\<rparr>) es = windows li es" "windows (li\<lparr>opens := ps\<rparr>) es = windows li es"
  by (simp_all add: windows_def)

lemma drain_loop_windows:
  "windows li es \<Longrightarrow> drain_loop cfg rs li = (True, li') \<Longrightarrow> windows li' (es @ accepted cfg rs)"
proof (induction cfg rs li arbitrary: es rule: drain_loop.induct)
  case (4 cfg now rx rec rs li)
  show ?case
  proof (cases "accept_record cfg rec")
    case None
    with 4 show ?thesis by simp
  next
    case (Some env)
    let ?li1 = "li\<lparr>next_start := wrap_i64 (sint (index env) + 1)\<rparr>"
    obtain li2 where li2: "push_and_send now rx env ?li1 = (True, li2)"
      using "4.prems"(2) Some by (auto simp: Let_def split: prod.splits bool.splits)
    then have "windows li2 (es @ [env])"
      using "4.prems"(1) by (intro push_and_send_windows [of ?li1]) simp
    with "4.IH"(2) [OF Some refl li2 [symmetric] refl, of "es @ [env]"] "4.prems"(2) Some li2
    show ?thesis by (simp add: Let_def)
  qed
qed (auto split: if_splits)

lemma windows_init: "windows (listener_init cfg start) []"
  unfolding windows_def listener_init_def
  by (rule exI [of _ "[]"], rule exI [of _ "[]"])
    (simp add: batcher_new_def dedup_new_def pending_count_def batch_limit_def)

lemma turn_acks_listener [simp]: "rn_listener (turn_acks commit cfg t r) = rn_listener r"
  by (simp add: turn_acks_def case_prod_beta Let_def)

lemma closed_windowsD: "closed_windows li es \<Longrightarrow> windows li es"
  by (simp add: closed_windows_def)

lemma shutdown_windows:
  assumes "windows (rn_listener r) es" "rx_open fin"
  shows "closed_windows (rn_listener (shutdown commit cfg fin r)) es"
proof -
  have "flush_and_send (rx_open fin) (rn_listener r) =
      (True, snd (flush_and_send (rx_open fin) (rn_listener r)))"
    using assms(2) by (simp add: flush_and_send_def send_batch_def case_prod_beta Let_def split: option.splits)
  from flush_and_send_windows [OF assms(1) this] show ?thesis by (simp add: shutdown_def)
qed

lemma run_polling_windows:
  assumes "windows (rn_listener r) es" "run_polling_loop commit cfg ts fin r = (None, r')" "rx_open fin"
  shows "closed_windows (rn_listener r') (es @ poll_events cfg ts)"
  using assms(1,2)
proof (induction ts arbitrary: r es)
  case Nil
  with shutdown_windows [OF Nil.prems(1) assms(3), of commit cfg] show ?case by auto
next
  case (Cons t ts)
  show ?case
  proof (cases "cancelled t")
    case True
    with Cons.prems shutdown_windows [OF Cons.prems(1) assms(3), of commit cfg] show ?thesis by auto
  next
    case False
    with Cons.prems(2) obtain r1 where r1: "poll_turn commit cfg t r = (None, r1)"
        "run_polling_loop commit cfg ts fin r1 = (None, r')"
      by (auto split: prod.splits option.splits)
    let ?li0 = "(rn_listener r)\<lparr>opens := opens (rn_listener r) @ [next_start (rn_listener r)]\<rparr>"
    have "windows (rn_listener r1) (es @ (if open_errno t = None then accepted cfg (recvs t) else []))"
    proof (cases "open_errno t")
      case None
      with r1(1) obtain li1 li2 where d: "drain_loop cfg (recvs t) ?li0 = (True, li1)"
          "flush_and_send (rx_open t) li1 = (True, li2)" "rn_listener r1 = li2"
        by (auto simp: poll_turn_def Let_def split: option.splits prod.splits bool.splits)
      have "windows ?li0 es" using Cons.prems(1) by simp
      from flush_and_send_windows [OF drain_loop_windows [OF this d(1)] d(2)] d(3) None
      show ?thesis by (simp add: closed_windowsD)
    next
      case (Some e)
      with r1(1) Cons.prems(1) show ?thesis by (auto simp: poll_turn_def Let_def)
    qed
    from Cons.IH [OF this r1(2)] False show ?thesis by simp
  qed
qed

lemma windows_parts:
  assumes "sorted_wrt (<) (map index (concat ws))"
  shows "sorted_wrt (\<lambda>a b. index (last a) < index (hd b)) (filter (\<lambda>b. b \<noteq> []) (map run_dedup ws))"
  using assms
proof (induction ws)
  case (Cons w ws)
  have sub: "set (run_dedup x) \<subseteq> set x" for x
    using set_mset_mono [OF run_dedup_facts(2)] by simp
  have "index (last (run_dedup w)) < index (hd b)"
    if "run_dedup w \<noteq> []" "b \<in> run_dedup ` set ws" "b \<noteq> []" for b
  proof -
    have "last (run_dedup w) \<in> set w" using sub [of w] that(1) last_in_set by blast
    moreover have "hd b \<in> set (concat ws)" using sub that(2,3) hd_in_set by fastforce
    ultimately show ?thesis using Cons.prems by (auto simp: sorted_wrt_append)
  qed
  with Cons show ?case by (auto simp: sorted_wrt_append)
qed simp

definition quiet_turn :: Turn where
  "quiet_turn =
     \<lparr>cancelled = False, open_errno = None, recvs = [], rx_open = True, acks = [],
      persist_env = Env_ok, clear_res = (\<lambda>_. None)\<rparr>"

definition sample_turns :: "Turn list" where
  "sample_turns =
     [quiet_turn\<lparr>recvs := [Rec 0 True sample_rec, Eof]\<rparr>,
      quiet_turn\<lparr>acks := [\<lparr>ack_mdt = ''m'', committed_index = 1\<rparr>]\<rparr>]"

definition sample_listener :: ListenerConfig where
  "sample_listener = listener_config_default\<lparr>lc_mdt := ''m'', lc_reader_id := ''cl1''\<rparr>"

lemmas run_simps = run_blocking_def sample_listener_def listener_config_default_def
  sample_turns_def quiet_turn_def poll_turn_def accept_record_def parse_event_def parse_payload_def
  parse_jobid_def sample_rec_def push_and_send_def batcher_push_def dedup_push_def queue_of_def
  should_flush_def pending_count_def batcher_config_default_def flush_and_send_def flush_def drain_def
  send_batch_def turn_acks_def process_acks_def take_ack_def persist_cursor_def shutdown_def
  listener_init_def batcher_new_def dedup_new_def ack_state_init_def mariadb_commit_def

section \<open>Properties\<close>

text \<open>
  C1: whatever the outside does (failed opens, receives, cursor commits and clears, a
  consumer that goes away, any acknowledgements), a run of the listener in either mode
  clears the server's log only directly after a successful commit of the same index,
  clears in non-decreasing order, clears only indices that the consumer acknowledged or
  that precede the start position, and ends with a cursor that covers all of them.
\<close>

theorem listener_clears_safe:
  fixes fails now fs cfg first_open ts fin start tbl
  defines "r \<equiv> snd (run_blocking (mariadb_commit fails now fs) cfg first_open ts fin start tbl)"
  shows "\<exists>cs. rn_log r = paired_log (lc_mdt cfg) (lc_reader_id cfg) cs \<and> sorted cs \<and>
     set cs \<subseteq> {i. start > 0 \<and> i = start - 1} \<union> (\<Union>t \<in> set (ts @ [fin]). acked t) \<and>
     (\<forall>i \<in> set cs. \<exists>v. mariadb_get fs (rn_store r) (lc_mdt cfg) = Some v \<and> word_of_int i \<le> v)"
  using maria.run_blocking_ok [of fs cfg start ts fin fails now first_open tbl]
  unfolding r_def ack_run_ok_def by blast

theorem listener_clears_safe_witness:
  "rn_log (snd (run_blocking (mariadb_commit (\<lambda>_ _ _. None) 0 ''a'') sample_listener None
      sample_turns quiet_turn 0 [])) = paired_log ''m'' ''cl1'' [1] \<and>
   (\<exists>cs. rn_log (snd (run_blocking (mariadb_commit (\<lambda>_ _ _. None) 0 ''a'') sample_listener None
      sample_turns quiet_turn 0 [])) = paired_log ''m'' ''cl1'' cs \<and> sorted cs)"
proof
  show "rn_log (snd (run_blocking (mariadb_commit (\<lambda>_ _ _. None) 0 ''a'') sample_listener None
      sample_turns quiet_turn 0 [])) = paired_log ''m'' ''cl1'' [1]"
    by (simp add: run_simps paired_log_def Let_def)
  show "\<exists>cs. rn_log (snd (run_blocking (mariadb_commit (\<lambda>_ _ _. None) 0 ''a'') sample_listener None
      sample_turns quiet_turn 0 [])) = paired_log ''m'' ''cl1'' cs \<and> sorted cs"
    using listener_clears_safe [of "\<lambda>_ _ _. None" 0 "''a''" sample_listener None sample_turns
        quiet_turn 0 "[]"]
    by (auto simp: sample_listener_def)
qed

text \<open>
  C10: the polling listener delivers everything it receives. When it stops without an error
  and the consumer takes the last batch, the events of the records it received, in order,
  are a sequence of windows whose deduplicated contents are exactly the batches sent, and
  no batch is larger than the configured limits.
\<close>

theorem polling_delivers:
  assumes "run_polling_loop commit cfg ts fin
      \<lparr>rn_listener = listener_init cfg start, rn_acks = a, rn_store = st, rn_log = []\<rparr> = (None, r)"
    and "rx_open fin"
  shows "(\<exists>ws. concat ws = poll_events cfg ts \<and>
            map events (sent (rn_listener r)) = filter (\<lambda>b. b \<noteq> []) (map run_dedup ws)) \<and>
         (\<forall>b \<in> set (sent (rn_listener r)).
            length (events b) \<le> batch_limit (ba_cfg (li_batcher (rn_listener r)))) \<and>
         batcher_is_empty (li_batcher (rn_listener r))"
proof -
  have "closed_windows (rn_listener r) (poll_events cfg ts)"
    using run_polling_windows [OF _ assms, of "[]"] by (simp add: windows_init)
  then show ?thesis
    unfolding closed_windows_def windows_def
    by (auto simp: batcher_is_empty_def pending_count_def dedup_new_def)
qed

theorem polling_delivers_witness:
  "fst (run_polling_loop memory_commit sample_listener sample_turns quiet_turn
      \<lparr>rn_listener = listener_init sample_listener 0, rn_acks = ack_state_init 0,
       rn_store = Map.empty, rn_log = []\<rparr>) = None \<and>
   batcher_is_empty (li_batcher (rn_listener (snd (run_polling_loop memory_commit sample_listener
      sample_turns quiet_turn
      \<lparr>rn_listener = listener_init sample_listener 0, rn_acks = ack_state_init 0,
       rn_store = Map.empty, rn_log = []\<rparr>))))" (is "fst ?run = None \<and> _")
proof -
  have none: "fst ?run = None" by (simp add: run_simps memory_commit_def Let_def)
  then have run: "?run = (None, snd ?run)" by (metis prod.collapse)
  have "rx_open quiet_turn" by (simp add: quiet_turn_def)
  from polling_delivers [OF run this] none show ?thesis by (intro conjI) simp_all
qed

text \<open>
  When the record indices of the stream increase, the batches cover increasing,
  disjoint index ranges, so that acknowledging the last index of a batch never covers an
  event of a later one.
\<close>

theorem polling_batches_ordered:
  assumes "run_polling_loop commit cfg ts fin
      \<lparr>rn_listener = listener_init cfg start, rn_acks = a, rn_store = st, rn_log = []\<rparr> = (None, r)"
    and "rx_open fin" "sorted_wrt (<) (map index (poll_events cfg ts))"
  shows "sorted_wrt (\<lambda>b c. max_index b < min_index c) (sent (rn_listener r)) \<and>
    (\<forall>b \<in> set (sent (rn_listener r)). \<forall>e \<in> set (events b). min_index b \<le> index e \<and> index e \<le> max_index b)"
proof -
  have "closed_windows (rn_listener r) (poll_events cfg ts)"
    using run_polling_windows [OF _ assms(1,2), of "[]"] by (simp add: windows_init)
  then obtain ws where ws: "poll_events cfg ts = concat ws"
      "map events (sent (rn_listener r)) = filter (\<lambda>b. b \<noteq> []) (map run_dedup ws)"
    and b: "\<forall>b \<in> set (sent (rn_listener r)).
      min_index b = index (hd (events b)) \<and> max_index b = index (last (events b))"
    unfolding closed_windows_def windows_def by blast
  have "sorted_wrt (\<lambda>a b. index (last a) < index (hd b)) (map events (sent (rn_listener r)))"
    using windows_parts [of ws] assms(3) ws by simp
  then have "sorted_wrt (\<lambda>b c. max_index b < min_index c) (sent (rn_listener r))"
    unfolding sorted_wrt_map by (rule sorted_wrt_mono_rel [rotated]) (use b in simp)
  moreover have "min_index x \<le> index e \<and> index e \<le> max_index x"
    if "x \<in> set (sent (rn_listener r))" "e \<in> set (events x)" for x e
  proof -
    from that(1) have "events x \<in> set (map events (sent (rn_listener r)))" by simp
    then obtain w where "events x = run_dedup w" unfolding ws(2) by auto
    then have "sorted (map index (events x))" by (simp add: run_dedup_facts)
    with that(2) have "hd (map index (events x)) \<le> index e \<and> index e \<le> last (map index (events x))"
      by (intro sorted_hd_last) auto
    with that b show ?thesis by (cases "events x = []") (auto simp: hd_map last_map)
  qed
  ultimately show ?thesis by blast
qed

theorem polling_batches_ordered_witness:
  "poll_events sample_listener sample_turns \<noteq> [] \<and>
   sorted_wrt (\<lambda>b c. max_index b < min_index c) (sent (rn_listener (snd (run_polling_loop
      memory_commit sample_listener sample_turns quiet_turn
      \<lparr>rn_listener = listener_init sample_listener 0, rn_acks = ack_state_init 0,
       rn_store = Map.empty, rn_log = []\<rparr>))))"
  (is "_ \<and> sorted_wrt _ (sent (rn_listener (snd ?run)))")
proof -
  have "fst ?run = None" by (simp add: run_simps memory_commit_def Let_def)
  then have run: "?run = (None, snd ?run)" by (metis prod.collapse)
  have rx: "rx_open quiet_turn" by (simp add: quiet_turn_def)
  have len: "length (poll_events sample_listener sample_turns) = 1"
    by (simp add: run_simps Let_def)
  then have "sorted_wrt (<) (map index (poll_events sample_listener sample_turns))"
    by (cases "poll_events sample_listener sample_turns") auto
  from polling_batches_ordered [OF run rx this] len show ?thesis
    by (cases "poll_events sample_listener sample_turns") simp_all
qed

text \<open>
  C25: a round with a working store and server makes progress: nothing stays pending, the
  position reaches every acknowledgement that has arrived, and it moves only with the commit of
  the new position followed by the call that clears the log up to it. The server accepts the
  call or answers \<open>EINVAL\<close>, its answer for records older than the registration of the reader,
  which the code takes as cleared.
\<close>

theorem process_acks_progress:
  assumes "ack_inv state" "\<forall>i. clear i = None \<or> clear i = Some EINVAL"
    and "process_acks (mariadb_commit (\<lambda>_ _ _. None) now fs) Env_ok clear m reader ks state tbl =
      (state', tbl', log)"
  shows "ack_pending state' = None \<and> last_cleared state \<le> last_cleared state' \<and>
    (\<forall>k \<in> set ks. sint (committed_index k) \<le> last_cleared state') \<and>
    (last_cleared state' = last_cleared state \<and> log = [] \<or>
     log = [Committed m (word_of_int (last_cleared state')), Clear m reader (last_cleared state')])"
proof -
  let ?s1 = "foldl take_ack state ks"
  note s1 = take_acks_facts [OF assms(1), of ks]
  have c: "clear i = Some e \<Longrightarrow> e = EINVAL" for i e
    using assms(2) by (metis option.distinct(1) option.inject)
  from assms(3) have bound: "ack_pending state' = None \<and> last_cleared state' = ack_bound ?s1"
    by (auto simp: process_acks_def persist_cursor_def mariadb_commit_def Let_def ack_bound_def
        split: option.splits if_splits dest: c)
  have "ack_pending ?s1 = None \<and> log = [] \<or>
      log = [Committed m (word_of_int (last_cleared state')), Clear m reader (last_cleared state')]"
    using assms(3) bound
    by (auto simp: process_acks_def persist_cursor_def mariadb_commit_def Let_def ack_bound_def
        split: option.splits if_splits dest: c)
  moreover have "last_cleared state' = last_cleared state" if "ack_pending ?s1 = None"
    using that bound s1 by (simp add: ack_bound_def)
  ultimately show ?thesis using bound s1 take_acks_ge [OF assms(1)] assms(1) by (auto simp: ack_inv_def)
qed

theorem process_acks_progress_witness:
  "last_cleared (fst (process_acks (mariadb_commit (\<lambda>_ _ _. None) 0 ''a'') Env_ok (\<lambda>_. None) ''m''
      ''cl1'' [\<lparr>ack_mdt = ''m'', committed_index = 7\<rparr>] (ack_state_init 4) [])) = 7 \<and>
   ack_pending (fst (process_acks (mariadb_commit (\<lambda>_ _ _. None) 0 ''a'') Env_ok (\<lambda>_. None) ''m''
      ''cl1'' [\<lparr>ack_mdt = ''m'', committed_index = 7\<rparr>] (ack_state_init 4) [])) = None"
  (is "last_cleared (fst ?p) = 7 \<and> _")
proof -
  have "?p = (fst ?p, fst (snd ?p), snd (snd ?p))" by simp
  from process_acks_progress [OF ack_inv_init _ this]
  have "ack_pending (fst ?p) = None" by blast
  moreover have "last_cleared (fst ?p) = 7"
    by (simp add: process_acks_def take_ack_def ack_state_init_def persist_cursor_def
        mariadb_commit_def Let_def)
  ultimately show ?thesis by blast
qed

end
