(* ===== verification/Rbh_Model.thy ===== *)
theory Rbh_Model
  imports Rbh_Fid
begin

text \<open>
  The domain types of the catalog (\<open>crates/rbh-entry-store/src/model.rs\<close>): filesystem
  identifiers, backends and their capabilities, object identities and entry keys, the
  entry rows of both catalogs and the projections between them, and the key columns of
  object identities (\<open>encode_object_id\<close>, \<open>decode_object_id\<close> of
  \<open>crates/rbh-entry-store/src/store.rs\<close>).

  The attributes that \<open>EntryRow\<close> and \<open>ScopedEntryRow\<close> share, which are the accessors of
  the trait \<open>EntryView\<close> of \<open>crates/rbh-predicate/src/eval.rs\<close>, are the base record
  \<open>EntryView\<close> of both. A \<open>serde_json::Value\<close> is \<open>json\<close>; the map of an object is an
  association list in key order.
\<close>

section \<open>JSON values\<close>

datatype json =
    JNull | JBool bool | JNum int | JFloat string | JStr string | JArr "json list"
  | JObj "(string \<times> json) list"

fun json_get :: "string \<Rightarrow> json \<Rightarrow> json option" where
  "json_get k (JObj kvs) = map_of kvs k"
| "json_get k _ = None"

fun as_str :: "json \<Rightarrow> string option" where
  "as_str (JStr s) = Some s"
| "as_str _ = None"

fun as_object :: "json \<Rightarrow> (string \<times> json) list option" where
  "as_object (JObj kvs) = Some kvs"
| "as_object _ = None"

fun as_i64 :: "json \<Rightarrow> i64 option" where
  "as_i64 (JNum n) = (if i64_min \<le> n \<and> n \<le> i64_max then Some n else None)"
| "as_i64 _ = None"

fun as_u64 :: "json \<Rightarrow> u64 option" where
  "as_u64 (JNum n) = (if 0 \<le> n \<and> n < 2 ^ 64 then Some (word_of_int n) else None)"
| "as_u64 _ = None"

text \<open>\<open>Map::insert\<close> and \<open>Map::remove\<close> on a map that is kept in key order.\<close>

fun json_insert :: "string \<Rightarrow> json \<Rightarrow> (string \<times> json) list \<Rightarrow> (string \<times> json) list" where
  "json_insert k v [] = [(k, v)]"
| "json_insert k v ((k', v') # kvs) =
     (if k = k' then (k, v) # kvs
      else if k < k' then (k, v) # (k', v') # kvs
      else (k', v') # json_insert k v kvs)"

definition json_remove :: "string \<Rightarrow> (string \<times> json) list \<Rightarrow> (string \<times> json) list" where
  "json_remove k kvs = filter (\<lambda>(k', v). k' \<noteq> k) kvs"

section \<open>Filesystems\<close>

datatype FileSystemIdError = Empty | TooLong nat | InvalidCharacter

definition is_ascii_alphanumeric :: "char \<Rightarrow> bool" where
  "is_ascii_alphanumeric c =
     (let n = of_char c :: nat in 48 \<le> n \<and> n \<le> 57 \<or> 65 \<le> n \<and> n \<le> 90 \<or> 97 \<le> n \<and> n \<le> 122)"

definition MAX_LEN :: nat where
  "MAX_LEN = 64"

definition filesystem_id_new :: "string \<Rightarrow> FileSystemIdError + string" where
  "filesystem_id_new value =
     (if value = [] then Inl Empty
      else if length value > MAX_LEN then Inl (TooLong (length value))
      else if \<not> list_all (\<lambda>b. is_ascii_alphanumeric b \<or> b \<in> {CHR ''-'', CHR ''_'', CHR ''.''}) value
      then Inl InvalidCharacter
      else Inr value)"

datatype BackendKind = Lustre | JuiceFs

fun backend_as_str :: "BackendKind \<Rightarrow> string" where
  "backend_as_str Lustre = ''lustre''"
| "backend_as_str JuiceFs = ''juice_fs''"

definition from_persisted :: "string \<Rightarrow> string + BackendKind" where
  "from_persisted value =
     (if value = ''lustre'' then Inr Lustre
      else if value = ''juice_fs'' then Inr JuiceFs
      else Inl value)"

record BackendCapabilities =
  changelog :: bool
  namespace :: bool
  purge :: bool
  hsm :: bool
  stripe :: bool
  ost :: bool

record FileSystemConfig =
  fs_id :: string
  fs_backend :: BackendKind
  mount_path :: string
  capabilities :: BackendCapabilities

section \<open>Identities\<close>

datatype ObjectId = OLustre LuFid | OJuiceFs u64

fun object_backend :: "ObjectId \<Rightarrow> BackendKind" where
  "object_backend (OLustre _) = Lustre"
| "object_backend (OJuiceFs _) = JuiceFs"

datatype EntryKey = EntryKey (key_filesystem: string) (key_object: ObjectId)

definition encode_object_id :: "ObjectId \<Rightarrow> u8 \<times> u8 list" where
  "encode_object_id object =
     (case object of
        OLustre f \<Rightarrow> (0, fid_encode f)
      | OJuiceFs inode \<Rightarrow> (1, replicate 8 0 @ be_bytes 8 (unat inode)))"

definition decode_object_id :: "u8 \<Rightarrow> u8 list \<Rightarrow> string + ObjectId" where
  "decode_object_id kind bs =
     (if kind = 0 then
        (case fid_decode bs of
           Some f \<Rightarrow> Inr (OLustre f)
         | None \<Rightarrow> Inl ''invalid Lustre object id'')
      else if kind = 1 \<and> length bs = 16 then Inr (OJuiceFs (word_of_nat (be_val (drop 8 bs))))
      else Inl ''invalid scoped object id'')"

section \<open>Entries\<close>

datatype EntryKind = File | Directory | Symlink | CharDevice | BlockDevice | Fifo | Socket

fun kind_to_u8 :: "EntryKind \<Rightarrow> u8" where
  "kind_to_u8 File = 0"
| "kind_to_u8 Directory = 1"
| "kind_to_u8 Symlink = 2"
| "kind_to_u8 CharDevice = 3"
| "kind_to_u8 BlockDevice = 4"
| "kind_to_u8 Fifo = 5"
| "kind_to_u8 Socket = 6"

definition kind_from_u8 :: "u8 \<Rightarrow> EntryKind option" where
  "kind_from_u8 v =
     (if v = 0 then Some File else if v = 1 then Some Directory else if v = 2 then Some Symlink
      else if v = 3 then Some CharDevice else if v = 4 then Some BlockDevice
      else if v = 5 then Some Fifo else if v = 6 then Some Socket else None)"

record EntryView =
  e_name :: bytes
  e_kind :: EntryKind
  e_size :: u64
  e_blocks :: u64
  e_uid :: u32
  e_gid :: u32
  e_projid :: u32
  e_mode :: u32
  e_nlink :: u32
  e_atime :: i64
  e_mtime :: i64
  e_ctime :: i64
  e_stripe_count :: "u16 option"
  e_stripe_size :: "u32 option"
  e_stripe_items :: "u32 list"
  e_pool_name :: "string option"
  e_sm_status :: json
  e_last_seen :: i64
  e_depth :: u32

record EntryRow = EntryView +
  er_fid :: LuFid
  er_parent_fid :: "LuFid option"

record ScopedEntryRow = EntryView +
  se_key :: EntryKey
  se_parent :: "EntryKey option"

record ScopedNamespaceEdge =
  ed_filesystem :: string
  ed_parent :: ObjectId
  ed_name :: bytes
  ed_object :: ObjectId

datatype BaselineState = Scanning | CatchingUp | Ready | Invalid

fun baseline_as_str :: "BaselineState \<Rightarrow> string" where
  "baseline_as_str Scanning = ''scanning''"
| "baseline_as_str CatchingUp = ''catching_up''"
| "baseline_as_str Ready = ''ready''"
| "baseline_as_str Invalid = ''invalid''"

record FilesystemBaseline =
  bl_state :: BaselineState
  scan_started_at :: "i64 option"
  completed_at :: "i64 option"
  last_version :: "u64 option"
  invalid_reason :: "string option"

definition from_lustre :: "string \<Rightarrow> EntryRow \<Rightarrow> ScopedEntryRow" where
  "from_lustre filesystem entry =
     \<lparr>e_name = e_name entry, e_kind = e_kind entry, e_size = e_size entry,
      e_blocks = e_blocks entry, e_uid = e_uid entry, e_gid = e_gid entry,
      e_projid = e_projid entry, e_mode = e_mode entry, e_nlink = e_nlink entry,
      e_atime = e_atime entry, e_mtime = e_mtime entry, e_ctime = e_ctime entry,
      e_stripe_count = e_stripe_count entry, e_stripe_size = e_stripe_size entry,
      e_stripe_items = e_stripe_items entry, e_pool_name = e_pool_name entry,
      e_sm_status = e_sm_status entry, e_last_seen = e_last_seen entry,
      e_depth = e_depth entry,
      se_key = EntryKey filesystem (OLustre (er_fid entry)),
      se_parent = map_option (\<lambda>f. EntryKey filesystem (OLustre f)) (er_parent_fid entry)\<rparr>"

definition to_lustre_compat :: "ScopedEntryRow \<Rightarrow> EntryRow option" where
  "to_lustre_compat entry =
     (case key_object (se_key entry) of
        OJuiceFs _ \<Rightarrow> None
      | OLustre f \<Rightarrow>
        (case map_option key_object (se_parent entry) of
           Some (OJuiceFs _) \<Rightarrow> None
         | parent \<Rightarrow>
             Some \<lparr>e_name = e_name entry, e_kind = e_kind entry, e_size = e_size entry,
               e_blocks = e_blocks entry, e_uid = e_uid entry, e_gid = e_gid entry,
               e_projid = e_projid entry, e_mode = e_mode entry, e_nlink = e_nlink entry,
               e_atime = e_atime entry, e_mtime = e_mtime entry, e_ctime = e_ctime entry,
               e_stripe_count = e_stripe_count entry, e_stripe_size = e_stripe_size entry,
               e_stripe_items = e_stripe_items entry, e_pool_name = e_pool_name entry,
               e_sm_status = e_sm_status entry, e_last_seen = e_last_seen entry,
               e_depth = e_depth entry,
               er_fid = f,
               er_parent_fid = (case parent of Some (OLustre p) \<Rightarrow> Some p | _ \<Rightarrow> None)\<rparr>))"

section \<open>Lemmas\<close>

lemma map_of_json_insert [simp]:
  "map_of (json_insert k v kvs) k' = (if k' = k then Some v else map_of kvs k')"
  by (induction kvs) auto

lemma map_of_json_remove [simp]:
  "map_of (json_remove k kvs) k' = (if k' = k then None else map_of kvs k')"
  by (induction kvs) (auto simp: json_remove_def)

lemma keys_json_insert: "set (map fst (json_insert k v kvs)) = insert k (set (map fst kvs))"
  by (induction k v kvs rule: json_insert.induct) (auto simp del: set_map)

lemma sorted_json_insert:
  "sorted_wrt (<) (map fst kvs) \<Longrightarrow> sorted_wrt (<) (map fst (json_insert k v kvs))"
proof (induction kvs)
  case (Cons a kvs)
  have "\<forall>x \<in> set (map fst (json_insert k v kvs)). fst a < x" if "fst a < k"
    using Cons.prems that unfolding keys_json_insert by simp
  with Cons show ?case by (cases a) (auto simp: not_less order_le_less)
qed simp

lemma kind_u8_roundtrip: "kind_from_u8 (kind_to_u8 k) = Some k"
  by (cases k) (simp_all add: kind_from_u8_def)

lemma kind_from_u8_Some: "kind_from_u8 v = Some k \<longleftrightarrow> v = kind_to_u8 k"
  by (cases k) (auto simp: kind_from_u8_def)

lemma backend_roundtrip: "from_persisted (backend_as_str b) = Inr b"
  by (cases b) (simp_all add: from_persisted_def)

lemma object_id_length [simp]: "length (snd (encode_object_id x)) = 16"
  by (cases x) (simp_all add: encode_object_id_def)

lemma decode_encode_object:
  "decode_object_id (fst (encode_object_id x)) (snd (encode_object_id x)) = Inr x"
proof (cases x)
  case (OLustre f)
  then show ?thesis by (simp add: encode_object_id_def decode_object_id_def decode_encode)
next
  case (OJuiceFs i)
  have "be_val (be_bytes 8 (unat i)) = unat i"
    using unat_bounds(4) [of i] by (simp add: be_val_be_bytes)
  with OJuiceFs show ?thesis by (simp add: encode_object_id_def decode_object_id_def)
qed

lemma encode_object_id_inj: "encode_object_id x = encode_object_id y \<longleftrightarrow> x = y"
  by (metis decode_encode_object sum.inject(2))

lemma compat_from_lustre: "to_lustre_compat (from_lustre fs e) = Some e"
  by (cases "er_parent_fid e") (simp_all add: to_lustre_compat_def from_lustre_def)

lemma compat_None:
  "to_lustre_compat r = None \<longleftrightarrow>
     object_backend (key_object (se_key r)) = JuiceFs \<or>
     (\<exists>p. se_parent r = Some p \<and> object_backend (key_object p) = JuiceFs)"
  by (auto simp: to_lustre_compat_def split: option.splits ObjectId.splits)

lemma from_lustre_compat:
  assumes "to_lustre_compat r = Some e'"
    and "\<forall>p. se_parent r = Some p \<longrightarrow> key_filesystem p = key_filesystem (se_key r)"
  shows "from_lustre (key_filesystem (se_key r)) e' = r"
proof -
  obtain f where f: "se_key r = EntryKey (key_filesystem (se_key r)) (OLustre f)"
    using assms(1) by (cases "se_key r") (auto simp: to_lustre_compat_def split: ObjectId.splits)
  have p: "se_parent r = None \<or>
      (\<exists>g. se_parent r = Some (EntryKey (key_filesystem (se_key r)) (OLustre g)))"
  proof (cases "se_parent r")
    case (Some q)
    with assms f show ?thesis
      by (cases q; cases "key_object q") (auto simp: to_lustre_compat_def split: ObjectId.splits)
  qed simp
  from p show ?thesis
  proof
    assume "se_parent r = None"
    with assms(1) f show ?thesis
      by (cases r, cases "se_key r") (auto simp: to_lustre_compat_def from_lustre_def)
  next
    assume "\<exists>g. se_parent r = Some (EntryKey (key_filesystem (se_key r)) (OLustre g))"
    with assms(1) f show ?thesis
      by (cases r, cases "se_key r") (auto simp: to_lustre_compat_def from_lustre_def)
  qed
qed

definition sample_attrs :: EntryRow where
  "sample_attrs =
     \<lparr>e_name = ''report_2026.csv'', e_kind = File, e_size = 5000000, e_blocks = 4096,
      e_uid = 1000, e_gid = 100, e_projid = 0, e_mode = 420, e_nlink = 1,
      e_atime = 1775955820, e_mtime = 1775000000, e_ctime = 1775000000,
      e_stripe_count = Some 2, e_stripe_size = Some 4194304, e_stripe_items = [0, 1],
      e_pool_name = Some ''ssd'', e_sm_status = JObj [], e_last_seen = 1775955820, e_depth = 2,
      er_fid = LuFid 0x200000401 0x42 0, er_parent_fid = Some (LuFid 0x200000401 1 0)\<rparr>"

section \<open>Properties\<close>

text \<open>
  The key columns identify objects: decoding the encoded identity gives it back,
  different objects have different key columns, whichever backend they belong to, and a
  successful decoding of kind 0 comes from exactly the buffer that encodes the result.
\<close>

theorem object_id_codec:
  "decode_object_id (fst (encode_object_id x)) (snd (encode_object_id x)) = Inr x \<and>
   (encode_object_id x = encode_object_id y \<longleftrightarrow> x = y) \<and>
   (decode_object_id 0 bs = Inr x \<longleftrightarrow> encode_object_id x = (0, bs))"
proof -
  have "decode_object_id 0 bs = Inr x \<longleftrightarrow> encode_object_id x = (0, bs)"
    using decode_encode encode_decode
    by (cases x) (auto simp: decode_object_id_def encode_object_id_def split: option.splits)
  then show ?thesis by (simp add: decode_encode_object encode_object_id_inj)
qed

text \<open>
  Scoping a Lustre row and projecting it back is the identity, and a row is projected
  exactly when neither it nor its parent is a JuiceFS object; then the projection scopes to
  the row it came from, if that row's parent lies in the same filesystem.
\<close>

theorem lustre_projection:
  "to_lustre_compat (from_lustre fs e) = Some e \<and>
   (to_lustre_compat r = None \<longleftrightarrow>
      object_backend (key_object (se_key r)) = JuiceFs \<or>
      (\<exists>p. se_parent r = Some p \<and> object_backend (key_object p) = JuiceFs)) \<and>
   (\<forall>e'. to_lustre_compat r = Some e' \<and>
      (\<forall>p. se_parent r = Some p \<longrightarrow> key_filesystem p = key_filesystem (se_key r)) \<longrightarrow>
      from_lustre (key_filesystem (se_key r)) e' = r)"
  by (intro conjI allI impI compat_from_lustre compat_None, elim conjE, rule from_lustre_compat)

theorem lustre_projection_witness:
  "to_lustre_compat (from_lustre ''lustre-a'' sample_attrs) = Some sample_attrs \<and>
   from_lustre (key_filesystem (se_key (from_lustre ''lustre-a'' sample_attrs))) sample_attrs =
     from_lustre ''lustre-a'' sample_attrs" (is "_ \<and> _ = ?r")
proof
  show c: "to_lustre_compat ?r = Some sample_attrs"
    by (rule lustre_projection [THEN conjunct1])
  have "\<forall>p. se_parent ?r = Some p \<longrightarrow> key_filesystem p = key_filesystem (se_key ?r)"
    by (simp add: from_lustre_def sample_attrs_def)
  with c show "from_lustre (key_filesystem (se_key ?r)) sample_attrs = ?r"
    by (intro lustre_projection [THEN conjunct2, THEN conjunct2, THEN spec, THEN mp] conjI)
qed

text \<open>
  Exactly the non-empty strings of at most 64 letters, digits, dashes, underscores
  and dots are filesystem identifiers, and they are kept as they are.
\<close>

theorem filesystem_id_valid:
  "filesystem_id_new s = Inr i \<longleftrightarrow>
     i = s \<and> 0 < length s \<and> length s \<le> 64 \<and>
     set s \<subseteq> {c. is_ascii_alphanumeric c} \<union> set ''-_.''"
  by (auto simp: filesystem_id_new_def MAX_LEN_def list_all_iff)

end
