(* ===== verification/Rbh_Store.thy ===== *)
theory Rbh_Store
  imports Rbh_Model "HOL-Library.AList" "HOL-Library.Product_Lexorder"
begin

text \<open>
  The filesystem-scoped catalog of \<open>EntryStore\<close>
  (\<open>crates/rbh-entry-store/src/store.rs\<close>) on the rows of its tables, with the primary and
  foreign keys of \<open>crates/rbh-entry-store/migrations\<close>.

  A table is an association list from its primary key to the other columns. The key
  columns \<open>(object_kind, object_id)\<close> of an object are the object itself, since
  \<open>encode_object_id\<close> is injective. A row of \<open>scoped_entries\<close> holds the entry that its JSON
  payload denotes. Every operation gives its result and the catalog after it: a
  transaction that fails leaves the catalog as it was, while an operation made of several
  statements keeps what was done before the failure. A database that fails for reasons of
  its own is outside the model, and so are filesystem identifiers that the collation of
  the key columns identifies. \<open>Panic\<close> is not an error value of the source but an unwinding.
\<close>

section \<open>Tables\<close>

datatype StoreError =
    Sqlx string
  | NotFound LuFid
  | FidCodec string
  | InvalidObjectIdentity string
  | UnknownFilesystem string
  | BackendMismatch string BackendKind BackendKind
  | Panic string

type_synonym edge_key = "string \<times> ObjectId \<times> bytes"

record Catalog =
  filesystems :: "(string \<times> FileSystemConfig) list"
  scoped_entries :: "(EntryKey \<times> ScopedEntryRow) list"
  scoped_edges :: "(edge_key \<times> ObjectId) list"
  scoped_removed :: "(EntryKey \<times> ScopedEntryRow \<times> i64) list"
  scoped_stripes :: "((EntryKey \<times> u16) \<times> u32) list"
  baselines :: "(string \<times> FilesystemBaseline) list"

type_synonym 'a result = "(StoreError + 'a) \<times> Catalog"

definition empty_catalog :: Catalog where
  "empty_catalog =
     \<lparr>filesystems = [], scoped_entries = [], scoped_edges = [], scoped_removed = [],
      scoped_stripes = [], baselines = []\<rparr>"

definition fk_ok :: "Catalog \<Rightarrow> string \<Rightarrow> bool" where
  "fk_ok c fs = (map_of (filesystems c) fs \<noteq> None)"

definition fk_error :: StoreError where
  "fk_error = Sqlx ''foreign key constraint fails''"

text \<open>A transaction: an error leaves the catalog as it was.\<close>

definition in_tx :: "Catalog \<Rightarrow> StoreError + Catalog \<Rightarrow> unit result" where
  "in_tx c res = (case res of Inl e \<Rightarrow> (Inl e, c) | Inr c' \<Rightarrow> (Inr (), c'))"

section \<open>Filesystems\<close>

definition register_filesystem :: "Catalog \<Rightarrow> FileSystemConfig \<Rightarrow> Catalog" where
  "register_filesystem c config =
     c\<lparr>filesystems := AList.update (fs_id config) config (filesystems c)\<rparr>"

definition get_filesystem :: "Catalog \<Rightarrow> string \<Rightarrow> FileSystemConfig option" where
  "get_filesystem c fs = map_of (filesystems c) fs"

definition list_filesystems :: "Catalog \<Rightarrow> FileSystemConfig list" where
  "list_filesystems c = map snd (sort_key fst (filesystems c))"

section \<open>Entries\<close>

definition upsert_scoped_entry_tx :: "Catalog \<Rightarrow> ScopedEntryRow \<Rightarrow> StoreError + Catalog" where
  "upsert_scoped_entry_tx c entry =
     (if (case se_parent entry of
            Some parent \<Rightarrow> key_filesystem parent \<noteq> key_filesystem (se_key entry)
          | None \<Rightarrow> False)
      then Inl (InvalidObjectIdentity ''entry parent belongs to another filesystem'')
      else if \<not> fk_ok c (key_filesystem (se_key entry)) then Inl fk_error
      else Inr (c\<lparr>scoped_entries := AList.update (se_key entry) entry (scoped_entries c)\<rparr>))"

definition backend_mismatch :: "Catalog \<Rightarrow> EntryKey \<Rightarrow> StoreError option" where
  "backend_mismatch c key =
     (case get_filesystem c (key_filesystem key) of
        Some config \<Rightarrow>
          if fs_backend config \<noteq> object_backend (key_object key)
          then Some (BackendMismatch (key_filesystem key) (fs_backend config)
                       (object_backend (key_object key)))
          else None
      | None \<Rightarrow> None)"

definition upsert_scoped_entry :: "Catalog \<Rightarrow> ScopedEntryRow \<Rightarrow> unit result" where
  "upsert_scoped_entry c entry =
     (case backend_mismatch c (se_key entry) of
        Some e \<Rightarrow> (Inl e, c)
      | None \<Rightarrow> in_tx c (upsert_scoped_entry_tx c entry))"

fun upsert_rows ::
  "string \<Rightarrow> BackendKind \<Rightarrow> ScopedEntryRow list \<Rightarrow> Catalog \<Rightarrow> StoreError + Catalog" where
  "upsert_rows fs backend [] c = Inr c"
| "upsert_rows fs backend (entry # entries) c =
     (if key_filesystem (se_key entry) \<noteq> fs
      then Inl (InvalidObjectIdentity ''scoped batch mixes filesystems'')
      else if backend \<noteq> object_backend (key_object (se_key entry))
      then Inl (BackendMismatch fs backend (object_backend (key_object (se_key entry))))
      else (case upsert_scoped_entry_tx c entry of
              Inl e \<Rightarrow> Inl e
            | Inr c' \<Rightarrow> upsert_rows fs backend entries c'))"

definition upsert_scoped_batch :: "Catalog \<Rightarrow> ScopedEntryRow list \<Rightarrow> unit result" where
  "upsert_scoped_batch c entries =
     (case entries of
        [] \<Rightarrow> (Inr (), c)
      | entry # _ \<Rightarrow>
        (let fs = key_filesystem (se_key entry)
         in case get_filesystem c fs of
              None \<Rightarrow> (Inl (UnknownFilesystem fs), c)
            | Some config \<Rightarrow> in_tx c (upsert_rows fs (fs_backend config) entries c)))"

definition get_scoped_entry :: "Catalog \<Rightarrow> EntryKey \<Rightarrow> StoreError + ScopedEntryRow option" where
  "get_scoped_entry c key =
     (case map_of (scoped_entries c) key of
        None \<Rightarrow> Inr None
      | Some entry \<Rightarrow>
          if se_key entry \<noteq> key
          then Inl (InvalidObjectIdentity ''scoped entry key does not match its primary key'')
          else Inr (Some entry))"

definition remove_scoped_entry :: "Catalog \<Rightarrow> EntryKey \<Rightarrow> Catalog" where
  "remove_scoped_entry c key = c\<lparr>scoped_entries := AList.delete key (scoped_entries c)\<rparr>"

section \<open>Namespace edges\<close>

definition edge_key_of :: "ScopedNamespaceEdge \<Rightarrow> edge_key" where
  "edge_key_of edge = (ed_filesystem edge, ed_parent edge, ed_name edge)"

definition upsert_scoped_namespace_edge :: "Catalog \<Rightarrow> ScopedNamespaceEdge \<Rightarrow> unit result" where
  "upsert_scoped_namespace_edge c edge =
     (if fk_ok c (ed_filesystem edge)
      then (Inr (), c\<lparr>scoped_edges := AList.update (edge_key_of edge) (ed_object edge) (scoped_edges c)\<rparr>)
      else (Inl fk_error, c))"

definition remove_scoped_namespace_edge ::
  "Catalog \<Rightarrow> string \<Rightarrow> ObjectId \<Rightarrow> bytes \<Rightarrow> bool \<times> Catalog" where
  "remove_scoped_namespace_edge c fs parent nm =
     (map_of (scoped_edges c) (fs, parent, nm) \<noteq> None,
      c\<lparr>scoped_edges := AList.delete (fs, parent, nm) (scoped_edges c)\<rparr>)"

definition lookup_scoped_namespace_child ::
  "Catalog \<Rightarrow> string \<Rightarrow> ObjectId \<Rightarrow> bytes \<Rightarrow> EntryKey option" where
  "lookup_scoped_namespace_child c fs parent nm =
     map_option (EntryKey fs) (map_of (scoped_edges c) (fs, parent, nm))"

definition edge_order :: "ScopedNamespaceEdge \<Rightarrow> u8 \<times> u8 list \<times> bytes" where
  "edge_order edge =
     (fst (encode_object_id (ed_parent edge)), snd (encode_object_id (ed_parent edge)), ed_name edge)"

definition edges_of :: "Catalog \<Rightarrow> (string \<Rightarrow> ObjectId \<Rightarrow> bool) \<Rightarrow> ScopedNamespaceEdge list" where
  "edges_of c P =
     sort_key edge_order
       (map (\<lambda>((fs, p, n), x). \<lparr>ed_filesystem = fs, ed_parent = p, ed_name = n, ed_object = x\<rparr>)
         (filter (\<lambda>((fs, p, n), x). P fs x) (scoped_edges c)))"

definition list_scoped_object_edges :: "Catalog \<Rightarrow> EntryKey \<Rightarrow> ScopedNamespaceEdge list" where
  "list_scoped_object_edges c key =
     edges_of c (\<lambda>fs x. fs = key_filesystem key \<and> x = key_object key)"

definition list_scoped_namespace_edges :: "Catalog \<Rightarrow> string \<Rightarrow> ScopedNamespaceEdge list" where
  "list_scoped_namespace_edges c filesystem = edges_of c (\<lambda>fs x. fs = filesystem)"

definition apply_scoped_hardlink ::
  "Catalog \<Rightarrow> ScopedNamespaceEdge \<Rightarrow> i64 \<Rightarrow> unit result" where
  "apply_scoped_hardlink c edge observed_at =
     (case map_of (scoped_edges c) (edge_key_of edge) of
        Some x \<Rightarrow>
          if x = ed_object edge then (Inr (), c)
          else (Inl (InvalidObjectIdentity ''namespace edge belongs to another object''), c)
      | None \<Rightarrow>
        (let key = EntryKey (ed_filesystem edge) (ed_object edge)
         in case map_of (scoped_entries c) key of
              None \<Rightarrow> (Inl (InvalidObjectIdentity ''hard link object is not cataloged''), c)
            | Some entry \<Rightarrow>
              (let entry' = entry\<lparr>e_nlink := saturating_add (e_nlink entry) 1,
                                  e_last_seen := observed_at\<rparr>
               in (Inr (),
                   c\<lparr>scoped_edges := AList.update (edge_key_of edge) (ed_object edge) (scoped_edges c),
                     scoped_entries := AList.update key entry' (scoped_entries c)\<rparr>))))"

definition apply_scoped_unlink ::
  "Catalog \<Rightarrow> EntryKey \<Rightarrow> ObjectId \<Rightarrow> bytes \<Rightarrow> i64 \<Rightarrow> bool \<Rightarrow> unit result" where
  "apply_scoped_unlink c key parent nm observed_at directory =
     (let ek = (key_filesystem key, parent, nm)
      in if map_of (scoped_edges c) ek \<noteq> Some (key_object key) then (Inr (), c)
         else
           (let c1 = c\<lparr>scoped_edges := AList.delete ek (scoped_edges c)\<rparr>
            in case map_of (scoped_entries c) key of
                 None \<Rightarrow> (Inr (), c1)
               | Some entry \<Rightarrow>
                   if \<not> directory \<and> e_nlink entry > 1 then
                     (let entry' = entry\<lparr>e_nlink := e_nlink entry - 1, e_last_seen := observed_at\<rparr>
                      in (Inr (), c1\<lparr>scoped_entries := AList.update key entry' (scoped_entries c)\<rparr>))
                   else
                     (Inr (),
                      c1\<lparr>scoped_removed := AList.update key (entry, observed_at) (scoped_removed c),
                         scoped_entries := AList.delete key (scoped_entries c)\<rparr>)))"

definition clear_scoped_catalog :: "Catalog \<Rightarrow> string \<Rightarrow> Catalog" where
  "clear_scoped_catalog c fs =
     c\<lparr>scoped_stripes := filter (\<lambda>((k, i), x). key_filesystem k \<noteq> fs) (scoped_stripes c),
       scoped_edges := filter (\<lambda>((f, p, n), x). f \<noteq> fs) (scoped_edges c),
       scoped_entries := filter (\<lambda>(k, e). key_filesystem k \<noteq> fs) (scoped_entries c)\<rparr>"

section \<open>Baselines\<close>

definition set_baseline_state ::
  "Catalog \<Rightarrow> i64 \<Rightarrow> string \<Rightarrow> BaselineState \<Rightarrow> u64 option \<Rightarrow> string option \<Rightarrow> unit result" where
  "set_baseline_state c now fs state version reason =
     (if \<not> fk_ok c fs then (Inl fk_error, c)
      else
        (let scan_started = (if state = Scanning then Some now else None);
             completed = (if state = Ready then Some now else None);
             old = map_of (baselines c) fs;
             started = (case scan_started of
                          Some t \<Rightarrow> Some t
                        | None \<Rightarrow> Option.bind old scan_started_at)
         in (Inr (), c\<lparr>baselines := AList.update fs
               \<lparr>bl_state = state, scan_started_at = started, completed_at = completed,
                last_version = version, invalid_reason = reason\<rparr> (baselines c)\<rparr>)))"

definition get_baseline :: "Catalog \<Rightarrow> string \<Rightarrow> FilesystemBaseline option" where
  "get_baseline c fs = map_of (baselines c) fs"

definition scoped_entry_count :: "Catalog \<Rightarrow> string \<Rightarrow> nat" where
  "scoped_entry_count c fs = length (filter (\<lambda>(k, e). key_filesystem k = fs) (scoped_entries c))"

section \<open>Removed objects and status\<close>

definition list_scoped_removed ::
  "Catalog \<Rightarrow> string \<Rightarrow> i64 option \<Rightarrow> nat \<Rightarrow> nat \<Rightarrow> (ScopedEntryRow \<times> i64) list" where
  "list_scoped_removed c fs since limit offset =
     take limit (drop offset (sort_key (\<lambda>(e, t). - t)
       (map snd (filter (\<lambda>(k, e, t). key_filesystem k = fs \<and>
           (case since of Some s \<Rightarrow> t \<ge> s | None \<Rightarrow> True)) (scoped_removed c)))))"

definition forget_scoped_removed :: "Catalog \<Rightarrow> EntryKey \<Rightarrow> bool \<times> Catalog" where
  "forget_scoped_removed c key =
     (map_of (scoped_removed c) key \<noteq> None,
      c\<lparr>scoped_removed := AList.delete key (scoped_removed c)\<rparr>)"

definition merge_status :: "json \<Rightarrow> json \<Rightarrow> json" where
  "merge_status current patch =
     (case (as_object current, as_object patch) of
        (Some cur, Some delta) \<Rightarrow> JObj (foldl (\<lambda>m (k, v). json_insert k v m) cur delta)
      | _ \<Rightarrow> patch)"

definition patch_scoped_sm_status :: "Catalog \<Rightarrow> i64 \<Rightarrow> EntryKey \<Rightarrow> json \<Rightarrow> bool result" where
  "patch_scoped_sm_status c now key patch =
     (case get_scoped_entry c key of
        Inl e \<Rightarrow> (Inl e, c)
      | Inr None \<Rightarrow> (Inr False, c)
      | Inr (Some entry) \<Rightarrow>
        (case upsert_scoped_entry c
            (entry\<lparr>e_sm_status := merge_status (e_sm_status entry) patch, e_last_seen := now\<rparr>) of
           (Inl e, c') \<Rightarrow> (Inl e, c')
         | (Inr _, c') \<Rightarrow> (Inr True, c')))"

text \<open>\<open>sm_status["xattr"] = {}\<close>: null becomes an object, another scalar or an array panics.\<close>

definition install_xattr :: "json \<Rightarrow> StoreError + json" where
  "install_xattr status =
     (if Option.bind (json_get ''xattr'' status) as_object \<noteq> None then Inr status
      else (case status of
              JObj kvs \<Rightarrow> Inr (JObj (json_insert ''xattr'' (JObj []) kvs))
            | JNull \<Rightarrow> Inr (JObj [(''xattr'', JObj [])])
            | _ \<Rightarrow> Inl (Panic ''cannot access key in JSON value'')))"

definition retag :: "(string \<times> string) list \<Rightarrow> string list \<Rightarrow> json \<Rightarrow> json" where
  "retag tags clear_keys status =
     (case status of
        JObj kvs \<Rightarrow>
          (case map_of kvs ''xattr'' of
             Some (JObj xs) \<Rightarrow>
               (let xs1 = foldl (\<lambda>m k. json_remove k m) xs clear_keys;
                    xs2 = foldl (\<lambda>m (k, v). json_insert k (JStr v) m) xs1 tags
                in JObj (json_insert ''xattr'' (JObj xs2) kvs))
           | _ \<Rightarrow> status)
      | _ \<Rightarrow> status)"

definition update_scoped_xattr ::
  "Catalog \<Rightarrow> EntryKey \<Rightarrow> (string \<times> string) list \<Rightarrow> string list \<Rightarrow> bool result" where
  "update_scoped_xattr c key tags clear_keys =
     (case get_scoped_entry c key of
        Inl e \<Rightarrow> (Inl e, c)
      | Inr None \<Rightarrow> (Inr False, c)
      | Inr (Some entry) \<Rightarrow>
        (case install_xattr (e_sm_status entry) of
           Inl e \<Rightarrow> (Inl e, c)
         | Inr status \<Rightarrow>
           (case upsert_scoped_entry c (entry\<lparr>e_sm_status := retag tags clear_keys status\<rparr>) of
              (Inl e, c') \<Rightarrow> (Inl e, c')
            | (Inr _, c') \<Rightarrow> (Inr True, c'))))"

section \<open>Lustre objects\<close>

definition stripe_rows :: "EntryKey \<Rightarrow> u32 list \<Rightarrow> ((EntryKey \<times> u16) \<times> u32) list" where
  "stripe_rows key osts = map (\<lambda>(i, x). ((key, word_of_nat i), x)) (enumerate 0 osts)"

definition upsert_lustre_row :: "string \<Rightarrow> EntryRow \<Rightarrow> Catalog \<Rightarrow> StoreError + Catalog" where
  "upsert_lustre_row fs entry c =
     (let key = EntryKey fs (OLustre (er_fid entry))
      in case upsert_scoped_entry_tx c (from_lustre fs entry) of
           Inl e \<Rightarrow> Inl e
         | Inr c1 \<Rightarrow>
           (let rows = stripe_rows key (e_stripe_items entry) in
            if \<not> distinct (map fst rows) then Inl (Sqlx ''duplicate stripe index'')
            else
              (let c2 = c1\<lparr>scoped_stripes :=
                          filter (\<lambda>((k, i), x). k \<noteq> key) (scoped_stripes c1) @ rows\<rparr>
               in Inr (case er_parent_fid entry of
                         None \<Rightarrow> c2
                       | Some p \<Rightarrow>
                           c2\<lparr>scoped_edges := AList.update (fs, OLustre p, e_name entry)
                                (OLustre (er_fid entry)) (scoped_edges c2)\<rparr>))))"

fun upsert_lustre_rows :: "string \<Rightarrow> EntryRow list \<Rightarrow> Catalog \<Rightarrow> StoreError + Catalog" where
  "upsert_lustre_rows fs [] c = Inr c"
| "upsert_lustre_rows fs (entry # entries) c =
     (case upsert_lustre_row fs entry c of
        Inl e \<Rightarrow> Inl e
      | Inr c' \<Rightarrow> upsert_lustre_rows fs entries c')"

definition upsert_lustre_scan_batch :: "Catalog \<Rightarrow> string \<Rightarrow> EntryRow list \<Rightarrow> unit result" where
  "upsert_lustre_scan_batch c fs entries =
     (if entries = [] then (Inr (), c)
      else (case get_filesystem c fs of
              None \<Rightarrow> (Inl (UnknownFilesystem fs), c)
            | Some config \<Rightarrow>
                if fs_backend config \<noteq> Lustre
                then (Inl (BackendMismatch fs (fs_backend config) Lustre), c)
                else in_tx c (upsert_lustre_rows fs entries c)))"

definition upsert_lustre_entry :: "Catalog \<Rightarrow> string \<Rightarrow> EntryRow \<Rightarrow> unit result" where
  "upsert_lustre_entry c fs entry = upsert_lustre_scan_batch c fs [entry]"

definition get_lustre_entry :: "Catalog \<Rightarrow> string \<Rightarrow> LuFid \<Rightarrow> StoreError + EntryRow option" where
  "get_lustre_entry c fs f =
     (case get_scoped_entry c (EntryKey fs (OLustre f)) of
        Inl e \<Rightarrow> Inl e
      | Inr entry \<Rightarrow> Inr (Option.bind entry to_lustre_compat))"

definition remove_lustre_entry :: "Catalog \<Rightarrow> string \<Rightarrow> LuFid \<Rightarrow> i64 \<Rightarrow> unit result" where
  "remove_lustre_entry c fs f rm_time =
     (let key = EntryKey fs (OLustre f)
      in case get_scoped_entry c key of
           Inl e \<Rightarrow> (Inl e, c)
         | Inr None \<Rightarrow> (Inr (), c)
         | Inr (Some entry) \<Rightarrow>
             (Inr (),
              c\<lparr>scoped_stripes := filter (\<lambda>((k, i), x). k \<noteq> key) (scoped_stripes c),
                scoped_removed := AList.update key (entry, rm_time) (scoped_removed c),
                scoped_edges :=
                  filter (\<lambda>((g, p, n), x). \<not> (g = fs \<and> x = OLustre f)) (scoped_edges c),
                scoped_entries := AList.delete key (scoped_entries c)\<rparr>))"

definition displaced :: "Catalog \<Rightarrow> string \<Rightarrow> EntryRow \<Rightarrow> LuFid option" where
  "displaced c fs entry =
     (case er_parent_fid entry of
        None \<Rightarrow> None
      | Some p \<Rightarrow>
        (case map_of (scoped_edges c) (fs, OLustre p, e_name entry) of
           None \<Rightarrow> None
         | Some x \<Rightarrow>
             if x = OLustre (er_fid entry) then None
             else fid_decode (snd (encode_object_id x))))"

definition rename_lustre_entry :: "Catalog \<Rightarrow> string \<Rightarrow> EntryRow \<Rightarrow> i64 \<Rightarrow> unit result" where
  "rename_lustre_entry c fs entry rm_time =
     (case (case displaced c fs entry of
              Some f \<Rightarrow> remove_lustre_entry c fs f rm_time
            | None \<Rightarrow> (Inr (), c)) of
        (Inl e, c1) \<Rightarrow> (Inl e, c1)
      | (Inr _, c1) \<Rightarrow>
        (let c2 = c1\<lparr>scoped_edges :=
               filter (\<lambda>((g, p, n), x). \<not> (g = fs \<and> x = OLustre (er_fid entry))) (scoped_edges c1)\<rparr>
         in case upsert_scoped_entry c2 (from_lustre fs entry) of
              (Inl e, c3) \<Rightarrow> (Inl e, c3)
            | (Inr _, c3) \<Rightarrow>
              (case er_parent_fid entry of
                 None \<Rightarrow> (Inr (), c3)
               | Some p \<Rightarrow>
                   upsert_scoped_namespace_edge c3
                     \<lparr>ed_filesystem = fs, ed_parent = OLustre p, ed_name = e_name entry,
                      ed_object = OLustre (er_fid entry)\<rparr>)))"

section \<open>Operations as steps\<close>

datatype store_op =
    Op_register FileSystemConfig
  | Op_upsert ScopedEntryRow
  | Op_batch "ScopedEntryRow list"
  | Op_remove EntryKey
  | Op_edge ScopedNamespaceEdge
  | Op_unedge string ObjectId bytes
  | Op_hardlink ScopedNamespaceEdge i64
  | Op_unlink EntryKey ObjectId bytes i64 bool
  | Op_clear string
  | Op_baseline i64 string BaselineState "u64 option" "string option"
  | Op_forget EntryKey
  | Op_patch i64 EntryKey json
  | Op_xattr EntryKey "(string \<times> string) list" "string list"
  | Op_lustre_batch string "EntryRow list"
  | Op_lustre_remove string LuFid i64
  | Op_lustre_rename string EntryRow i64

fun run_op :: "store_op \<Rightarrow> Catalog \<Rightarrow> Catalog" where
  "run_op (Op_register config) c = register_filesystem c config"
| "run_op (Op_upsert entry) c = snd (upsert_scoped_entry c entry)"
| "run_op (Op_batch entries) c = snd (upsert_scoped_batch c entries)"
| "run_op (Op_remove key) c = remove_scoped_entry c key"
| "run_op (Op_edge edge) c = snd (upsert_scoped_namespace_edge c edge)"
| "run_op (Op_unedge fs p n) c = snd (remove_scoped_namespace_edge c fs p n)"
| "run_op (Op_hardlink edge t) c = snd (apply_scoped_hardlink c edge t)"
| "run_op (Op_unlink key p n t d) c = snd (apply_scoped_unlink c key p n t d)"
| "run_op (Op_clear fs) c = clear_scoped_catalog c fs"
| "run_op (Op_baseline now fs state v r) c = snd (set_baseline_state c now fs state v r)"
| "run_op (Op_forget key) c = snd (forget_scoped_removed c key)"
| "run_op (Op_patch now key patch) c = snd (patch_scoped_sm_status c now key patch)"
| "run_op (Op_xattr key tags ks) c = snd (update_scoped_xattr c key tags ks)"
| "run_op (Op_lustre_batch fs entries) c = snd (upsert_lustre_scan_batch c fs entries)"
| "run_op (Op_lustre_remove fs f t) c = snd (remove_lustre_entry c fs f t)"
| "run_op (Op_lustre_rename fs entry t) c = snd (rename_lustre_entry c fs entry t)"

text \<open>The filesystems whose rows an operation may touch.\<close>

fun op_scope :: "store_op \<Rightarrow> string set" where
  "op_scope (Op_register config) = {fs_id config}"
| "op_scope (Op_upsert entry) = {key_filesystem (se_key entry)}"
| "op_scope (Op_batch entries) = (case entries of [] \<Rightarrow> {} | e # _ \<Rightarrow> {key_filesystem (se_key e)})"
| "op_scope (Op_remove key) = {key_filesystem key}"
| "op_scope (Op_edge edge) = {ed_filesystem edge}"
| "op_scope (Op_unedge fs p n) = {fs}"
| "op_scope (Op_hardlink edge t) = {ed_filesystem edge}"
| "op_scope (Op_unlink key p n t d) = {key_filesystem key}"
| "op_scope (Op_clear fs) = {fs}"
| "op_scope (Op_baseline now fs state v r) = {fs}"
| "op_scope (Op_forget key) = {key_filesystem key}"
| "op_scope (Op_patch now key patch) = {key_filesystem key}"
| "op_scope (Op_xattr key tags ks) = {key_filesystem key}"
| "op_scope (Op_lustre_batch fs entries) = {fs}"
| "op_scope (Op_lustre_remove fs f t) = {fs}"
| "op_scope (Op_lustre_rename fs entry t) = {fs}"

definition fs_view :: "string \<Rightarrow> Catalog \<Rightarrow> Catalog" where
  "fs_view fs c =
     \<lparr>filesystems = filter (\<lambda>(f, x). f = fs) (filesystems c),
      scoped_entries = filter (\<lambda>(k, x). key_filesystem k = fs) (scoped_entries c),
      scoped_edges = filter (\<lambda>((f, p, n), x). f = fs) (scoped_edges c),
      scoped_removed = filter (\<lambda>(k, x). key_filesystem k = fs) (scoped_removed c),
      scoped_stripes = filter (\<lambda>((k, i), x). key_filesystem k = fs) (scoped_stripes c),
      baselines = filter (\<lambda>(f, x). f = fs) (baselines c)\<rparr>"

section \<open>Lemmas\<close>

lemma filter_update: "(\<And>w. \<not> P (k, w)) \<Longrightarrow> filter P (AList.update k v xs) = filter P xs"
  by (induction xs) auto

lemma filter_delete: "(\<And>w. \<not> P (k, w)) \<Longrightarrow> filter P (AList.delete k xs) = filter P xs"
  by (induction xs) auto

lemma filter_filter_keep: "(\<And>x. P x \<Longrightarrow> Q x) \<Longrightarrow> filter P (filter Q xs) = filter P xs"
  by (induction xs) auto

text \<open>Rows of the other filesystems survive each kind of table update.\<close>

lemma view_updates:
  "f \<noteq> fs \<Longrightarrow> fs_view fs (c\<lparr>filesystems := AList.update f x (filesystems c)\<rparr>) = fs_view fs c"
  "key_filesystem k \<noteq> fs \<Longrightarrow>
     fs_view fs (c\<lparr>scoped_entries := AList.update k y (scoped_entries c)\<rparr>) = fs_view fs c"
  "key_filesystem k \<noteq> fs \<Longrightarrow>
     fs_view fs (c\<lparr>scoped_entries := AList.delete k (scoped_entries c)\<rparr>) = fs_view fs c"
  "fst ek \<noteq> fs \<Longrightarrow>
     fs_view fs (c\<lparr>scoped_edges := AList.update ek z (scoped_edges c)\<rparr>) = fs_view fs c"
  "fst ek \<noteq> fs \<Longrightarrow>
     fs_view fs (c\<lparr>scoped_edges := AList.delete ek (scoped_edges c)\<rparr>) = fs_view fs c"
  "key_filesystem k \<noteq> fs \<Longrightarrow>
     fs_view fs (c\<lparr>scoped_removed := AList.update k r (scoped_removed c)\<rparr>) = fs_view fs c"
  "key_filesystem k \<noteq> fs \<Longrightarrow>
     fs_view fs (c\<lparr>scoped_removed := AList.delete k (scoped_removed c)\<rparr>) = fs_view fs c"
  "f \<noteq> fs \<Longrightarrow> fs_view fs (c\<lparr>baselines := AList.update f b (baselines c)\<rparr>) = fs_view fs c"
  by (auto simp: fs_view_def intro!: filter_update filter_delete)

lemma view_tx:
  "upsert_scoped_entry_tx c entry = Inr c' \<Longrightarrow> key_filesystem (se_key entry) \<noteq> fs \<Longrightarrow>
     fs_view fs c' = fs_view fs c"
  by (auto simp: upsert_scoped_entry_tx_def view_updates split: if_splits)

lemma view_upsert:
  "key_filesystem (se_key entry) \<noteq> fs \<Longrightarrow> fs_view fs (snd (upsert_scoped_entry c entry)) = fs_view fs c"
  by (auto simp: upsert_scoped_entry_def in_tx_def view_tx split: option.splits sum.splits)

lemma view_rows:
  "upsert_rows f b entries c = Inr c' \<Longrightarrow> f \<noteq> fs \<Longrightarrow> fs_view fs c' = fs_view fs c"
  by (induction entries arbitrary: c) (auto split: if_splits sum.splits dest!: view_tx)

lemma view_lustre_row:
  assumes "upsert_lustre_row f entry c = Inr c'" "f \<noteq> fs"
  shows "fs_view fs c' = fs_view fs c"
proof -
  let ?key = "EntryKey f (OLustre (er_fid entry))"
  let ?rows = "stripe_rows ?key (e_stripe_items entry)"
  from assms(1) obtain c1 where c1: "upsert_scoped_entry_tx c (from_lustre f entry) = Inr c1"
    by (auto simp: upsert_lustre_row_def Let_def split: sum.splits)
  have "key_filesystem (se_key (from_lustre f entry)) \<noteq> fs" using assms(2) by (simp add: from_lustre_def)
  from view_tx [OF c1 this] have v1: "fs_view fs c1 = fs_view fs c" .
  have rows: "filter (\<lambda>((k, i), x). key_filesystem k = fs) ?rows = []"
    using assms(2) by (auto simp: stripe_rows_def filter_empty_conv)
  have keep: "filter (\<lambda>((k, i), x). key_filesystem k = fs)
      (filter (\<lambda>((k, i), x). k \<noteq> ?key) (scoped_stripes c1)) =
    filter (\<lambda>((k, i), x). key_filesystem k = fs) (scoped_stripes c1)"
    using assms(2) by (intro filter_filter_keep) auto
  from assms c1 v1 show ?thesis
    by (auto simp: upsert_lustre_row_def Let_def fs_view_def rows keep filter_update
        simp del: filter_filter split: if_splits option.splits)
qed

lemma view_lustre_rows:
  "upsert_lustre_rows f entries c = Inr c' \<Longrightarrow> f \<noteq> fs \<Longrightarrow> fs_view fs c' = fs_view fs c"
  by (induction entries arbitrary: c) (auto split: sum.splits dest!: view_lustre_row)

lemma view_filter_edges:
  "f \<noteq> fs \<Longrightarrow> fs_view fs (c\<lparr>scoped_edges :=
     filter (\<lambda>((g, p, n), x). \<not> (g = f \<and> Q x)) (scoped_edges c)\<rparr>) = fs_view fs c"
  by (auto simp: fs_view_def simp del: filter_filter intro!: filter_filter_keep)

lemma view_filter_stripes:
  "key_filesystem key \<noteq> fs \<Longrightarrow> fs_view fs (c\<lparr>scoped_stripes :=
     filter (\<lambda>((k, i), x). k \<noteq> key) (scoped_stripes c)\<rparr>) = fs_view fs c"
  by (auto simp: fs_view_def simp del: filter_filter intro!: filter_filter_keep)

lemma view_remove_lustre:
  assumes "f \<noteq> fs"
  shows "fs_view fs (snd (remove_lustre_entry c f x t)) = fs_view fs c"
  using assms
  by (auto simp: remove_lustre_entry_def Let_def fs_view_def filter_update filter_delete
      simp del: filter_filter intro!: filter_filter_keep split: sum.splits option.splits)

lemma view_edge:
  "ed_filesystem edge \<noteq> fs \<Longrightarrow> fs_view fs (snd (upsert_scoped_namespace_edge c edge)) = fs_view fs c"
  by (auto simp: upsert_scoped_namespace_edge_def view_updates edge_key_of_def)

lemma view_rename_lustre:
  assumes "f \<noteq> fs"
  shows "fs_view fs (snd (rename_lustre_entry c f entry t)) = fs_view fs c"
proof -
  let ?p = "case displaced c f entry of Some x \<Rightarrow> remove_lustre_entry c f x t | None \<Rightarrow> (Inr (), c)"
  have v1: "fs_view fs (snd ?p) = fs_view fs c"
    using view_remove_lustre [OF assms] by (auto split: option.splits)
  let ?c2 = "(snd ?p)\<lparr>scoped_edges := filter (\<lambda>((g, p, n), x). \<not> (g = f \<and> x = OLustre (er_fid entry)))
      (scoped_edges (snd ?p))\<rparr>"
  have v2: "fs_view fs ?c2 = fs_view fs c" using view_filter_edges [OF assms] v1 by simp
  have "key_filesystem (se_key (from_lustre f entry)) \<noteq> fs" using assms by (simp add: from_lustre_def)
  from view_upsert [OF this, of ?c2] v2
  have v3: "fs_view fs (snd (upsert_scoped_entry ?c2 (from_lustre f entry))) = fs_view fs c" by simp
  show ?thesis
    using v1 v3 view_edge [of _ fs] assms unfolding rename_lustre_entry_def Let_def
    by (auto split: prod.splits sum.splits option.splits)
qed

lemma view_get: "get_scoped_entry c key = Inr (Some entry) \<Longrightarrow> se_key entry = key"
  by (auto simp: get_scoped_entry_def split: option.splits if_splits)

lemma view_rewrite:
  assumes "get_scoped_entry c key = Inr (Some entry)" "key_filesystem key \<noteq> fs"
  shows "fs_view fs (snd (upsert_scoped_entry c (entry\<lparr>e_sm_status := j\<rparr>))) = fs_view fs c"
    and "fs_view fs (snd (upsert_scoped_entry c (entry\<lparr>e_sm_status := j, e_last_seen := t\<rparr>))) = fs_view fs c"
  using view_get [OF assms(1)] assms(2) by (simp_all add: view_upsert)

lemma run_op_view: "fs \<notin> op_scope oper \<Longrightarrow> fs_view fs (run_op oper c) = fs_view fs c"
proof (cases oper)
  case (Op_batch entries)
  then show "fs \<notin> op_scope oper \<Longrightarrow> ?thesis"
    by (auto simp: upsert_scoped_batch_def in_tx_def Let_def simp del: upsert_rows.simps
        intro: view_rows split: list.splits option.splits sum.splits)
next
  case (Op_hardlink edge t)
  then show "fs \<notin> op_scope oper \<Longrightarrow> ?thesis"
    by (auto simp: apply_scoped_hardlink_def Let_def fs_view_def filter_update edge_key_of_def
        split: option.splits)
next
  case (Op_unlink key p n t d)
  then show "fs \<notin> op_scope oper \<Longrightarrow> ?thesis"
    by (auto simp: apply_scoped_unlink_def Let_def fs_view_def filter_update filter_delete
        split: option.splits)
next
  case (Op_clear f)
  then show "fs \<notin> op_scope oper \<Longrightarrow> ?thesis"
    by (auto simp: clear_scoped_catalog_def fs_view_def simp del: filter_filter
        intro!: filter_filter_keep)
next
  case (Op_patch now key patch)
  then show "fs \<notin> op_scope oper \<Longrightarrow> ?thesis"
    using view_rewrite(2) [of c key _ fs]
    by (auto simp: patch_scoped_sm_status_def split: sum.splits option.splits prod.splits)
       (metis snd_conv)+
next
  case (Op_xattr key tags ks)
  then show "fs \<notin> op_scope oper \<Longrightarrow> ?thesis"
    using view_rewrite(1) [of c key _ fs]
    by (auto simp: update_scoped_xattr_def split: sum.splits option.splits prod.splits)
       (metis snd_conv)+
next
  case (Op_lustre_batch f entries)
  then show "fs \<notin> op_scope oper \<Longrightarrow> ?thesis"
    by (auto simp: upsert_lustre_scan_batch_def in_tx_def dest: view_lustre_rows
        split: option.splits sum.splits)
qed (auto simp: register_filesystem_def view_updates view_upsert remove_scoped_entry_def view_edge
    remove_scoped_namespace_edge_def set_baseline_state_def forget_scoped_removed_def Let_def
    view_remove_lustre view_rename_lustre)

text \<open>Well-formed catalogs: primary keys are unique, and a row holds the entry of its key.\<close>

definition catalog_ok :: "Catalog \<Rightarrow> bool" where
  "catalog_ok c =
     (distinct (map fst (scoped_entries c)) \<and> distinct (map fst (scoped_edges c)) \<and>
      distinct (map fst (scoped_removed c)) \<and>
      (\<forall>(k, e) \<in> set (scoped_entries c). se_key e = k \<and> fk_ok c (key_filesystem k)))"

definition edge_count :: "(edge_key \<times> ObjectId) list \<Rightarrow> EntryKey \<Rightarrow> nat" where
  "edge_count es key =
     length (filter (\<lambda>((fs, p, n), x). fs = key_filesystem key \<and> x = key_object key) es)"

text \<open>The link count of every cataloged object that is not a directory is its number of edges.\<close>

definition links_ok :: "Catalog \<Rightarrow> bool" where
  "links_ok c =
     (\<forall>k e. map_of (scoped_entries c) k = Some e \<and> e_kind e \<noteq> Directory \<longrightarrow>
        unat (e_nlink e) = edge_count (scoped_edges c) k)"

lemma get_ok: "catalog_ok c \<Longrightarrow> get_scoped_entry c k = Inr (map_of (scoped_entries c) k)"
  by (auto simp: get_scoped_entry_def catalog_ok_def split: option.splits dest: map_of_SomeD)

lemma length_filter_update:
  assumes "distinct (map fst xs)" "map_of xs k = None"
  shows "length (filter P (AList.update k v xs)) = length (filter P xs) + (if P (k, v) then 1 else 0)"
  using assms by (induction xs) (auto split: if_splits)

lemma length_filter_delete:
  assumes "distinct (map fst xs)" "map_of xs k = Some v"
  shows "length (filter P xs) = length (filter P (AList.delete k xs)) + (if P (k, v) then 1 else 0)"
  using assms
proof (induction xs)
  case (Cons x xs)
  show ?case
  proof (cases "fst x = k")
    case True
    with Cons.prems have "k \<notin> fst ` set xs" by auto
    with True Cons.prems show ?thesis by (cases x) (auto simp: delete_id)
  next
    case False
    with Cons show ?thesis by (cases x) auto
  qed
qed simp

lemma edge_count_add:
  assumes "distinct (map fst es)" "map_of es (fs, p, n) = None"
  shows "edge_count (AList.update (fs, p, n) x es) k =
    edge_count es k + (if k = EntryKey fs x then 1 else 0)"
  using assms by (cases k) (auto simp: edge_count_def length_filter_update)

lemma edge_count_drop:
  assumes "distinct (map fst es)" "map_of es (fs, p, n) = Some x"
  shows "edge_count (AList.delete (fs, p, n) es) k =
    edge_count es k - (if k = EntryKey fs x then 1 else 0)"
  using length_filter_delete [OF assms, of "\<lambda>((g, q, m), y). g = key_filesystem k \<and> y = key_object k"]
  by (cases k) (auto simp: edge_count_def)

lemma hardlink_links:
  assumes ok: "catalog_ok c" "links_ok c"
    and small: "\<forall>k e. map_of (scoped_entries c) k = Some e \<longrightarrow> unat (e_nlink e) < 2 ^ 32 - 1"
  shows "links_ok (snd (apply_scoped_hardlink c edge t))"
proof (cases "map_of (scoped_edges c) (edge_key_of edge)")
  case None
  let ?key = "EntryKey (ed_filesystem edge) (ed_object edge)"
  show ?thesis
  proof (cases "map_of (scoped_entries c) ?key")
    case (Some entry)
    let ?e = "entry\<lparr>e_nlink := saturating_add (e_nlink entry) 1, e_last_seen := t\<rparr>"
    let ?c = "c\<lparr>scoped_edges := AList.update (edge_key_of edge) (ed_object edge) (scoped_edges c),
        scoped_entries := AList.update ?key ?e (scoped_entries c)\<rparr>"
    have "unat (e_nlink ?e) = unat (e_nlink entry) + 1"
      using small Some by (force simp: unat_saturating_add)
    moreover have "edge_count (scoped_edges ?c) k = edge_count (scoped_edges c) k + (if k = ?key then 1 else 0)" for k
      using ok(1) None by (simp add: edge_key_of_def edge_count_add catalog_ok_def)
    ultimately have "links_ok ?c"
      using ok(2) Some by (auto simp: links_ok_def update_conv' split: if_splits)
    with None Some show ?thesis by (simp add: apply_scoped_hardlink_def Let_def)
  qed (use None ok in \<open>simp add: apply_scoped_hardlink_def Let_def\<close>)
qed (use ok in \<open>simp add: apply_scoped_hardlink_def\<close>)

lemma unlink_links:
  assumes ok: "catalog_ok c" "links_ok c"
    and nodir: "\<forall>e. map_of (scoped_entries c) key = Some e \<longrightarrow> e_kind e \<noteq> Directory"
  shows "links_ok (snd (apply_scoped_unlink c key p n t False))"
proof (cases "map_of (scoped_edges c) (key_filesystem key, p, n) = Some (key_object key)")
  case True
  let ?es = "AList.delete (key_filesystem key, p, n) (scoped_edges c)"
  have drop: "edge_count ?es k = edge_count (scoped_edges c) k - (if k = key then 1 else 0)" for k
    using ok(1) True edge_count_drop [of "scoped_edges c" "key_filesystem key" p n "key_object key" k]
    by (simp add: catalog_ok_def)
  show ?thesis
  proof (cases "map_of (scoped_entries c) key")
    case None
    have "links_ok (c\<lparr>scoped_edges := ?es\<rparr>)"
      using ok(2) None by (auto simp: links_ok_def drop)
    with True None show ?thesis by (simp add: apply_scoped_unlink_def Let_def)
  next
    case (Some entry)
    have n: "unat (e_nlink entry) = edge_count (scoped_edges c) key"
      using ok(2) Some nodir by (simp add: links_ok_def)
    let ?e = "entry\<lparr>e_nlink := e_nlink entry - 1, e_last_seen := t\<rparr>"
    have dec: "unat (e_nlink ?e) = unat (e_nlink entry) - 1" if "e_nlink entry > 1"
      using that by (simp add: unat_sub word_less_nat_alt word_le_nat_alt)
    show ?thesis
      using True Some ok(2) n dec
      by (auto simp: apply_scoped_unlink_def Let_def links_ok_def update_conv' delete_conv' drop
          split: if_splits)
  qed
qed (use ok in \<open>simp add: apply_scoped_unlink_def Let_def\<close>)

text \<open>Every operation keeps a catalog well-formed.\<close>

lemma distinct_filter_keys: "distinct (map fst xs) \<Longrightarrow> distinct (map fst (filter P xs))"
  by (rule distinct_map_filter)

lemma ok_entries_update:
  assumes "catalog_ok c" "se_key e = k" "fk_ok c (key_filesystem k)"
  shows "catalog_ok (c\<lparr>scoped_entries := AList.update k e (scoped_entries c)\<rparr>)"
proof -
  have "set (AList.update k e xs) \<subseteq> insert (k, e) (set xs)" for xs :: "(EntryKey \<times> ScopedEntryRow) list"
    by (induction xs) auto
  with assms show ?thesis by (fastforce simp: catalog_ok_def distinct_update fk_ok_def)
qed

lemma ok_tables:
  assumes "catalog_ok c"
  shows "catalog_ok (c\<lparr>scoped_entries := AList.delete k (scoped_entries c)\<rparr>)"
    and "catalog_ok (c\<lparr>scoped_entries := filter P (scoped_entries c)\<rparr>)"
    and "catalog_ok (c\<lparr>scoped_edges := AList.update ek x (scoped_edges c)\<rparr>)"
    and "catalog_ok (c\<lparr>scoped_edges := AList.delete ek (scoped_edges c)\<rparr>)"
    and "catalog_ok (c\<lparr>scoped_edges := filter Q (scoped_edges c)\<rparr>)"
    and "catalog_ok (c\<lparr>scoped_removed := AList.update k r (scoped_removed c)\<rparr>)"
    and "catalog_ok (c\<lparr>scoped_removed := AList.delete k (scoped_removed c)\<rparr>)"
    and "catalog_ok (c\<lparr>scoped_stripes := st\<rparr>)"
    and "catalog_ok (c\<lparr>baselines := bl\<rparr>)"
  using assms
  by (auto simp: catalog_ok_def distinct_update distinct_delete distinct_filter_keys fk_ok_def
      AList.delete_eq)

lemma ok_tx: "catalog_ok c \<Longrightarrow> upsert_scoped_entry_tx c e = Inr c' \<Longrightarrow> catalog_ok c'"
  by (auto simp: upsert_scoped_entry_tx_def intro: ok_entries_update split: if_splits)

lemma ok_upsert: "catalog_ok c \<Longrightarrow> catalog_ok (snd (upsert_scoped_entry c e))"
  by (auto simp: upsert_scoped_entry_def in_tx_def intro: ok_tx split: option.splits sum.splits)

lemma ok_rows: "catalog_ok c \<Longrightarrow> upsert_rows f b es c = Inr c' \<Longrightarrow> catalog_ok c'"
  by (induction es arbitrary: c) (auto split: if_splits sum.splits intro: ok_tx)

lemma ok_edge: "catalog_ok c \<Longrightarrow> catalog_ok (snd (upsert_scoped_namespace_edge c e))"
  by (simp add: upsert_scoped_namespace_edge_def ok_tables)

lemma ok_lustre_row:
  assumes "catalog_ok c" "upsert_lustre_row f e c = Inr c'"
  shows "catalog_ok c'"
proof -
  let ?key = "EntryKey f (OLustre (er_fid e))"
  obtain c1 where c1: "upsert_scoped_entry_tx c (from_lustre f e) = Inr c1"
    using assms(2) by (auto simp: upsert_lustre_row_def Let_def split: sum.splits)
  let ?c2 = "c1\<lparr>scoped_stripes := filter (\<lambda>((k, i), x). k \<noteq> ?key) (scoped_stripes c1) @
      stripe_rows ?key (e_stripe_items e)\<rparr>"
  have "catalog_ok ?c2" by (rule ok_tables(8) [OF ok_tx [OF assms(1) c1]])
  with ok_tables(3) [OF this] assms(2) c1 show ?thesis
    by (cases "er_parent_fid e") (auto simp: upsert_lustre_row_def Let_def split: if_splits)
qed

lemma ok_lustre_rows: "catalog_ok c \<Longrightarrow> upsert_lustre_rows f es c = Inr c' \<Longrightarrow> catalog_ok c'"
  by (induction es arbitrary: c) (auto split: sum.splits intro: ok_lustre_row)

lemma ok_remove_lustre: "catalog_ok c \<Longrightarrow> catalog_ok (snd (remove_lustre_entry c f x t))"
  by (auto simp: remove_lustre_entry_def Let_def catalog_ok_def distinct_update distinct_delete
      distinct_filter_keys fk_ok_def AList.delete_eq split: sum.splits option.splits)

lemma ok_rename_lustre:
  assumes "catalog_ok c"
  shows "catalog_ok (snd (rename_lustre_entry c f e t))"
proof -
  let ?p = "case displaced c f e of Some x \<Rightarrow> remove_lustre_entry c f x t | None \<Rightarrow> (Inr (), c)"
  have "catalog_ok (snd ?p)" using assms ok_remove_lustre by (auto split: option.splits)
  then have "catalog_ok ((snd ?p)\<lparr>scoped_edges := filter (\<lambda>((g, p, n), x). \<not> (g = f \<and> x = OLustre (er_fid e)))
      (scoped_edges (snd ?p))\<rparr>)" (is "catalog_ok ?c2") by (rule ok_tables)
  then have "catalog_ok (snd (upsert_scoped_entry ?c2 (from_lustre f e)))" by (rule ok_upsert)
  with \<open>catalog_ok (snd ?p)\<close> ok_edge show ?thesis
    unfolding rename_lustre_entry_def Let_def
    by (auto split: prod.splits sum.splits option.splits)
qed

lemma ok_register: "catalog_ok c \<Longrightarrow> catalog_ok (register_filesystem c config)"
  by (fastforce simp: catalog_ok_def register_filesystem_def fk_ok_def update_conv' split: if_splits)

lemma entry_fk: "catalog_ok c \<Longrightarrow> map_of (scoped_entries c) k = Some e \<Longrightarrow>
    se_key e = k \<and> fk_ok c (key_filesystem k)"
  by (auto simp: catalog_ok_def dest: map_of_SomeD)

lemma ok_hardlink:
  assumes "catalog_ok c"
  shows "catalog_ok (snd (apply_scoped_hardlink c edge t))"
proof (cases "map_of (scoped_entries c) (EntryKey (ed_filesystem edge) (ed_object edge))")
  case (Some entry)
  let ?key = "EntryKey (ed_filesystem edge) (ed_object edge)"
  let ?e = "entry\<lparr>e_nlink := saturating_add (e_nlink entry) 1, e_last_seen := t\<rparr>"
  let ?c1 = "c\<lparr>scoped_edges := AList.update (edge_key_of edge) (ed_object edge) (scoped_edges c)\<rparr>"
  have "catalog_ok (?c1\<lparr>scoped_entries := AList.update ?key ?e (scoped_entries ?c1)\<rparr>)"
    using entry_fk [OF assms Some] ok_tables(3) [OF assms]
    by (intro ok_entries_update) (simp_all add: fk_ok_def)
  with assms Some show ?thesis by (simp add: apply_scoped_hardlink_def Let_def split: option.splits)
qed (use assms in \<open>simp add: apply_scoped_hardlink_def Let_def split: option.splits\<close>)

lemma ok_unlink:
  assumes "catalog_ok c"
  shows "catalog_ok (snd (apply_scoped_unlink c key p n t d))"
proof (cases "map_of (scoped_entries c) key")
  case None
  with assms show ?thesis by (simp add: apply_scoped_unlink_def Let_def ok_tables)
next
  case (Some entry)
  let ?c1 = "c\<lparr>scoped_edges := AList.delete (key_filesystem key, p, n) (scoped_edges c)\<rparr>"
  let ?e = "entry\<lparr>e_nlink := e_nlink entry - 1, e_last_seen := t\<rparr>"
  have c1: "catalog_ok ?c1" using assms by (rule ok_tables)
  have "catalog_ok (?c1\<lparr>scoped_entries := AList.update key ?e (scoped_entries ?c1)\<rparr>)"
    using c1 entry_fk [OF assms Some] by (intro ok_entries_update) (simp_all add: fk_ok_def)
  moreover have "catalog_ok (?c1\<lparr>scoped_removed := AList.update key (entry, t) (scoped_removed ?c1),
      scoped_entries := AList.delete key (scoped_entries ?c1)\<rparr>)"
    using ok_tables(1) [OF ok_tables(6) [OF c1]] by simp
  ultimately show ?thesis using assms Some by (simp add: apply_scoped_unlink_def Let_def)
qed

lemma run_op_ok:
  assumes "catalog_ok c"
  shows "catalog_ok (run_op oper c)"
proof (cases oper)
  case (Op_batch entries)
  with assms show ?thesis
    by (auto simp: upsert_scoped_batch_def in_tx_def Let_def simp del: upsert_rows.simps
        intro: ok_rows split: list.splits option.splits sum.splits)
next
  case (Op_clear f)
  let ?c1 = "c\<lparr>scoped_stripes := filter (\<lambda>((k, i), x). key_filesystem k \<noteq> f) (scoped_stripes c)\<rparr>"
  from ok_tables(2) [OF ok_tables(5) [OF ok_tables(8) [OF assms]]] Op_clear show ?thesis
    by (simp add: clear_scoped_catalog_def)
next
  case (Op_patch now key patch)
  show ?thesis
    using Op_patch assms ok_upsert [OF assms]
    by (auto simp: patch_scoped_sm_status_def split: sum.splits option.splits prod.splits)
      (metis snd_conv)+
next
  case (Op_xattr key tags ks)
  show ?thesis
    using Op_xattr assms ok_upsert [OF assms]
    by (auto simp: update_scoped_xattr_def split: sum.splits option.splits prod.splits)
      (metis snd_conv)+
next
  case (Op_lustre_batch f entries)
  with assms show ?thesis
    by (auto simp: upsert_lustre_scan_batch_def in_tx_def intro: ok_lustre_rows
        split: option.splits sum.splits)
qed (use assms in \<open>simp_all add: ok_register ok_upsert remove_scoped_entry_def ok_tables ok_edge
    remove_scoped_namespace_edge_def ok_hardlink ok_unlink set_baseline_state_def Let_def
    forget_scoped_removed_def ok_remove_lustre ok_rename_lustre\<close>)

text \<open>A rename, step by step.\<close>

lemma remove_lustre_effect:
  fixes c fs f t
  assumes "catalog_ok c"
  defines "c' \<equiv> snd (remove_lustre_entry c fs f t)"
  shows "fst (remove_lustre_entry c fs f t) = Inr ()"
    and "filesystems c' = filesystems c"
    and "map_of (scoped_entries c') k =
      (if k = EntryKey fs (OLustre f) then None else map_of (scoped_entries c) k)"
    and "map_of (scoped_entries c) (EntryKey fs (OLustre f)) = Some e \<Longrightarrow>
      map_of (scoped_removed c') (EntryKey fs (OLustre f)) = Some (e, t)"
  by (auto simp: c'_def remove_lustre_entry_def Let_def get_ok [OF assms(1)] delete_conv' update_conv'
      split: option.splits)

lemma filter_update_single:
  "\<forall>x \<in> set xs. \<not> P x \<Longrightarrow> P (k, v) \<Longrightarrow> filter P (AList.update k v xs) = [(k, v)]"
  by (induction xs) (auto simp: filter_empty_conv)

lemma upsert_lustre_ok:
  assumes "map_of (filesystems c) fs = Some config" "fs_backend config = Lustre"
  shows "upsert_scoped_entry c (from_lustre fs entry) =
    (Inr (), c\<lparr>scoped_entries := AList.update (EntryKey fs (OLustre (er_fid entry)))
       (from_lustre fs entry) (scoped_entries c)\<rparr>)"
  using assms
  by (auto simp: upsert_scoped_entry_def backend_mismatch_def get_filesystem_def from_lustre_def
      upsert_scoped_entry_tx_def fk_ok_def in_tx_def split: option.splits)

lemma rename_lustre_run:
  fixes c fs config entry p t
  assumes ok: "catalog_ok c" and fs: "map_of (filesystems c) fs = Some config" "fs_backend config = Lustre"
    and p: "er_parent_fid entry = Some p"
  defines "key \<equiv> EntryKey fs (OLustre (er_fid entry))"
  defines "c1 \<equiv> (case displaced c fs entry of
      Some f \<Rightarrow> snd (remove_lustre_entry c fs f t) | None \<Rightarrow> c)"
  shows "rename_lustre_entry c fs entry t =
    (Inr (), c1\<lparr>scoped_edges := AList.update (fs, OLustre p, e_name entry) (OLustre (er_fid entry))
         (filter (\<lambda>((g, q, n), x). \<not> (g = fs \<and> x = OLustre (er_fid entry))) (scoped_edges c1)),
       scoped_entries := AList.update key (from_lustre fs entry) (scoped_entries c1)\<rparr>)"
proof -
  have q: "(case displaced c fs entry of Some f \<Rightarrow> remove_lustre_entry c fs f t | None \<Rightarrow> (Inr (), c)) = (Inr (), c1)"
    using remove_lustre_effect(1) [OF ok, of fs _ t] by (auto simp: c1_def prod_eq_iff split: option.splits)
  have fs1: "map_of (filesystems c1) fs = Some config"
    using fs(1) remove_lustre_effect(2) [OF ok, of fs _ t] by (auto simp: c1_def split: option.splits)
  let ?c2 = "c1\<lparr>scoped_edges :=
      filter (\<lambda>((g, p, n), x). \<not> (g = fs \<and> x = OLustre (er_fid entry))) (scoped_edges c1)\<rparr>"
  have "map_of (filesystems ?c2) fs = Some config" using fs1 by simp
  from upsert_lustre_ok [OF this fs(2), of entry] show ?thesis
    unfolding rename_lustre_entry_def q
    using fs1 by (simp add: p Let_def key_def upsert_scoped_namespace_edge_def fk_ok_def edge_key_of_def)
qed

definition demo_catalog :: Catalog where
  "demo_catalog = empty_catalog\<lparr>filesystems :=
     [(''lustre-a'', \<lparr>fs_id = ''lustre-a'', fs_backend = Lustre, mount_path = ''/mnt/a'',
        capabilities = \<lparr>changelog = True, namespace = True, purge = True, hsm = True,
          stripe = True, ost = True\<rparr>\<rparr>)]\<rparr>"

definition replay_edge :: ScopedNamespaceEdge where
  "replay_edge =
     \<lparr>ed_filesystem = ''lustre-a'', ed_parent = OJuiceFs 1, ed_name = ''n'', ed_object = OJuiceFs 2\<rparr>"

definition replay_catalog :: Catalog where
  "replay_catalog = demo_catalog\<lparr>scoped_entries :=
     [(EntryKey ''lustre-a'' (OJuiceFs 2), from_lustre ''lustre-a'' sample_attrs)]\<rparr>"

lemma demo_ok: "catalog_ok demo_catalog" "links_ok demo_catalog"
  by (simp_all add: demo_catalog_def empty_catalog_def catalog_ok_def links_ok_def)

section \<open>Properties\<close>

text \<open>
  C20: operations on other filesystems never touch a filesystem: after any sequence of
  catalog operations none of which is scoped to it, all its rows, in every table, are
  what they were.
\<close>

theorem store_isolation:
  assumes "\<forall>oper \<in> set ops. fs \<notin> op_scope oper"
  shows "fs_view fs (foldl (\<lambda>c oper. run_op oper c) c ops) = fs_view fs c"
  using assms by (induction ops arbitrary: c) (simp_all add: run_op_view)

theorem store_isolation_witness:
  "fs_view ''juice'' (foldl (\<lambda>c oper. run_op oper c) demo_catalog
     [Op_clear ''lustre-a'', Op_lustre_batch ''lustre-a'' [sample_attrs]]) = fs_view ''juice'' demo_catalog"
  using store_isolation [of "[Op_clear ''lustre-a'', Op_lustre_batch ''lustre-a'' [sample_attrs]]"
      "''juice''" demo_catalog]
  by simp

text \<open>The remaining tables: filesystems, stripes and baselines have unique primary keys too.\<close>

definition tables_ok :: "Catalog \<Rightarrow> bool" where
  "tables_ok c \<longleftrightarrow> distinct (map fst (filesystems c)) \<and> distinct (map fst (scoped_stripes c)) \<and>
     distinct (map fst (baselines c))"

lemma tables_tx:
  "upsert_scoped_entry_tx c e = Inr c' \<Longrightarrow>
   filesystems c' = filesystems c \<and> scoped_stripes c' = scoped_stripes c \<and> baselines c' = baselines c"
  by (auto simp: upsert_scoped_entry_tx_def split: if_splits)

lemma tables_upsert: "tables_ok (snd (upsert_scoped_entry c e)) = tables_ok c"
  by (auto simp: upsert_scoped_entry_def in_tx_def tables_ok_def dest: tables_tx split: option.splits sum.splits)

lemma tables_rows: "upsert_rows f b es c = Inr c' \<Longrightarrow> tables_ok c' = tables_ok c"
proof (induction es arbitrary: c)
  case (Cons e es)
  then obtain c1 where "upsert_scoped_entry_tx c e = Inr c1" "upsert_rows f b es c1 = Inr c'"
    by (auto split: if_splits sum.splits)
  with Cons.IH [of c1] tables_tx [of c e c1] show ?case by (simp add: tables_ok_def)
qed simp

lemma tables_edge: "tables_ok (snd (upsert_scoped_namespace_edge c e)) = tables_ok c"
  by (simp add: upsert_scoped_namespace_edge_def tables_ok_def)

lemma distinct_stripes:
  assumes "distinct (map fst xs)" "distinct (map fst (stripe_rows key osts))"
  shows "distinct (map fst (filter (\<lambda>((k, i), x). k \<noteq> key) xs @ stripe_rows key osts))"
proof -
  have "fst r \<noteq> fst q" if "r \<in> set (filter (\<lambda>((k, i), x). k \<noteq> key) xs)" "q \<in> set (stripe_rows key osts)" for r q
    using that by (auto simp: stripe_rows_def)
  then have "fst ` set (filter (\<lambda>((k, i), x). k \<noteq> key) xs) \<inter> fst ` set (stripe_rows key osts) = {}" by blast
  then show ?thesis
    using assms(2) distinct_filter_keys [OF assms(1)] by (simp only: map_append distinct_append set_map)
qed

lemma tables_lustre_row:
  assumes "tables_ok c" "upsert_lustre_row f e c = Inr c'"
  shows "tables_ok c'"
proof -
  obtain c1 where c1: "upsert_scoped_entry_tx c (from_lustre f e) = Inr c1"
    using assms(2) by (auto simp: upsert_lustre_row_def Let_def split: sum.splits)
  let ?rows = "stripe_rows (EntryKey f (OLustre (er_fid e))) (e_stripe_items e)"
  have "scoped_stripes c' = filter (\<lambda>((k, i), x). k \<noteq> EntryKey f (OLustre (er_fid e))) (scoped_stripes c1) @ ?rows"
    "distinct (map fst ?rows)" "filesystems c' = filesystems c1" "baselines c' = baselines c1"
    using assms(2) c1 by (auto simp: upsert_lustre_row_def Let_def split: if_splits option.splits)
  with assms(1) tables_tx [OF c1] distinct_stripes show ?thesis by (simp only: tables_ok_def)
qed

lemma tables_lustre_rows: "tables_ok c \<Longrightarrow> upsert_lustre_rows f es c = Inr c' \<Longrightarrow> tables_ok c'"
  by (induction es arbitrary: c) (auto split: sum.splits intro: tables_lustre_row)

lemma tables_remove_lustre: "tables_ok c \<Longrightarrow> tables_ok (snd (remove_lustre_entry c f x t))"
  by (auto simp: remove_lustre_entry_def Let_def tables_ok_def distinct_filter_keys split: sum.splits option.splits)

lemma tables_rename_lustre:
  assumes "tables_ok c"
  shows "tables_ok (snd (rename_lustre_entry c f e t))"
proof -
  let ?p = "case displaced c f e of Some x \<Rightarrow> remove_lustre_entry c f x t | None \<Rightarrow> (Inr (), c)"
  have p: "tables_ok (snd ?p)" using assms tables_remove_lustre by (auto split: option.splits)
  let ?c2 = "(snd ?p)\<lparr>scoped_edges := filter (\<lambda>((g, p, n), x). \<not> (g = f \<and> x = OLustre (er_fid e)))
      (scoped_edges (snd ?p))\<rparr>"
  from p have "tables_ok (snd (upsert_scoped_entry ?c2 (from_lustre f e)))" by (simp add: tables_upsert) (simp add: tables_ok_def)
  with p tables_edge show ?thesis
    unfolding rename_lustre_entry_def Let_def by (auto split: prod.splits sum.splits option.splits)
qed

lemma run_op_tables:
  assumes "tables_ok c"
  shows "tables_ok (run_op oper c)"
proof (cases oper)
  case (Op_batch entries)
  with assms show ?thesis
    by (auto simp: upsert_scoped_batch_def in_tx_def Let_def simp del: upsert_rows.simps dest: tables_rows
        split: list.splits option.splits sum.splits)
next
  case (Op_patch now key patch)
  have "tables_ok c'" if "upsert_scoped_entry c e = (r, c')" for e r c'
    using tables_upsert [of c e] assms that by simp
  with Op_patch assms show ?thesis
    by (auto simp: patch_scoped_sm_status_def split: sum.splits option.splits prod.splits)
next
  case (Op_xattr key tags ks)
  have "tables_ok c'" if "upsert_scoped_entry c e = (r, c')" for e r c'
    using tables_upsert [of c e] assms that by simp
  with Op_xattr assms show ?thesis
    by (auto simp: update_scoped_xattr_def split: sum.splits option.splits prod.splits)
next
  case (Op_lustre_batch f entries)
  with assms show ?thesis
    by (auto simp: upsert_lustre_scan_batch_def in_tx_def intro: tables_lustre_rows split: option.splits sum.splits)
next
  case (Op_unlink key p n t d)
  have "filesystems (run_op oper c) = filesystems c" "scoped_stripes (run_op oper c) = scoped_stripes c"
    "baselines (run_op oper c) = baselines c"
    unfolding Op_unlink by (simp_all add: apply_scoped_unlink_def Let_def split: option.splits)
  with assms show ?thesis by (simp add: tables_ok_def)
next
  case (Op_hardlink edge t)
  have "filesystems (run_op oper c) = filesystems c" "scoped_stripes (run_op oper c) = scoped_stripes c"
    "baselines (run_op oper c) = baselines c"
    unfolding Op_hardlink by (simp_all add: apply_scoped_hardlink_def Let_def split: option.splits)
  with assms show ?thesis by (simp add: tables_ok_def)
qed (use assms in \<open>simp_all add: tables_upsert tables_edge tables_remove_lustre tables_rename_lustre\<close>,
  use assms in \<open>auto simp: tables_ok_def register_filesystem_def distinct_update remove_scoped_entry_def
    remove_scoped_namespace_edge_def clear_scoped_catalog_def distinct_filter_keys set_baseline_state_def Let_def
    forget_scoped_removed_def\<close>)

text \<open>
  C21: in every catalog that operations build from an empty one all six tables have unique
  primary keys, and each entry row holds the entry of its own key, so that loading an entry
  never reports an identity error.
\<close>

theorem catalog_wellformed:
  fixes ops
  defines "c \<equiv> foldl (\<lambda>c oper. run_op oper c) empty_catalog ops"
  shows "distinct (map fst (filesystems c)) \<and> distinct (map fst (scoped_entries c)) \<and>
    distinct (map fst (scoped_edges c)) \<and> distinct (map fst (scoped_removed c)) \<and>
    distinct (map fst (scoped_stripes c)) \<and> distinct (map fst (baselines c)) \<and>
    catalog_ok c \<and> get_scoped_entry c k = Inr (map_of (scoped_entries c) k)"
proof -
  have "catalog_ok (foldl (\<lambda>c oper. run_op oper c) c0 ops) \<and> tables_ok (foldl (\<lambda>c oper. run_op oper c) c0 ops)"
    if "catalog_ok c0" "tables_ok c0" for c0
    using that by (induction ops arbitrary: c0) (simp_all add: run_op_ok run_op_tables)
  then have "catalog_ok c" "tables_ok c"
    unfolding c_def by (simp_all add: catalog_ok_def tables_ok_def empty_catalog_def)
  then show ?thesis by (simp add: get_ok) (simp add: catalog_ok_def tables_ok_def)
qed

text \<open>Hard links, and unlinks of objects that are not directories.\<close>

fun link_op :: "Catalog \<Rightarrow> store_op \<Rightarrow> bool" where
  "link_op c (Op_hardlink edge t) = True"
| "link_op c (Op_unlink key p n t directory) =
     (\<not> directory \<and> (\<forall>e. map_of (scoped_entries c) key = Some e \<longrightarrow> e_kind e \<noteq> Directory))"
| "link_op c _ = False"

lemma link_op_entries:
  assumes "link_op c oper" "map_of (scoped_entries (run_op oper c)) k = Some e'"
  shows "\<exists>e. map_of (scoped_entries c) k = Some e \<and> e_kind e' = e_kind e \<and> unat (e_nlink e') \<le> unat (e_nlink e) + 1"
proof -
  have add: "unat (saturating_add n 1) \<le> unat n + 1" for n :: u32 by (simp add: unat_saturating_add)
  have sub: "unat (n - 1) \<le> unat n + 1" if "1 < n" for n :: u32
    using that by (simp add: unat_sub word_less_nat_alt word_le_nat_alt)
  show ?thesis
    using assms add sub
    by (cases oper) (auto simp: apply_scoped_hardlink_def apply_scoped_unlink_def Let_def update_conv' delete_conv'
        split: option.splits if_splits)
qed

lemma link_op_step:
  assumes "catalog_ok c" "links_ok c" "link_op c oper"
    and "\<forall>k e. map_of (scoped_entries c) k = Some e \<longrightarrow> unat (e_nlink e) < 2 ^ 32 - 1"
  shows "links_ok (run_op oper c)"
proof (cases oper)
  case (Op_hardlink edge t)
  with hardlink_links [OF assms(1,2,4)] show ?thesis by simp
next
  case (Op_unlink key p n t directory)
  with assms(3) have d: "\<not> directory" "\<forall>e. map_of (scoped_entries c) key = Some e \<longrightarrow> e_kind e \<noteq> Directory" by auto
  from unlink_links [OF assms(1,2) d(2)] d(1) show ?thesis by (simp add: Op_unlink)
qed (use assms(3) in auto)

lemma link_op_later:
  assumes "link_op c oper" "link_op c later"
  shows "link_op (run_op oper c) later"
proof (cases later)
  case (Op_unlink key p n t directory)
  with assms(2) have "\<not> directory" and old: "\<And>e. map_of (scoped_entries c) key = Some e \<Longrightarrow> e_kind e \<noteq> Directory" by auto
  moreover have "e_kind e \<noteq> Directory" if "map_of (scoped_entries (run_op oper c)) key = Some e" for e
    using link_op_entries [OF assms(1) that] old by metis
  ultimately show ?thesis by (simp add: Op_unlink)
qed (use assms(2) in auto)

text \<open>
  C13: any sequence of hard links and of unlinks of objects that are no directories keeps the
  link count of every object that is not a directory equal to the number of its namespace
  edges, as long as no count can pass the 32-bit limit. (Operations that write an edge or an
  entry alone do not keep this, and are not part of the sequence.)
\<close>

theorem link_counts:
  assumes "catalog_ok c" "links_ok c" "list_all (link_op c) ops"
    and "\<forall>k e. map_of (scoped_entries c) k = Some e \<longrightarrow> unat (e_nlink e) + length ops < 2 ^ 32"
  shows "links_ok (foldl (\<lambda>c oper. run_op oper c) c ops)"
  using assms
proof (induction ops arbitrary: c)
  case (Cons oper ops)
  let ?c = "run_op oper c"
  from Cons.prems have oper: "link_op c oper" and ops: "list_all (link_op c) ops" by simp_all
  have small: "\<forall>k e. map_of (scoped_entries c) k = Some e \<longrightarrow> unat (e_nlink e) < 2 ^ 32 - 1"
    using Cons.prems(4) by fastforce
  have "\<forall>k e. map_of (scoped_entries ?c) k = Some e \<longrightarrow> unat (e_nlink e) + length ops < 2 ^ 32"
  proof (intro allI impI)
    fix k e
    assume "map_of (scoped_entries ?c) k = Some e"
    from link_op_entries [OF oper this] obtain e0 where
      "map_of (scoped_entries c) k = Some e0" "unat (e_nlink e) \<le> unat (e_nlink e0) + 1" by blast
    with Cons.prems(4) show "unat (e_nlink e) + length ops < 2 ^ 32" by fastforce
  qed
  moreover have "list_all (link_op ?c) ops"
    using ops link_op_later [OF oper] by (auto simp: list_all_iff)
  ultimately show ?case
    using Cons.IH [of ?c] run_op_ok [OF Cons.prems(1)] link_op_step [OF Cons.prems(1,2) oper small] by simp
qed simp

definition link_demo_catalog :: Catalog where
  "link_demo_catalog = demo_catalog\<lparr>
     scoped_entries := [(EntryKey ''lustre-a'' (OLustre (er_fid sample_attrs)),
       (from_lustre ''lustre-a'' sample_attrs)\<lparr>e_kind := File, e_nlink := 1\<rparr>)],
     scoped_edges := [((''lustre-a'', OLustre (LuFid 0x200000401 1 0), ''a''), OLustre (er_fid sample_attrs))]\<rparr>"

abbreviation link_demo_ops :: "store_op list" where
  "link_demo_ops \<equiv>
     [Op_hardlink \<lparr>ed_filesystem = ''lustre-a'', ed_parent = OLustre (LuFid 0x200000401 1 0), ed_name = ''b'', ed_object = OLustre (er_fid sample_attrs)\<rparr> 5,
      Op_unlink (EntryKey ''lustre-a'' (OLustre (er_fid sample_attrs))) (OLustre (LuFid 0x200000401 1 0)) ''a'' 6 False]"

theorem link_counts_witness:
  "links_ok (foldl (\<lambda>c oper. run_op oper c) link_demo_catalog link_demo_ops) \<and>
   map fst (scoped_entries (foldl (\<lambda>c oper. run_op oper c) link_demo_catalog link_demo_ops)) \<noteq> [] \<and>
   map fst (scoped_edges (foldl (\<lambda>c oper. run_op oper c) link_demo_catalog link_demo_ops)) = [(''lustre-a'', OLustre (LuFid 0x200000401 1 0), ''b'')]"
proof
  show "links_ok (foldl (\<lambda>c oper. run_op oper c) link_demo_catalog link_demo_ops)"
  proof (rule link_counts)
    show "catalog_ok link_demo_catalog"
      by (simp add: link_demo_catalog_def demo_catalog_def catalog_ok_def fk_ok_def from_lustre_def empty_catalog_def)
    show "links_ok link_demo_catalog"
      by (simp add: link_demo_catalog_def links_ok_def edge_count_def)
    show "list_all (link_op link_demo_catalog) link_demo_ops"
      by (simp add: link_demo_catalog_def)
    show "\<forall>k e. map_of (scoped_entries link_demo_catalog) k = Some e \<longrightarrow> unat (e_nlink e) + length link_demo_ops < 2 ^ 32"
      by (simp add: link_demo_catalog_def)
  qed
qed (simp add: link_demo_catalog_def apply_scoped_hardlink_def apply_scoped_unlink_def Let_def edge_key_of_def saturating_add_def)

lemma unlink_gone:
  "map_of (scoped_edges (snd (apply_scoped_unlink c key p n t d))) (key_filesystem key, p, n)
     \<noteq> Some (key_object key)"
  by (simp add: apply_scoped_unlink_def Let_def delete_conv' split: option.split)

lemma unlink_noop:
  "map_of (scoped_edges c) (key_filesystem key, p, n) \<noteq> Some (key_object key) \<Longrightarrow>
   apply_scoped_unlink c key p n t d = (Inr (), c)"
  by (simp add: apply_scoped_unlink_def)

lemma hardlink_present:
  "fst (apply_scoped_hardlink c edge t) = Inr () \<Longrightarrow>
   map_of (scoped_edges (snd (apply_scoped_hardlink c edge t))) (edge_key_of edge) = Some (ed_object edge)"
  by (simp add: apply_scoped_hardlink_def Let_def update_conv' split: option.splits if_splits)

lemma hardlink_noop:
  "map_of (scoped_edges c) (edge_key_of edge) = Some (ed_object edge) \<Longrightarrow>
   apply_scoped_hardlink c edge t = (Inr (), c)"
  by (simp add: apply_scoped_hardlink_def)

text \<open>
  C22: replayed records are harmless: unlinking the same edge again changes nothing, at
  any time and for files and directories alike, and so does a hard link that has been
  applied.
\<close>

theorem replay_idempotent:
  "apply_scoped_unlink (snd (apply_scoped_unlink c key p n t d)) key p n t' d' =
     (Inr (), snd (apply_scoped_unlink c key p n t d)) \<and>
   (fst (apply_scoped_hardlink c edge t) = Inr () \<longrightarrow>
     apply_scoped_hardlink (snd (apply_scoped_hardlink c edge t)) edge t' =
       (Inr (), snd (apply_scoped_hardlink c edge t)))"
  using unlink_noop [OF unlink_gone] hardlink_noop [OF hardlink_present] by blast

theorem replay_idempotent_witness:
  "fst (apply_scoped_hardlink replay_catalog replay_edge 1) = Inr () \<and>
   apply_scoped_hardlink (snd (apply_scoped_hardlink replay_catalog replay_edge 1)) replay_edge 2 =
     (Inr (), snd (apply_scoped_hardlink replay_catalog replay_edge 1))"
proof -
  have "fst (apply_scoped_hardlink replay_catalog replay_edge 1) = Inr ()"
    by (simp add: apply_scoped_hardlink_def replay_catalog_def replay_edge_def edge_key_of_def
        demo_catalog_def empty_catalog_def Let_def)
  with replay_idempotent show ?thesis by blast
qed

text \<open>
  A Lustre rename in a registered Lustre filesystem succeeds; afterwards the new path
  leads to the object and is its only edge, the entry is the renamed one, an object that
  the path led to before is gone from the entries and, if it was cataloged, kept in the
  removed set with the time of the rename, and every other entry is unchanged.
\<close>

theorem rename_lustre_effect:
  fixes c fs config entry p t
  assumes "catalog_ok c" "map_of (filesystems c) fs = Some config" "fs_backend config = Lustre"
    and p: "er_parent_fid entry = Some p"
  defines "key \<equiv> EntryKey fs (OLustre (er_fid entry))"
    and "c' \<equiv> snd (rename_lustre_entry c fs entry t)"
  shows "fst (rename_lustre_entry c fs entry t) = Inr () \<and>
    lookup_scoped_namespace_child c' fs (OLustre p) (e_name entry) = Some key \<and>
    list_scoped_object_edges c' key =
      [\<lparr>ed_filesystem = fs, ed_parent = OLustre p, ed_name = e_name entry,
        ed_object = OLustre (er_fid entry)\<rparr>] \<and>
    map_of (scoped_entries c') key = Some (from_lustre fs entry) \<and>
    (\<forall>g. displaced c fs entry = Some g \<and> g \<noteq> er_fid entry \<longrightarrow>
       map_of (scoped_entries c') (EntryKey fs (OLustre g)) = None \<and>
       (\<forall>e. map_of (scoped_entries c) (EntryKey fs (OLustre g)) = Some e \<longrightarrow>
          map_of (scoped_removed c') (EntryKey fs (OLustre g)) = Some (e, t))) \<and>
    (\<forall>k. k \<noteq> key \<and> (\<forall>g. displaced c fs entry = Some g \<longrightarrow> k \<noteq> EntryKey fs (OLustre g)) \<longrightarrow>
       map_of (scoped_entries c') k = map_of (scoped_entries c) k)"
proof -
  let ?P = "\<lambda>((g, q, n), x). g = fs \<and> x = OLustre (er_fid entry)"
  have one: "filter ?P (AList.update (fs, OLustre p, e_name entry) (OLustre (er_fid entry))
      (filter (\<lambda>((g, q, n), x). \<not> (g = fs \<and> x = OLustre (er_fid entry))) es)) =
      [((fs, OLustre p, e_name entry), OLustre (er_fid entry))]" for es
    by (rule filter_update_single) auto
  note r = rename_lustre_run [OF assms(1-4), of t]
  show ?thesis
    unfolding c'_def r list_scoped_object_edges_def edges_of_def lookup_scoped_namespace_child_def key_def
    using one remove_lustre_effect(3,4) [OF assms(1)]
    by (auto simp: update_conv' split: option.splits)
qed

theorem rename_lustre_effect_witness:
  "fst (rename_lustre_entry demo_catalog ''lustre-a'' sample_attrs 9) = Inr () \<and>
   lookup_scoped_namespace_child (snd (rename_lustre_entry demo_catalog ''lustre-a'' sample_attrs 9))
     ''lustre-a'' (OLustre (LuFid 0x200000401 1 0)) ''report_2026.csv'' =
       Some (EntryKey ''lustre-a'' (OLustre (LuFid 0x200000401 0x42 0)))"
proof -
  have "map_of (filesystems demo_catalog) ''lustre-a'' = Some (snd (hd (filesystems demo_catalog)))"
    "fs_backend (snd (hd (filesystems demo_catalog))) = Lustre"
    "er_parent_fid sample_attrs = Some (LuFid 0x200000401 1 0)"
    by (simp_all add: demo_catalog_def empty_catalog_def sample_attrs_def)
  note r = rename_lustre_effect [OF demo_ok(1) this, of 9]
  have "e_name sample_attrs = ''report_2026.csv''" "er_fid sample_attrs = LuFid 0x200000401 0x42 0"
    by (simp_all add: sample_attrs_def)
  with r [THEN conjunct1] r [THEN conjunct2, THEN conjunct1] show ?thesis by (intro conjI) (simp_all only:)
qed

end
