(* ===== verification/Rbh_Namespace.thy ===== *)
theory Rbh_Namespace
  imports Rbh_Store "HOL-Library.Sublist"
begin

text \<open>
  Namespace resolution (\<open>crates/rbh-namespace\<close>): from an object or a path to both, with the
  live metadata, for Lustre and for JuiceFS filesystems.

  A path is the list of its components, which is how \<open>std::path\<close> compares, strips and joins
  paths. The system calls and the Lustre library are a record of functions: what they
  answer during one resolution. \<open>None\<close> is an error of the call.
\<close>

section \<open>Paths\<close>

datatype Component = RootDir | CurDir | ParentDir | Normal string

type_synonym path = "Component list"

definition is_absolute :: "string \<Rightarrow> bool" where
  "is_absolute s = (case s of [] \<Rightarrow> False | c # _ \<Rightarrow> c = CHR ''/'')"

definition segment :: "string \<Rightarrow> Component" where
  "segment s = (if s = ''..'' then ParentDir else Normal s)"

definition segments :: "string list \<Rightarrow> path" where
  "segments ss = map segment (filter (\<lambda>s. s \<noteq> [] \<and> s \<noteq> ''.'') ss)"

definition path_of :: "string \<Rightarrow> path" where
  "path_of s =
     (let ss = split_on (CHR ''/'') s
      in (if is_absolute s then [RootDir] else if hd ss = ''.'' then [CurDir] else []) @ segments ss)"

definition path_push :: "path \<Rightarrow> string \<Rightarrow> path" where
  "path_push p n =
     (if is_absolute n then path_of n
      else if p = [] then path_of n
      else p @ segments (split_on (CHR ''/'') n))"

definition path_join :: "path \<Rightarrow> path \<Rightarrow> path" where
  "path_join p q =
     (if q \<noteq> [] \<and> hd q = RootDir then q
      else if p = [] then q
      else p @ filter (\<lambda>x. x \<noteq> CurDir) q)"

definition path_parent :: "path \<Rightarrow> path option" where
  "path_parent p = (if p = [] \<or> last p = RootDir then None else Some (butlast p))"

definition path_strip_prefix :: "path \<Rightarrow> path \<Rightarrow> path option" where
  "path_strip_prefix base p = (if prefix base p then Some (drop (length base) p) else None)"

section \<open>The environment\<close>

record Metadata =
  md_kind :: EntryKind
  md_dev :: u64
  md_ino :: u64
  md_size :: u64
  md_blocks :: u64
  md_uid :: u32
  md_gid :: u32
  md_mode :: u32
  md_nlink :: u64
  md_atime :: i64
  md_mtime :: i64
  md_ctime :: i64

record FsEnv =
  symlink_metadata :: "path \<Rightarrow> Metadata option"
  canonicalize :: "path \<Rightarrow> path option"
  fid_to_path :: "LuFid \<Rightarrow> path option"
  path_to_fid :: "path \<Rightarrow> LuFid option"

section \<open>Targets, results, errors\<close>

datatype NamespaceTarget = TObject EntryKey | TPath path

record NamespaceStat =
  ns_kind :: EntryKind
  ns_size :: u64
  ns_nlink :: u64
  ns_inode :: u64

record ResolvedNamespace =
  rn_key :: EntryKey
  rn_path :: path
  rn_stat :: NamespaceStat

datatype NamespaceError =
    WrongFilesystem string string
  | OutsideFilesystem string path
  | NsNotFound EntryKey
  | MissingParent EntryKey
  | StalePath EntryKey
  | Cycle EntryKey
  | NsBackendMismatch string
  | NsStore StoreError
  | NsIo path
  | NsLustre string

section \<open>The adapter\<close>

record NamespaceAdapter =
  na_store :: Catalog
  na_config :: FileSystemConfig

definition adapter_new :: "Catalog \<Rightarrow> string \<Rightarrow> NamespaceError + NamespaceAdapter" where
  "adapter_new c fs =
     (case get_filesystem c fs of
        None \<Rightarrow> Inl (NsBackendMismatch fs)
      | Some config \<Rightarrow>
          if \<not> namespace (capabilities config) then Inl (NsBackendMismatch fs)
          else Inr \<lparr>na_store = c, na_config = config\<rparr>)"

abbreviation na_id :: "NamespaceAdapter \<Rightarrow> string" where
  "na_id a \<equiv> fs_id (na_config a)"

abbreviation na_mount :: "NamespaceAdapter \<Rightarrow> path" where
  "na_mount a \<equiv> path_of (mount_path (na_config a))"

definition check_key :: "NamespaceAdapter \<Rightarrow> EntryKey \<Rightarrow> NamespaceError option" where
  "check_key a key =
     (if key_filesystem key \<noteq> na_id a then Some (WrongFilesystem (na_id a) (key_filesystem key))
      else None)"

definition relative_path :: "NamespaceAdapter \<Rightarrow> FsEnv \<Rightarrow> path \<Rightarrow> NamespaceError + path" where
  "relative_path a env p =
     (if ParentDir \<in> set p then Inl (OutsideFilesystem (na_id a) p)
      else (case path_strip_prefix (na_mount a) p of
              None \<Rightarrow> Inl (OutsideFilesystem (na_id a) p)
            | Some relative \<Rightarrow>
                if relative = [] then Inr []
                else
                  (let parent_path = (case path_parent p of Some q \<Rightarrow> q | None \<Rightarrow> p)
                   in case canonicalize env (na_mount a) of
                        None \<Rightarrow> Inl (NsIo (na_mount a))
                      | Some mount \<Rightarrow>
                        (case canonicalize env parent_path of
                           None \<Rightarrow> Inl (NsIo parent_path)
                         | Some parent \<Rightarrow>
                             if \<not> prefix mount parent then Inl (OutsideFilesystem (na_id a) p)
                             else Inr relative))))"

definition ns_stat_path :: "FsEnv \<Rightarrow> path \<Rightarrow> NamespaceError + NamespaceStat" where
  "ns_stat_path env p =
     (case symlink_metadata env p of
        None \<Rightarrow> Inl (NsIo p)
      | Some md \<Rightarrow> Inr \<lparr>ns_kind = md_kind md, ns_size = md_size md, ns_nlink = md_nlink md,
                         ns_inode = md_ino md\<rparr>)"

definition juice_root :: "NamespaceAdapter \<Rightarrow> FsEnv \<Rightarrow> NamespaceError + EntryKey" where
  "juice_root a env =
     (case ns_stat_path env (na_mount a) of
        Inl e \<Rightarrow> Inl e
      | Inr st \<Rightarrow>
        (let key = EntryKey (na_id a) (OJuiceFs (ns_inode st))
         in case get_scoped_entry (na_store a) key of
              Inl e \<Rightarrow> Inl (NsStore e)
            | Inr None \<Rightarrow> Inl (NsNotFound key)
            | Inr (Some _) \<Rightarrow> Inr key))"

lemma get_scoped_entry_dom:
  "get_scoped_entry c key = Inr (Some entry) \<Longrightarrow> key \<in> fst ` set (scoped_entries c)"
  by (auto simp: get_scoped_entry_def split: option.splits if_splits
      dest!: map_of_SomeD intro: rev_image_eqI)

text \<open>The walk to the root. The names are collected with the one nearest the root first.\<close>

function juice_walk ::
  "Catalog \<Rightarrow> EntryKey \<Rightarrow> EntryKey \<Rightarrow> EntryKey list \<Rightarrow> bytes list \<Rightarrow> NamespaceError + bytes list" where
  "juice_walk c root current visited names =
     (if current = root then Inr names
      else if current \<in> set visited then Inl (Cycle current)
      else (case get_scoped_entry c current of
              Inl e \<Rightarrow> Inl (NsStore e)
            | Inr None \<Rightarrow> Inl (MissingParent current)
            | Inr (Some entry) \<Rightarrow>
              (case se_parent entry of
                 None \<Rightarrow> Inl (MissingParent current)
               | Some parent \<Rightarrow>
                   juice_walk c root parent (current # visited) (e_name entry # names))))"
  by pat_completeness auto
termination
  by (relation "measure (\<lambda>(c, root, current, visited, names).
      card (fst ` set (scoped_entries c) - set visited))")
    (auto intro!: psubset_card_mono dest: get_scoped_entry_dom)

declare juice_walk.simps [simp del]

definition juice_parent_path :: "NamespaceAdapter \<Rightarrow> FsEnv \<Rightarrow> EntryKey \<Rightarrow> NamespaceError + path" where
  "juice_parent_path a env key =
     (case juice_root a env of
        Inl e \<Rightarrow> Inl e
      | Inr root \<Rightarrow>
        (case juice_walk (na_store a) root key [] [] of
           Inl e \<Rightarrow> Inl e
         | Inr names \<Rightarrow> Inr (foldl path_push (na_mount a) names)))"

fun resolve_edges ::
  "NamespaceAdapter \<Rightarrow> FsEnv \<Rightarrow> EntryKey \<Rightarrow> u64 \<Rightarrow> bool \<Rightarrow> ScopedNamespaceEdge list \<Rightarrow>
   NamespaceError + ResolvedNamespace" where
  "resolve_edges a env key inode resolved_parent [] =
     Inl (if resolved_parent then StalePath key else MissingParent key)"
| "resolve_edges a env key inode resolved_parent (edge # edges) =
     (case juice_parent_path a env (EntryKey (na_id a) (ed_parent edge)) of
        Inl (MissingParent _) \<Rightarrow> resolve_edges a env key inode resolved_parent edges
      | Inl (NsNotFound _) \<Rightarrow> resolve_edges a env key inode resolved_parent edges
      | Inl e \<Rightarrow> Inl e
      | Inr parent_path \<Rightarrow>
        (let p = path_push parent_path (ed_name edge)
         in case relative_path a env p of
              Inl e \<Rightarrow> Inl e
            | Inr _ \<Rightarrow>
              (case ns_stat_path env p of
                 Inr st \<Rightarrow>
                   if ns_inode st = inode
                   then Inr \<lparr>rn_key = key, rn_path = p, rn_stat = st\<rparr>
                   else resolve_edges a env key inode True edges
               | Inl _ \<Rightarrow> resolve_edges a env key inode True edges)))"

definition resolve_juice_object ::
  "NamespaceAdapter \<Rightarrow> FsEnv \<Rightarrow> EntryKey \<Rightarrow> NamespaceError + ResolvedNamespace" where
  "resolve_juice_object a env key =
     (case check_key a key of
        Some e \<Rightarrow> Inl e
      | None \<Rightarrow>
        (case key_object key of
           OLustre _ \<Rightarrow> Inl (NsBackendMismatch (na_id a))
         | OJuiceFs expected_inode \<Rightarrow>
           (case juice_root a env of
              Inl e \<Rightarrow> Inl e
            | Inr root \<Rightarrow>
                if key = root then
                  (case ns_stat_path env (na_mount a) of
                     Inl e \<Rightarrow> Inl e
                   | Inr st \<Rightarrow> Inr \<lparr>rn_key = key, rn_path = na_mount a, rn_stat = st\<rparr>)
                else (case get_scoped_entry (na_store a) key of
                        Inl e \<Rightarrow> Inl (NsStore e)
                      | Inr None \<Rightarrow> Inl (NsNotFound key)
                      | Inr (Some _) \<Rightarrow>
                        (let edges = list_scoped_object_edges (na_store a) key
                         in if edges = [] then Inl (MissingParent key)
                            else resolve_edges a env key expected_inode False edges)))))"

text \<open>The loop over the components of a path; those that are not names are skipped.\<close>

fun follow_components ::
  "Catalog \<Rightarrow> string \<Rightarrow> EntryKey \<Rightarrow> path \<Rightarrow> NamespaceError + EntryKey" where
  "follow_components c fs key [] = Inr key"
| "follow_components c fs key (Normal nm # rest) =
     (case lookup_scoped_namespace_child c fs (key_object key) nm of
        None \<Rightarrow> Inl (StalePath key)
      | Some child \<Rightarrow> follow_components c fs child rest)"
| "follow_components c fs key (_ # rest) = follow_components c fs key rest"

definition resolve_juice_path ::
  "NamespaceAdapter \<Rightarrow> FsEnv \<Rightarrow> path \<Rightarrow> NamespaceError + ResolvedNamespace" where
  "resolve_juice_path a env p =
     (case relative_path a env p of
        Inl e \<Rightarrow> Inl e
      | Inr relative \<Rightarrow>
        (case ns_stat_path env p of
           Inl e \<Rightarrow> Inl e
         | Inr st \<Rightarrow>
           (case juice_root a env of
              Inl e \<Rightarrow> Inl e
            | Inr root \<Rightarrow>
              (case follow_components (na_store a) (na_id a) root relative of
                 Inl e \<Rightarrow> Inl e
               | Inr key \<Rightarrow>
                   if key_object key \<noteq> OJuiceFs (ns_inode st) then Inl (StalePath key)
                   else Inr \<lparr>rn_key = key, rn_path = p, rn_stat = st\<rparr>))))"

definition lustre_target ::
  "NamespaceAdapter \<Rightarrow> FsEnv \<Rightarrow> NamespaceTarget \<Rightarrow> NamespaceError + EntryKey \<times> path" where
  "lustre_target a env target =
     (case target of
        TPath p \<Rightarrow>
          (case relative_path a env p of
             Inl e \<Rightarrow> Inl e
           | Inr _ \<Rightarrow>
             (case path_to_fid env p of
                None \<Rightarrow> Inl (NsLustre ''path2fid'')
              | Some f \<Rightarrow> Inr (EntryKey (na_id a) (OLustre f), p)))
      | TObject key \<Rightarrow>
          (case check_key a key of
             Some e \<Rightarrow> Inl e
           | None \<Rightarrow>
             (case key_object key of
                OJuiceFs _ \<Rightarrow> Inl (NsBackendMismatch (na_id a))
              | OLustre f \<Rightarrow>
                (case fid_to_path env f of
                   None \<Rightarrow> Inl (StalePath key)
                 | Some relative \<Rightarrow>
                     if relative \<noteq> [] \<and> hd relative = RootDir then Inl (StalePath key)
                     else
                       (let p = path_join (na_mount a) relative
                        in case relative_path a env p of
                             Inl e \<Rightarrow> Inl e
                           | Inr _ \<Rightarrow>
                               if path_to_fid env p \<noteq> Some f then Inl (StalePath key)
                               else Inr (key, p))))))"

definition resolve_lustre ::
  "NamespaceAdapter \<Rightarrow> FsEnv \<Rightarrow> NamespaceTarget \<Rightarrow> NamespaceError + ResolvedNamespace" where
  "resolve_lustre a env target =
     (case lustre_target a env target of
        Inl e \<Rightarrow> Inl e
      | Inr (key, p) \<Rightarrow>
        (case ns_stat_path env p of
           Inl _ \<Rightarrow> Inl (StalePath key)
         | Inr st \<Rightarrow> Inr \<lparr>rn_key = key, rn_path = p, rn_stat = st\<rparr>))"

definition resolve ::
  "NamespaceAdapter \<Rightarrow> FsEnv \<Rightarrow> NamespaceTarget \<Rightarrow> NamespaceError + ResolvedNamespace" where
  "resolve a env target =
     (case fs_backend (na_config a) of
        Lustre \<Rightarrow> resolve_lustre a env target
      | JuiceFs \<Rightarrow>
        (case target of
           TObject key \<Rightarrow> resolve_juice_object a env key
         | TPath p \<Rightarrow> resolve_juice_path a env p))"


section \<open>The walk to the root\<close>

text \<open>Where an object lies, by the parent links of the catalog.\<close>

inductive located :: "Catalog \<Rightarrow> EntryKey \<Rightarrow> EntryKey \<Rightarrow> bytes list \<Rightarrow> bool" for c root where
  at_root: "located c root root []"
| under: "key \<noteq> root \<Longrightarrow> get_scoped_entry c key = Inr (Some entry) \<Longrightarrow> se_parent entry = Some parent \<Longrightarrow>
    located c root parent names \<Longrightarrow> located c root key (names @ [e_name entry])"

inductive_cases located_rootE: "located c root root names"
inductive_cases locatedE: "located c root key names"

lemma located_unique: "located c root key ns \<Longrightarrow> located c root key ns' \<Longrightarrow> ns' = ns"
proof (induction arbitrary: ns' rule: located.induct)
  case at_root
  then show ?case by (auto elim: located_rootE)
next
  case (under key entry parent names)
  from under.prems show ?case
  proof cases
    case at_root
    with under.hyps(1) show ?thesis by simp
  next
    case (under entry' parent' names')
    with under.hyps have "entry' = entry" "parent' = parent" by simp_all
    with under under.IH [of names'] show ?thesis by simp
  qed
qed

lemma walk_sound:
  "juice_walk c root key visited acc = Inr names \<Longrightarrow> \<exists>ns. located c root key ns \<and> names = ns @ acc"
proof (induction c root key visited acc rule: juice_walk.induct)
  case (1 c root current visited acc)
  show ?case
  proof (cases "current = root")
    case True
    with "1.prems" show ?thesis by (auto simp: juice_walk.simps [of c root] intro: located.at_root)
  next
    case False
    with "1.prems" obtain entry parent where
      step: "current \<notin> set visited" "get_scoped_entry c current = Inr (Some entry)"
        "se_parent entry = Some parent"
        "juice_walk c root parent (current # visited) (e_name entry # acc) = Inr names"
      by (subst (asm) juice_walk.simps) (auto split: if_splits sum.splits option.splits)
    from "1.IH" [OF False step(1,2) _ step(3,4)] obtain ns where
      "located c root parent ns" "names = ns @ e_name entry # acc" by auto
    with False step show ?thesis by (auto intro: located.under)
  qed
qed

lemma walk_complete:
  "located c root key ns \<Longrightarrow>
   \<forall>v \<in> set visited. \<forall>ns'. located c root v ns' \<longrightarrow> length ns < length ns' \<Longrightarrow>
   juice_walk c root key visited acc = Inr (ns @ acc)"
proof (induction arbitrary: visited acc rule: located.induct)
  case at_root
  then show ?case by (simp add: juice_walk.simps)
next
  case (under key entry parent names)
  have here: "located c root key (names @ [e_name entry])" by (rule located.under [OF under.hyps])
  have fresh: "key \<notin> set visited" using under.prems here by fastforce
  have "length names < length ns'" if "v \<in> set (key # visited)" "located c root v ns'" for v ns'
  proof (cases "v = key")
    case True
    with that(2) located_unique [OF here] show ?thesis by fastforce
  next
    case False
    with that under.prems show ?thesis by fastforce
  qed
  then have "juice_walk c root parent (key # visited) (e_name entry # acc) = Inr (names @ e_name entry # acc)"
    by (intro under.IH) blast
  with fresh under.hyps show ?case by (subst juice_walk.simps) simp
qed

lemma walk_iff: "juice_walk c root key [] [] = Inr names \<longleftrightarrow> located c root key names"
  using walk_sound [of c root key "[]" "[]" names] walk_complete [of c root key names "[]" "[]"] by auto


text \<open>The parent link of the catalog, and the cycles that the walk reports.\<close>

definition parent_of :: "Catalog \<Rightarrow> EntryKey \<Rightarrow> EntryKey \<Rightarrow> bool" where
  "parent_of c x y \<longleftrightarrow> (\<exists>entry. get_scoped_entry c x = Inr (Some entry) \<and> se_parent entry = Some y)"

lemma walk_cycle:
  "juice_walk c root key visited acc = Inl (Cycle k) \<Longrightarrow>
   \<forall>v \<in> set visited. (parent_of c)\<^sup>+\<^sup>+ v key \<Longrightarrow> (parent_of c)\<^sup>*\<^sup>* key k \<and> (parent_of c)\<^sup>+\<^sup>+ k k"
proof (induction c root key visited acc rule: juice_walk.induct)
  case (1 c root current visited acc)
  show ?case
  proof (cases "current \<in> set visited")
    case True
    with "1.prems" show ?thesis
      by (subst (asm) juice_walk.simps) (auto split: if_splits)
  next
    case False
    with "1.prems"(1) obtain entry parent where
      step: "current \<noteq> root" "get_scoped_entry c current = Inr (Some entry)" "se_parent entry = Some parent"
        "juice_walk c root parent (current # visited) (e_name entry # acc) = Inl (Cycle k)"
      by (subst (asm) juice_walk.simps) (auto split: if_splits sum.splits option.splits)
    have link: "parent_of c current parent" using step(2,3) by (auto simp: parent_of_def)
    then have "\<forall>v \<in> set (current # visited). (parent_of c)\<^sup>+\<^sup>+ v parent"
      using "1.prems"(2) by (auto intro: tranclp.trancl_into_trancl)
    from "1.IH" [OF step(1) False step(2) _ step(3,4) this] link
    show ?thesis by (auto intro: converse_rtranclp_into_rtranclp)
  qed
qed

lemma walk_bounded:
  "juice_walk c root key visited acc = Inr names \<Longrightarrow>
   length names \<le> length acc + card (fst ` set (scoped_entries c) - set visited)"
proof (induction c root key visited acc rule: juice_walk.induct)
  case (1 c root current visited acc)
  show ?case
  proof (cases "current = root")
    case True
    with "1.prems" show ?thesis by (simp add: juice_walk.simps [of c root])
  next
    case False
    with "1.prems" obtain entry parent where
      step: "current \<notin> set visited" "get_scoped_entry c current = Inr (Some entry)"
        "se_parent entry = Some parent"
        "juice_walk c root parent (current # visited) (e_name entry # acc) = Inr names"
      by (subst (asm) juice_walk.simps) (auto split: if_splits sum.splits option.splits)
    let ?D = "fst ` set (scoped_entries c)"
    have "current \<in> ?D - set visited" using step(1,2) by (auto dest: get_scoped_entry_dom)
    moreover have "finite (?D - set visited)" by simp
    ultimately have "card (?D - set visited) = Suc (card (?D - set visited - {current}))"
      by (rule card.remove [rotated])
    moreover have "?D - set (current # visited) = ?D - set visited - {current}" by auto
    ultimately have "card (?D - set visited) = Suc (card (?D - set (current # visited)))" by metis
    with "1.IH" [OF False step(1,2) _ step(3,4)] show ?thesis by simp
  qed
qed

section \<open>Soundness of a resolution\<close>

definition path_inside :: "NamespaceAdapter \<Rightarrow> FsEnv \<Rightarrow> path \<Rightarrow> bool" where
  "path_inside a env p \<longleftrightarrow> p = na_mount a \<or>
     (ParentDir \<notin> set p \<and> prefix (na_mount a) p \<and>
      (\<exists>mount parent. canonicalize env (na_mount a) = Some mount \<and>
         canonicalize env (case path_parent p of Some q \<Rightarrow> q | None \<Rightarrow> p) = Some parent \<and>
         prefix mount parent))"

lemma relative_path_inside:
  assumes "relative_path a env p = Inr rel"
  shows "path_inside a env p"
proof -
  from assms have "ParentDir \<notin> set p" and pre: "prefix (na_mount a) p"
    by (auto simp: relative_path_def path_strip_prefix_def split: if_splits)
  moreover have "p = na_mount a" if "drop (length (na_mount a)) p = []"
    using pre that by (auto elim!: prefixE)
  moreover have "\<exists>mount parent. canonicalize env (na_mount a) = Some mount \<and>
      canonicalize env (case path_parent p of Some q \<Rightarrow> q | None \<Rightarrow> p) = Some parent \<and> prefix mount parent"
    if "drop (length (na_mount a)) p \<noteq> []"
    using assms that pre \<open>ParentDir \<notin> set p\<close> unfolding relative_path_def path_strip_prefix_def Let_def
    by (simp split: option.splits if_splits)
  ultimately show ?thesis unfolding path_inside_def by blast
qed

definition resolution_ok :: "NamespaceAdapter \<Rightarrow> FsEnv \<Rightarrow> ResolvedNamespace \<Rightarrow> bool" where
  "resolution_ok a env r \<longleftrightarrow>
     path_inside a env (rn_path r) \<and> ns_stat_path env (rn_path r) = Inr (rn_stat r) \<and>
     key_filesystem (rn_key r) = na_id a \<and>
     (case key_object (rn_key r) of
        OJuiceFs inode \<Rightarrow> fs_backend (na_config a) = JuiceFs \<and> ns_inode (rn_stat r) = inode
      | OLustre f \<Rightarrow> fs_backend (na_config a) = Lustre \<and> path_to_fid env (rn_path r) = Some f)"

lemma resolve_edges_Cons:
  assumes "resolve_edges a env key inode b (edge # edges) = Inr r"
  shows "(\<exists>b'. resolve_edges a env key inode b' edges = Inr r) \<or>
    (\<exists>p st rel. r = \<lparr>rn_key = key, rn_path = p, rn_stat = st\<rparr> \<and> relative_path a env p = Inr rel \<and>
       ns_stat_path env p = Inr st \<and> ns_inode st = inode)"
proof (cases "juice_parent_path a env (EntryKey (na_id a) (ed_parent edge))")
  case (Inl e)
  with assms show ?thesis by (cases e) auto
next
  case (Inr q)
  with assms show ?thesis by (auto simp: Let_def split: sum.splits if_splits)
qed

lemma resolve_edges_sound:
  "resolve_edges a env key inode b edges = Inr r \<Longrightarrow>
   rn_key r = key \<and> path_inside a env (rn_path r) \<and> ns_stat_path env (rn_path r) = Inr (rn_stat r) \<and>
   ns_inode (rn_stat r) = inode"
proof (induction edges arbitrary: b)
  case (Cons edge edges)
  from resolve_edges_Cons [OF Cons.prems] show ?case
  proof (elim disjE exE conjE)
    fix b'
    assume "resolve_edges a env key inode b' edges = Inr r"
    then show ?case by (rule Cons.IH)
  next
    fix p st rel
    assume "r = \<lparr>rn_key = key, rn_path = p, rn_stat = st\<rparr>" "relative_path a env p = Inr rel"
      "ns_stat_path env p = Inr st" "ns_inode st = inode"
    then show ?case by (simp add: relative_path_inside)
  qed
qed simp

lemma juice_root_key:
  "juice_root a env = Inr root \<Longrightarrow>
   \<exists>st. ns_stat_path env (na_mount a) = Inr st \<and> root = EntryKey (na_id a) (OJuiceFs (ns_inode st))"
  by (auto simp: juice_root_def Let_def split: sum.splits option.splits)

lemma follow_filesystem:
  "follow_components c fs key p = Inr key' \<Longrightarrow> key_filesystem key = fs \<Longrightarrow> key_filesystem key' = fs"
  by (induction c fs key p rule: follow_components.induct)
    (auto simp: lookup_scoped_namespace_child_def split: option.splits)

lemma juice_object_sound:
  assumes "resolve_juice_object a env key = Inr r" "fs_backend (na_config a) = JuiceFs"
  shows "resolution_ok a env r \<and> rn_key r = key"
proof -
  from assms(1) obtain inode root where obj: "key_object key = OJuiceFs inode"
    and fs: "key_filesystem key = na_id a" and root: "juice_root a env = Inr root"
    by (auto simp: resolve_juice_object_def check_key_def split: option.splits ObjectId.splits sum.splits if_splits)
  show ?thesis
  proof (cases "key = root")
    case True
    with assms root obj fs juice_root_key [OF root] show ?thesis
      by (auto simp: resolve_juice_object_def check_key_def resolution_ok_def path_inside_def)
  next
    case False
    with assms(1) root obj have
      "resolve_edges a env key inode False (list_scoped_object_edges (na_store a) key) = Inr r"
      by (auto simp: resolve_juice_object_def check_key_def Let_def split: option.splits sum.splits if_splits)
    from resolve_edges_sound [OF this] assms(2) obj fs show ?thesis by (auto simp: resolution_ok_def)
  qed
qed

lemma juice_path_sound:
  assumes "resolve_juice_path a env p = Inr r" "fs_backend (na_config a) = JuiceFs"
  shows "resolution_ok a env r \<and> rn_path r = p"
proof -
  from assms(1) obtain rel st root key where steps: "relative_path a env p = Inr rel"
      "ns_stat_path env p = Inr st" "juice_root a env = Inr root"
      "follow_components (na_store a) (na_id a) root rel = Inr key" "key_object key = OJuiceFs (ns_inode st)"
    and r: "r = \<lparr>rn_key = key, rn_path = p, rn_stat = st\<rparr>"
    by (auto simp: resolve_juice_path_def split: sum.splits if_splits)
  have "key_filesystem root = na_id a" using juice_root_key [OF steps(3)] by auto
  with follow_filesystem [OF steps(4)] steps(2,5) relative_path_inside [OF steps(1)] assms(2) show ?thesis
    by (simp add: r resolution_ok_def)
qed

lemma lustre_sound:
  assumes "resolve_lustre a env target = Inr r" "fs_backend (na_config a) = Lustre"
  shows "resolution_ok a env r \<and>
    (case target of TObject key \<Rightarrow> rn_key r = key | TPath p \<Rightarrow> rn_path r = p)"
proof -
  from assms(1) obtain key p st where t: "lustre_target a env target = Inr (key, p)"
    and st: "ns_stat_path env p = Inr st" and r: "r = \<lparr>rn_key = key, rn_path = p, rn_stat = st\<rparr>"
    by (auto simp: resolve_lustre_def split: sum.splits)
  show ?thesis
    using t st assms(2) unfolding r lustre_target_def resolution_ok_def check_key_def Let_def
    by (auto split: NamespaceTarget.splits sum.splits option.splits ObjectId.splits if_splits
        intro: relative_path_inside)
qed


section \<open>Properties\<close>

text \<open>
  Walking from an object to the root of a JuiceFS filesystem always ends, and finds the
  path exactly when the parent links of the catalog lead to the root: the path is then the
  mount point followed by the names on the way, and has at most as many of them as the
  catalog has entries. A cycle is reported only for an object that is its own ancestor and
  lies on the way.
\<close>

theorem parent_path_correct:
  "(juice_parent_path a env key = Inr p \<longleftrightarrow>
     (\<exists>root names. juice_root a env = Inr root \<and> located (na_store a) root key names \<and>
        p = foldl path_push (na_mount a) names)) \<and>
   (located (na_store a) root key names \<longrightarrow>
      juice_walk (na_store a) root key [] [] = Inr names \<and>
      length names \<le> card (fst ` set (scoped_entries (na_store a)))) \<and>
   (juice_walk (na_store a) root key [] [] = Inl (Cycle k) \<longrightarrow>
      (parent_of (na_store a))\<^sup>*\<^sup>* key k \<and> (parent_of (na_store a))\<^sup>+\<^sup>+ k k)"
proof (intro conjI)
  show "juice_parent_path a env key = Inr p \<longleftrightarrow>
     (\<exists>root names. juice_root a env = Inr root \<and> located (na_store a) root key names \<and>
        p = foldl path_push (na_mount a) names)"
    unfolding juice_parent_path_def walk_iff [symmetric] by (auto split: sum.splits)
  show "located (na_store a) root key names \<longrightarrow>
      juice_walk (na_store a) root key [] [] = Inr names \<and>
      length names \<le> card (fst ` set (scoped_entries (na_store a)))"
    using walk_bounded [of "na_store a" root key "[]" "[]" names] by (auto simp: walk_iff)
  show "juice_walk (na_store a) root key [] [] = Inl (Cycle k) \<longrightarrow>
      (parent_of (na_store a))\<^sup>*\<^sup>* key k \<and> (parent_of (na_store a))\<^sup>+\<^sup>+ k k"
    using walk_cycle [of "na_store a" root key "[]" "[]" k] by simp
qed

definition demo_row :: "u64 \<Rightarrow> u64 option \<Rightarrow> bytes \<Rightarrow> ScopedEntryRow" where
  "demo_row inode parent nm =
     (from_lustre ''jfs'' (sample_attrs\<lparr>e_name := nm\<rparr>))
       \<lparr>se_key := EntryKey ''jfs'' (OJuiceFs inode),
        se_parent := map_option (\<lambda>p. EntryKey ''jfs'' (OJuiceFs p)) parent\<rparr>"

definition demo_tree :: Catalog where
  "demo_tree = empty_catalog
     \<lparr>filesystems := [(''jfs'', \<lparr>fs_id = ''jfs'', fs_backend = JuiceFs, mount_path = ''/jfs'',
        capabilities = \<lparr>changelog = True, namespace = True, purge = True, hsm = False,
                        stripe = False, ost = False\<rparr>\<rparr>)],
      scoped_entries := map (\<lambda>r. (se_key r, r)) [demo_row 1 None ''jfs'', demo_row 2 (Some 1) ''d''],
      scoped_edges := [((''jfs'', OJuiceFs 1, ''d''), OJuiceFs 2)]\<rparr>"

definition demo_adapter :: NamespaceAdapter where
  "demo_adapter = \<lparr>na_store = demo_tree, na_config = snd (hd (filesystems demo_tree))\<rparr>"

definition demo_metadata :: "u64 \<Rightarrow> Metadata" where
  "demo_metadata inode =
     \<lparr>md_kind = Directory, md_dev = 1, md_ino = inode, md_size = 0, md_blocks = 0, md_uid = 0, md_gid = 0,
      md_mode = 493, md_nlink = 2, md_atime = 0, md_mtime = 0, md_ctime = 0\<rparr>"

definition demo_env :: FsEnv where
  "demo_env =
     \<lparr>symlink_metadata = (\<lambda>p. if p = [RootDir, Normal ''jfs''] then Some (demo_metadata 1)
        else if p = [RootDir, Normal ''jfs'', Normal ''d''] then Some (demo_metadata 2) else None),
      canonicalize = Some, fid_to_path = (\<lambda>_. None), path_to_fid = (\<lambda>_. None)\<rparr>"

lemmas demo_defs = demo_tree_def demo_adapter_def demo_env_def demo_row_def demo_metadata_def
  from_lustre_def sample_attrs_def empty_catalog_def

lemma demo_mount: "na_mount demo_adapter = [RootDir, Normal ''jfs'']"
  by (simp add: demo_defs path_of_def is_absolute_def segments_def segment_def)

lemma demo_root: "juice_root demo_adapter demo_env = Inr (EntryKey ''jfs'' (OJuiceFs 1))"
  unfolding juice_root_def ns_stat_path_def demo_mount
  by (simp add: demo_defs get_scoped_entry_def)

lemma demo_located:
  "located demo_tree (EntryKey ''jfs'' (OJuiceFs 1)) (EntryKey ''jfs'' (OJuiceFs 2)) [''d'']"
  using located.under [of "EntryKey ''jfs'' (OJuiceFs 2)" "EntryKey ''jfs'' (OJuiceFs 1)" demo_tree
      "demo_row 2 (Some 1) ''d''" "EntryKey ''jfs'' (OJuiceFs 1)" "[]"] located.at_root
  by (simp add: demo_defs get_scoped_entry_def)

theorem parent_path_correct_witness:
  "juice_parent_path demo_adapter demo_env (EntryKey ''jfs'' (OJuiceFs 2)) =
     Inr [RootDir, Normal ''jfs'', Normal ''d''] \<and>
   juice_walk (na_store demo_adapter) (EntryKey ''jfs'' (OJuiceFs 1)) (EntryKey ''jfs'' (OJuiceFs 2)) [] [] =
     Inr [''d'']"
proof
  have loc: "located (na_store demo_adapter) (EntryKey ''jfs'' (OJuiceFs 1)) (EntryKey ''jfs'' (OJuiceFs 2)) [''d'']"
    using demo_located by (simp add: demo_adapter_def)
  have "foldl path_push (na_mount demo_adapter) [''d''] = [RootDir, Normal ''jfs'', Normal ''d'']"
    unfolding demo_mount by (simp add: path_push_def is_absolute_def segments_def segment_def)
  with loc demo_root
    parent_path_correct [of demo_adapter demo_env "EntryKey ''jfs'' (OJuiceFs 2)" "[RootDir, Normal ''jfs'', Normal ''d'']"]
  show "juice_parent_path demo_adapter demo_env (EntryKey ''jfs'' (OJuiceFs 2)) =
      Inr [RootDir, Normal ''jfs'', Normal ''d'']" by metis
  from loc parent_path_correct [of demo_adapter demo_env _ _ "EntryKey ''jfs'' (OJuiceFs 1)"]
  show "juice_walk (na_store demo_adapter) (EntryKey ''jfs'' (OJuiceFs 1)) (EntryKey ''jfs'' (OJuiceFs 2)) [] [] =
      Inr [''d'']" by blast
qed

text \<open>
  C12: Whatever a resolution returns is true of the live filesystem: the path lies inside the
  mount point of the adapter's filesystem, also after resolving symbolic links in its
  parent, and never climbs through a parent component; the metadata are those of that path;
  the object belongs to the adapter's filesystem and backend, and it is the object that is
  at the path now, by its inode for JuiceFS and by its identifier for Lustre; and the object
  or the path that was asked for is the one that is returned.
\<close>

theorem resolve_sound:
  assumes "resolve a env target = Inr r"
  shows "resolution_ok a env r \<and>
    (case target of TObject key \<Rightarrow> rn_key r = key | TPath p \<Rightarrow> rn_path r = p)"
proof (cases "fs_backend (na_config a)")
  case Lustre
  with assms show ?thesis by (intro lustre_sound) (simp_all add: resolve_def)
next
  case JuiceFs
  with assms juice_object_sound juice_path_sound show ?thesis
    by (cases target) (auto simp: resolve_def)
qed

theorem resolve_sound_witness:
  "ns_inode (rn_stat (projr (resolve demo_adapter demo_env (TPath [RootDir, Normal ''jfs'', Normal ''d''])))) = 2 \<and>
   resolution_ok demo_adapter demo_env
     (projr (resolve demo_adapter demo_env (TPath [RootDir, Normal ''jfs'', Normal ''d''])))"
proof -
  let ?p = "[RootDir, Normal ''jfs'', Normal ''d'']"
  have rel: "relative_path demo_adapter demo_env ?p = Inr [Normal ''d'']"
    unfolding relative_path_def demo_mount
    by (simp add: path_strip_prefix_def path_parent_def demo_env_def)
  have "resolve demo_adapter demo_env (TPath ?p) =
    Inr \<lparr>rn_key = EntryKey ''jfs'' (OJuiceFs 2), rn_path = ?p,
         rn_stat = \<lparr>ns_kind = Directory, ns_size = 0, ns_nlink = 2, ns_inode = 2\<rparr>\<rparr>"
  proof -
    have cfg: "fs_backend (na_config demo_adapter) = JuiceFs" "na_id demo_adapter = ''jfs''"
      by (simp_all add: demo_defs)
    have st: "ns_stat_path demo_env ?p =
        Inr \<lparr>ns_kind = Directory, ns_size = 0, ns_nlink = 2, ns_inode = 2\<rparr>"
      by (simp add: demo_defs ns_stat_path_def)
    have "follow_components (na_store demo_adapter) ''jfs'' (EntryKey ''jfs'' (OJuiceFs 1)) [Normal ''d''] =
        Inr (EntryKey ''jfs'' (OJuiceFs 2))"
      by (simp add: demo_defs lookup_scoped_namespace_child_def)
    with cfg st rel demo_root show ?thesis by (simp add: resolve_def resolve_juice_path_def)
  qed
  with resolve_sound [of demo_adapter demo_env "TPath ?p"] show ?thesis by simp
qed

end
