(* ===== verification/Rbh_Scan.thy ===== *)
theory Rbh_Scan
  imports Rbh_Namespace "HOL-Library.Multiset"
begin

text \<open>
  The scanner (\<open>crates/rbh-fs-scan\<close>): the concurrent POSIX walker of \<open>posix.rs\<close>, ignore
  patterns of \<open>walker.rs\<close>, the enrichment with Lustre identities of \<open>entry.rs\<close> and
  \<open>walker.rs\<close>, and the JuiceFS adapter of \<open>juicefs.rs\<close>.

  The walker is a state machine: the work queue, the directories its workers are in, the
  counter of pending directories and the events sent. A scheduler chooses which worker
  does its next atomic action, so that every interleaving of the workers is a schedule.
  Directory listings are part of the environment. An emitted event counts as delivered.
\<close>

section \<open>Ignore patterns\<close>

fun find_bracket :: "string \<Rightarrow> (string \<times> string) option" where
  "find_bracket [] = None"
| "find_bracket (c # cs) =
     (if c = CHR '']'' then Some ([], cs)
      else map_option (\<lambda>(a, b). (c # a, b)) (find_bracket cs))"

lemma find_bracket_length [termination_simp]:
  "find_bracket p = Some (a, b) \<Longrightarrow> length b < length p"
  by (induction p arbitrary: a) (auto split: if_splits)

text \<open>
  A pattern that starts with an opening bracket is matched up to the first closing bracket
  of the pattern, which is the first one after the opening bracket.
\<close>

function glob_matches :: "string \<Rightarrow> string \<Rightarrow> bool" where
  "glob_matches [] v = (v = [])"
| "glob_matches (c # p) v =
     (if c = CHR ''*'' then (\<exists>i \<in> set [0..<Suc (length v)]. glob_matches p (drop i v))
      else if c = CHR ''?'' then v \<noteq> [] \<and> glob_matches p (tl v)
      else if c = CHR ''['' then
        (case find_bracket p of
           None \<Rightarrow> False
         | Some (cls, rest) \<Rightarrow> v \<noteq> [] \<and> hd v \<in> set cls \<and> glob_matches rest (tl v))
      else v \<noteq> [] \<and> hd v = c \<and> glob_matches p (tl v))"
  by pat_completeness auto
termination
  by (relation "measure (\<lambda>(p, v). length p)") (auto dest: find_bracket_length)

definition ignore_lines :: "string \<Rightarrow> string list" where
  "ignore_lines contents =
     filter (\<lambda>l. l \<noteq> [] \<and> hd l \<noteq> CHR ''#'') (map trim (split_on (CHR 0x0A) contents))"

section \<open>Entries\<close>

record PosixEntry =
  pe_path :: path
  pe_parent_path :: "path option"
  pe_name :: bytes
  pe_kind :: EntryKind
  pe_device :: u64
  pe_inode :: u64
  pe_parent_inode :: "u64 option"
  pe_size :: u64
  pe_blocks :: u64
  pe_uid :: u32
  pe_gid :: u32
  pe_mode :: u32
  pe_nlink :: u32
  pe_atime :: i64
  pe_mtime :: i64
  pe_ctime :: i64
  pe_depth :: u32

record ScanConfig =
  sc_root :: path
  sc_concurrency :: nat
  sc_max_depth :: "nat option"
  sc_since_mtime :: "i64 option"
  sc_ignore_globs :: "string list"

datatype PosixWalkEvent = WEntry PosixEntry | WError path

text \<open>
  A directory listing: \<open>None\<close> when the directory cannot be opened; otherwise the entries,
  each with its name and whether it is a directory (\<open>None\<close>: its type cannot be read), and
  whether reading ends in an error.
\<close>

record ScanEnv =
  se_fs :: FsEnv
  read_dir :: "path \<Rightarrow> ((string \<times> bool option) list \<times> bool) option"
  read_to_string :: "path \<Rightarrow> string option"

definition load_rbh_ignore_file :: "ScanEnv \<Rightarrow> path \<Rightarrow> string list" where
  "load_rbh_ignore_file env root =
     (case read_to_string env (path_push root ''.rbh_ignore'') of
        None \<Rightarrow> [] | Some contents \<Rightarrow> ignore_lines contents)"

fun file_name :: "path \<Rightarrow> bytes" where
  "file_name p = (case rev p of Normal n # _ \<Rightarrow> n | _ \<Rightarrow> [])"

definition stat_entry :: "FsEnv \<Rightarrow> path \<Rightarrow> u32 \<Rightarrow> PosixEntry option" where
  "stat_entry env p depth =
     (case symlink_metadata env p of
        None \<Rightarrow> None
      | Some md \<Rightarrow>
        (case (if depth = 0 then Some None
               else (case path_parent p of
                       None \<Rightarrow> Some None
                     | Some q \<Rightarrow> map_option (\<lambda>m. Some (md_ino m)) (symlink_metadata env q))) of
           None \<Rightarrow> None
         | Some parent_inode \<Rightarrow>
             Some \<lparr>pe_path = p, pe_parent_path = (if depth > 0 then path_parent p else None),
               pe_name = file_name p, pe_kind = md_kind md,
               pe_device = md_dev md, pe_inode = md_ino md,
               pe_parent_inode = parent_inode, pe_size = md_size md, pe_blocks = md_blocks md,
               pe_uid = md_uid md, pe_gid = md_gid md, pe_mode = md_mode md,
               pe_nlink = ucast (md_nlink md), pe_atime = md_atime md, pe_mtime = md_mtime md,
               pe_ctime = md_ctime md, pe_depth = depth\<rparr>))"

section \<open>The walker\<close>

definition emit_path :: "ScanConfig \<Rightarrow> FsEnv \<Rightarrow> path \<Rightarrow> u32 \<Rightarrow> bool \<Rightarrow> PosixWalkEvent list" where
  "emit_path cfg env p depth directory =
     (case stat_entry env p depth of
        None \<Rightarrow> [WError p]
      | Some entry \<Rightarrow>
          if \<not> directory \<and> (case sc_since_mtime cfg of Some cutoff \<Rightarrow> pe_mtime entry < cutoff | None \<Rightarrow> False)
          then [] else [WEntry entry])"

definition ignored :: "string list \<Rightarrow> string \<Rightarrow> bool" where
  "ignored globs nm = (\<exists>g \<in> set globs. glob_matches g (from_utf8_lossy nm))"

text \<open>A directory in progress: its path and depth and what is left of its listing.\<close>

record job =
  jb_dir :: path
  jb_depth :: nat
  jb_rest :: "(string \<times> bool option) list"
  jb_error :: bool

record ScanProgress =
  entries_scanned :: u64
  errors :: u64
  dirs_walked :: u64

record Walker =
  wk_queue :: "(path \<times> nat) list"
  wk_active :: "job list"
  wk_pending :: nat
  wk_closed :: bool
  wk_events :: "PosixWalkEvent list"
  wk_progress :: ScanProgress
  wk_globs :: "string list"

definition walker_init :: "ScanConfig \<Rightarrow> ScanEnv \<Rightarrow> Walker" where
  "walker_init cfg env =
     \<lparr>wk_queue = [(sc_root cfg, 0)], wk_active = [], wk_pending = 1, wk_closed = False,
      wk_events = [], wk_progress = \<lparr>entries_scanned = 0, errors = 0, dirs_walked = 0\<rparr>,
      wk_globs = sc_ignore_globs cfg @ load_rbh_ignore_file env (sc_root cfg)\<rparr>"

text \<open>Sending an event counts it first.\<close>

fun count_event :: "PosixWalkEvent \<Rightarrow> ScanProgress \<Rightarrow> ScanProgress" where
  "count_event (WEntry _) g = g\<lparr>entries_scanned := entries_scanned g + 1\<rparr>"
| "count_event (WError _) g = g\<lparr>errors := errors g + 1\<rparr>"

definition emit :: "PosixWalkEvent list \<Rightarrow> Walker \<Rightarrow> Walker" where
  "emit evs w = w\<lparr>wk_events := wk_events w @ evs,
     wk_progress := fold count_event evs (wk_progress w)\<rparr>"

text \<open>A worker takes a directory, counts it, reports it and opens it.\<close>

definition take_work :: "ScanConfig \<Rightarrow> ScanEnv \<Rightarrow> Walker \<Rightarrow> Walker option" where
  "take_work cfg env w =
     (case wk_queue w of
        [] \<Rightarrow> None
      | (d, k) # q \<Rightarrow>
          if length (wk_active w) < max 1 (sc_concurrency cfg) then
            (let head = emit_path cfg (se_fs env) d (word_of_nat k) True;
                 w1 = emit head (w\<lparr>wk_queue := q, wk_progress := (wk_progress w)
                        \<lparr>dirs_walked := dirs_walked (wk_progress w) + 1\<rparr>\<rparr>)
             in case read_dir env d of
                  None \<Rightarrow> Some (emit [WError d] (w1\<lparr>wk_active := wk_active w @
                     [\<lparr>jb_dir = d, jb_depth = k, jb_rest = [], jb_error = False\<rparr>]\<rparr>))
                | Some (es, err) \<Rightarrow> Some (w1\<lparr>wk_active := wk_active w @
                     [\<lparr>jb_dir = d, jb_depth = k, jb_rest = es, jb_error = err\<rparr>]\<rparr>))
          else None)"

definition descend :: "ScanConfig \<Rightarrow> nat \<Rightarrow> bool" where
  "descend cfg depth = (case sc_max_depth cfg of None \<Rightarrow> True | Some m \<Rightarrow> depth < m)"

text \<open>What one entry of a listing contributes: directories to queue and events.\<close>

definition visit_entry ::
  "ScanConfig \<Rightarrow> FsEnv \<Rightarrow> string list \<Rightarrow> path \<Rightarrow> nat \<Rightarrow> string \<times> bool option \<Rightarrow>
   (path \<times> nat) list \<times> PosixWalkEvent list" where
  "visit_entry cfg env globs d k e =
     (let (nm, kind) = e; p = path_push d nm in
      if ignored globs nm then ([], [])
      else (case kind of
              Some True \<Rightarrow> (if descend cfg k then [(p, k + 1)] else [], [])
            | Some False \<Rightarrow> ([], emit_path cfg env p (word_of_nat k + 1) False)
            | None \<Rightarrow> ([], [WError p])))"

text \<open>
  The worker in the \<open>i\<close>-th active directory does its next action: one entry of the listing,
  or the end of the directory. A directory that is found is not queued when the queue is
  closed.
\<close>

definition work_entry :: "ScanConfig \<Rightarrow> ScanEnv \<Rightarrow> nat \<Rightarrow> Walker \<Rightarrow> Walker option" where
  "work_entry cfg env i w =
     (if i < length (wk_active w) then
        (let j = wk_active w ! i in
         case jb_rest j of
           e # es \<Rightarrow>
             (let (sub, evs) = visit_entry cfg (se_fs env) (wk_globs w) (jb_dir j) (jb_depth j) e
              in Some (emit evs (w\<lparr>wk_active := (wk_active w)[i := j\<lparr>jb_rest := es\<rparr>],
                   wk_queue := (if wk_closed w then wk_queue w else wk_queue w @ sub),
                   wk_pending := (if wk_closed w then wk_pending w else wk_pending w + length sub)\<rparr>)))
         | [] \<Rightarrow>
             Some (emit (if jb_error j then [WError (jb_dir j)] else [])
               (w\<lparr>wk_active := take i (wk_active w) @ drop (Suc i) (wk_active w),
                  wk_pending := wk_pending w - 1,
                  wk_closed := wk_closed w \<or> wk_pending w = 1\<rparr>)))
      else None)"

datatype choice = Take | Work nat

fun walker_step :: "ScanConfig \<Rightarrow> ScanEnv \<Rightarrow> choice \<Rightarrow> Walker \<Rightarrow> Walker option" where
  "walker_step cfg env Take w = take_work cfg env w"
| "walker_step cfg env (Work i) w = work_entry cfg env i w"

fun run_walker :: "ScanConfig \<Rightarrow> ScanEnv \<Rightarrow> choice list \<Rightarrow> Walker \<Rightarrow> Walker option" where
  "run_walker cfg env [] w = Some w"
| "run_walker cfg env (ch # chs) w =
     (case walker_step cfg env ch w of None \<Rightarrow> None | Some w' \<Rightarrow> run_walker cfg env chs w')"

definition walker_done :: "Walker \<Rightarrow> bool" where
  "walker_done w = (wk_queue w = [] \<and> wk_active w = [])"

section \<open>Enrichment\<close>

record StripeInfo =
  si_count :: u32
  si_size :: u64
  si_pool :: "string option"
  si_ost_indices :: "u32 list"

record LustreEnv =
  le_fs :: FsEnv
  get_stripe_info :: "path \<Rightarrow> StripeInfo option"

datatype ScanError = ScanIo path | ScanLustre path

text \<open>The stripe columns of a row: counts and sizes are cut to the width of the columns.\<close>

definition stripe_columns ::
  "LustreEnv \<Rightarrow> path \<Rightarrow> EntryKind \<Rightarrow> u16 option \<times> u32 option \<times> u32 list \<times> string option" where
  "stripe_columns env p kind =
     (if kind = File then
        (case get_stripe_info env p of
           Some info \<Rightarrow> (Some (ucast (si_count info)), Some (ucast (si_size info)),
                         si_ost_indices info, si_pool info)
         | None \<Rightarrow> (None, None, [], None))
      else (None, None, [], None))"

definition enrich_lustre :: "LustreEnv \<Rightarrow> i64 \<Rightarrow> PosixEntry \<Rightarrow> ScanError + EntryRow" where
  "enrich_lustre env now entry =
     (case path_to_fid (le_fs env) (pe_path entry) of
        None \<Rightarrow> Inl (ScanLustre (pe_path entry))
      | Some f \<Rightarrow>
        (case (case pe_parent_path entry of
                 None \<Rightarrow> Inr None
               | Some q \<Rightarrow> (case path_to_fid (le_fs env) q of
                              None \<Rightarrow> Inl (ScanLustre q) | Some g \<Rightarrow> Inr (Some g))) of
           Inl e \<Rightarrow> Inl e
         | Inr parent_fid \<Rightarrow>
           (let (sc, ss, si, pl) = stripe_columns env (pe_path entry) (pe_kind entry)
            in Inr \<lparr>e_name = pe_name entry, e_kind = pe_kind entry, e_size = pe_size entry,
                 e_blocks = pe_blocks entry, e_uid = pe_uid entry, e_gid = pe_gid entry,
                 e_projid = 0, e_mode = pe_mode entry, e_nlink = pe_nlink entry,
                 e_atime = pe_atime entry, e_mtime = pe_mtime entry, e_ctime = pe_ctime entry,
                 e_stripe_count = sc, e_stripe_size = ss, e_stripe_items = si, e_pool_name = pl,
                 e_sm_status = JObj [], e_last_seen = now, e_depth = pe_depth entry,
                 er_fid = f, er_parent_fid = parent_fid\<rparr>)))"

definition build_entry ::
  "LustreEnv \<Rightarrow> i64 \<Rightarrow> path \<Rightarrow> LuFid option \<Rightarrow> u32 \<Rightarrow> ScanError + EntryRow" where
  "build_entry env now p parent_fid depth =
     (case symlink_metadata (le_fs env) p of
        None \<Rightarrow> Inl (ScanIo p)
      | Some md \<Rightarrow>
        (case path_to_fid (le_fs env) p of
           None \<Rightarrow> Inl (ScanLustre p)
         | Some f \<Rightarrow>
           (let (sc, ss, si, pl) = stripe_columns env p (md_kind md)
            in Inr \<lparr>e_name = file_name p, e_kind = md_kind md, e_size = md_size md,
                 e_blocks = md_blocks md, e_uid = md_uid md, e_gid = md_gid md,
                 e_projid = 0, e_mode = md_mode md, e_nlink = ucast (md_nlink md),
                 e_atime = md_atime md, e_mtime = md_mtime md, e_ctime = md_ctime md,
                 e_stripe_count = sc, e_stripe_size = ss, e_stripe_items = si, e_pool_name = pl,
                 e_sm_status = JObj [], e_last_seen = now, e_depth = depth,
                 er_fid = f, er_parent_fid = parent_fid\<rparr>)))"

datatype ScanEvent = SEntry EntryRow | SError path

text \<open>
  One step of an enrichment worker of \<open>FsScanner::run\<close>: the event it sends, and the
  counters: an entry that cannot be enriched counts as an error instead of an entry.
\<close>

definition enrich_event ::
  "LustreEnv \<Rightarrow> i64 \<Rightarrow> PosixWalkEvent \<Rightarrow> ScanProgress \<Rightarrow> ScanEvent \<times> ScanProgress" where
  "enrich_event env now ev g =
     (case ev of
        WEntry entry \<Rightarrow>
          (case enrich_lustre env now entry of
             Inr row \<Rightarrow> (SEntry row, g)
           | Inl e \<Rightarrow> (SError (pe_path entry),
                       g\<lparr>entries_scanned := entries_scanned g - 1, errors := errors g + 1\<rparr>))
      | WError p \<Rightarrow> (SError p, g))"

section \<open>JuiceFS\<close>

datatype NamespaceDifference = NamespaceDifference (missing_from_catalog: nat) (missing_from_mount: nat)

definition compare_namespace ::
  "ScopedNamespaceEdge list \<Rightarrow> ScopedNamespaceEdge list \<Rightarrow> NamespaceDifference + unit" where
  "compare_namespace mounted catalog =
     (let m = card (set mounted - set catalog); n = card (set catalog - set mounted)
      in if m = 0 \<and> n = 0 then Inr () else Inl (NamespaceDifference m n))"

definition adapt ::
  "string \<Rightarrow> PosixEntry \<Rightarrow> i64 \<Rightarrow> string + ScopedEntryRow \<times> ScopedNamespaceEdge option" where
  "adapt fs entry observed_at =
     (let object = OJuiceFs (pe_inode entry);
          parent = map_option OJuiceFs (pe_parent_inode entry)
      in if pe_depth entry > 0 \<and> parent = None
         then Inl ''non-root JuiceFS entry has no parent inode''
         else Inr
           (\<lparr>e_name = pe_name entry, e_kind = pe_kind entry, e_size = pe_size entry,
             e_blocks = pe_blocks entry, e_uid = pe_uid entry, e_gid = pe_gid entry,
             e_projid = 0, e_mode = pe_mode entry, e_nlink = pe_nlink entry,
             e_atime = pe_atime entry, e_mtime = pe_mtime entry, e_ctime = pe_ctime entry,
             e_stripe_count = None, e_stripe_size = None, e_stripe_items = [], e_pool_name = None,
             e_sm_status = JNull, e_last_seen = observed_at, e_depth = pe_depth entry,
             se_key = EntryKey fs object, se_parent = map_option (EntryKey fs) parent\<rparr>,
            map_option (\<lambda>p. \<lparr>ed_filesystem = fs, ed_parent = p, ed_name = pe_name entry,
              ed_object = object\<rparr>) parent))"

section \<open>The sequential walk\<close>

text \<open>
  What a walk of a directory, and of the rest of a listing, reports in any order, and how
  many actions it takes: \<open>walk_dir\<close> for a queued directory, \<open>walk_list\<close> for one in progress.
  Both hold of every finite tree.
\<close>

inductive walk_dir ::
    "ScanConfig \<Rightarrow> ScanEnv \<Rightarrow> string list \<Rightarrow> path \<times> nat \<Rightarrow> PosixWalkEvent multiset \<Rightarrow> nat \<Rightarrow> bool"
  and walk_list ::
    "ScanConfig \<Rightarrow> ScanEnv \<Rightarrow> string list \<Rightarrow> job \<Rightarrow> PosixWalkEvent multiset \<Rightarrow> nat \<Rightarrow> bool"
  for cfg env globs where
  unreadable: "read_dir env d = None \<Longrightarrow>
    walk_dir cfg env globs (d, k)
      (mset (emit_path cfg (se_fs env) d (word_of_nat k) True) + {#WError d#}) 2"
| listed: "read_dir env d = Some (es, err) \<Longrightarrow>
    walk_list cfg env globs \<lparr>jb_dir = d, jb_depth = k, jb_rest = es, jb_error = err\<rparr> M n \<Longrightarrow>
    walk_dir cfg env globs (d, k)
      (mset (emit_path cfg (se_fs env) d (word_of_nat k) True) + M) (Suc n)"
| finished: "jb_rest j = [] \<Longrightarrow>
    walk_list cfg env globs j (if jb_error j then {#WError (jb_dir j)#} else {#}) 1"
| plain: "jb_rest j = e # es \<Longrightarrow>
    visit_entry cfg (se_fs env) globs (jb_dir j) (jb_depth j) e = ([], evs) \<Longrightarrow>
    walk_list cfg env globs (j\<lparr>jb_rest := es\<rparr>) M n \<Longrightarrow>
    walk_list cfg env globs j (mset evs + M) (Suc n)"
| subdirectory: "jb_rest j = e # es \<Longrightarrow>
    visit_entry cfg (se_fs env) globs (jb_dir j) (jb_depth j) e = ([sub], evs) \<Longrightarrow>
    walk_dir cfg env globs sub M1 n1 \<Longrightarrow>
    walk_list cfg env globs (j\<lparr>jb_rest := es\<rparr>) M n \<Longrightarrow>
    walk_list cfg env globs j (mset evs + M1 + M) (Suc (n1 + n))"

inductive_cases walk_dirE: "walk_dir cfg env globs (d, k) M n"
inductive_cases walk_listE: "walk_list cfg env globs j M n"

lemmas walk_list_cases = walk_listE [consumes 1, case_names finished plain subdirectory]

text \<open>What is left to do in a state of the walker.\<close>

definition todo :: "ScanConfig \<Rightarrow> ScanEnv \<Rightarrow> Walker \<Rightarrow> PosixWalkEvent multiset \<Rightarrow> nat \<Rightarrow> bool" where
  "todo cfg env w M n \<longleftrightarrow>
     (\<exists>qs js. list_all2 (\<lambda>q (M, n). walk_dir cfg env (wk_globs w) q M n) (wk_queue w) qs \<and>
        list_all2 (\<lambda>j (M, n). walk_list cfg env (wk_globs w) j M n) (wk_active w) js \<and>
        M = sum_list (map fst (qs @ js)) \<and> n = sum_list (map snd (qs @ js)))"

definition walker_ok :: "Walker \<Rightarrow> bool" where
  "walker_ok w \<longleftrightarrow> wk_pending w = length (wk_queue w) + length (wk_active w) \<and>
     (wk_closed w \<longleftrightarrow> wk_pending w = 0)"

lemma emit_simps [simp]:
  "wk_queue (emit evs w) = wk_queue w" "wk_active (emit evs w) = wk_active w"
  "wk_pending (emit evs w) = wk_pending w" "wk_closed (emit evs w) = wk_closed w"
  "wk_globs (emit evs w) = wk_globs w" "wk_events (emit evs w) = wk_events w @ evs"
  "wk_progress (emit evs w) = fold count_event evs (wk_progress w)"
  by (simp_all add: emit_def)

lemma visit_entry_small: "length (fst (visit_entry cfg env globs d k e)) \<le> 1"
  by (auto simp: visit_entry_def Let_def split: prod.split option.split bool.split)

lemma visit_entry_shape:
  obtains (none) evs where "visit_entry cfg env globs d k e = ([], evs)"
  | (one) sub evs where "visit_entry cfg env globs d k e = ([sub], evs)"
  using visit_entry_small [of cfg env globs d k e]
  by (cases "visit_entry cfg env globs d k e") (auto simp: le_Suc_eq length_Suc_conv)

lemma todoI:
  assumes "list_all2 (\<lambda>q (M, n). walk_dir cfg env (wk_globs w) q M n) (wk_queue w) qs"
    and "list_all2 (\<lambda>j (M, n). walk_list cfg env (wk_globs w) j M n) (wk_active w) js"
    and "M = sum_list (map fst (qs @ js))" and "n = sum_list (map snd (qs @ js))"
  shows "todo cfg env w M n"
  using assms unfolding todo_def by blast

lemma take_work_todo:
  assumes "take_work cfg env w = Some w'" and "todo cfg env w M n"
  shows "\<exists>M' m. todo cfg env w' M' m \<and> n = Suc m \<and>
    mset (wk_events w') + M' = mset (wk_events w) + M"
proof -
  obtain d k q where q: "wk_queue w = (d, k) # q"
    and len: "length (wk_active w) < max 1 (sc_concurrency cfg)"
    using assms(1) by (auto simp: take_work_def split: list.splits prod.splits if_splits)
  obtain M0 n0 qs js where
    wd: "walk_dir cfg env (wk_globs w) (d, k) M0 n0"
    and qs: "list_all2 (\<lambda>q (M, n). walk_dir cfg env (wk_globs w) q M n) q qs"
    and js: "list_all2 (\<lambda>j (M, n). walk_list cfg env (wk_globs w) j M n) (wk_active w) js"
    and M: "M = M0 + sum_list (map fst (qs @ js))" and n: "n = n0 + sum_list (map snd (qs @ js))"
    using assms(2) q by (auto simp: todo_def list_all2_Cons1 ac_simps)
  obtain es err extra M1 n1 where wl: "walk_list cfg env (wk_globs w)
        \<lparr>jb_dir = d, jb_depth = k, jb_rest = es, jb_error = err\<rparr> M1 n1"
    and M0: "M0 = mset (emit_path cfg (se_fs env) d (word_of_nat k) True) + mset extra + M1"
      "n0 = Suc n1"
    and rd: "(read_dir env d = None \<and> es = [] \<and> \<not> err \<and> extra = [WError d]) \<or>
      (read_dir env d = Some (es, err) \<and> extra = [])"
    using wd finished [of "\<lparr>jb_dir = d, jb_depth = k, jb_rest = [], jb_error = False\<rparr>" cfg env]
    by (cases rule: walk_dirE) fastforce+
  have w': "wk_queue w' = q" "wk_globs w' = wk_globs w"
    "wk_active w' = wk_active w @ [\<lparr>jb_dir = d, jb_depth = k, jb_rest = es, jb_error = err\<rparr>]"
    "wk_events w' = wk_events w @ emit_path cfg (se_fs env) d (word_of_nat k) True @ extra"
    using assms(1) q len rd by (auto simp: take_work_def Let_def)
  have "todo cfg env w' (sum_list (map fst (qs @ js @ [(M1, n1)])))
      (sum_list (map snd (qs @ js @ [(M1, n1)])))"
    by (rule todoI [of _ _ _ qs "js @ [(M1, n1)]"])
      (use qs js wl in \<open>auto simp: w' intro: list_all2_appendI\<close>)
  then show ?thesis by (intro exI conjI, assumption) (simp_all add: w' M n M0 ac_simps)
qed

lemma list_all2_sum_update:
  assumes "list_all2 P xs ys" and "i < length xs"
  obtains y zs zs' where "ys = zs @ y # zs'" "length zs = i" "P (xs ! i) y"
    "list_all2 P (take i xs) zs" "list_all2 P (drop (Suc i) xs) zs'"
proof
  have i: "i < length ys" using assms list_all2_lengthD by fastforce
  show "ys = take i ys @ ys ! i # drop (Suc i) ys" using i by (rule id_take_nth_drop)
  show "length (take i ys) = i" using i by simp
  show "P (xs ! i) (ys ! i)" using assms by (rule list_all2_nthD)
  show "list_all2 P (take i xs) (take i ys)" "list_all2 P (drop (Suc i) xs) (drop (Suc i) ys)"
    using assms(1) by simp_all
qed

lemma work_entry_todo:
  assumes "work_entry cfg env i w = Some w'" and "todo cfg env w M n" and "walker_ok w"
  shows "\<exists>M' m. todo cfg env w' M' m \<and> n = Suc m \<and>
    mset (wk_events w') + M' = mset (wk_events w) + M"
proof -
  let ?D = "\<lambda>q (M, n). walk_dir cfg env (wk_globs w) q M n"
  let ?L = "\<lambda>j (M, n). walk_list cfg env (wk_globs w) j M n"
  have i: "i < length (wk_active w)" using assms(1) by (auto simp: work_entry_def split: if_splits)
  with assms(3) have open_queue: "\<not> wk_closed w" by (auto simp: walker_ok_def)
  define j where "j = wk_active w ! i"
  obtain qs js where qs: "list_all2 ?D (wk_queue w) qs" and js: "list_all2 ?L (wk_active w) js"
    and M: "M = sum_list (map fst (qs @ js))" and n: "n = sum_list (map snd (qs @ js))"
    using assms(2) by (auto simp: todo_def)
  from js i obtain y as bs where y: "js = as @ y # bs" "length as = i" "?L j y"
    "list_all2 ?L (take i (wk_active w)) as" "list_all2 ?L (drop (Suc i) (wk_active w)) bs"
    unfolding j_def by (rule list_all2_sum_update)
  obtain Mj nj where yj: "y = (Mj, nj)" by (cases y)
  with y(3) have "walk_list cfg env (wk_globs w) j Mj nj" by simp
  then show ?thesis
  proof (cases rule: walk_list_cases)
    case finished
    have w': "wk_queue w' = wk_queue w" "wk_globs w' = wk_globs w"
      "wk_active w' = take i (wk_active w) @ drop (Suc i) (wk_active w)"
      "mset (wk_events w') = mset (wk_events w) + Mj"
      using assms(1) i finished by (auto simp: work_entry_def Let_def j_def)
    have "todo cfg env w' (sum_list (map fst (qs @ as @ bs))) (sum_list (map snd (qs @ as @ bs)))"
      by (rule todoI [of _ _ _ qs "as @ bs"]) (use qs y in \<open>auto simp: w' intro: list_all2_appendI\<close>)
    then show ?thesis by (intro exI conjI, assumption) (simp_all add: w' M n y yj finished ac_simps)
  next
    case (plain e es evs M1 n1)
    have w': "wk_queue w' = wk_queue w" "wk_globs w' = wk_globs w"
      "wk_active w' = (wk_active w)[i := j\<lparr>jb_rest := es\<rparr>]"
      "wk_events w' = wk_events w @ evs"
      using assms(1) i plain open_queue by (auto simp: work_entry_def Let_def j_def)
    have "todo cfg env w' (sum_list (map fst (qs @ as @ (M1, n1) # bs)))
        (sum_list (map snd (qs @ as @ (M1, n1) # bs)))"
      by (rule todoI [of _ _ _ qs "as @ (M1, n1) # bs"])
        (use qs y plain i in \<open>auto simp: w' upd_conv_take_nth_drop intro!: list_all2_appendI\<close>)
    then show ?thesis by (intro exI conjI, assumption) (simp_all add: w' M n y yj plain ac_simps)
  next
    case (subdirectory e es sub evs M1 n1 M2 n2)
    have w': "wk_queue w' = wk_queue w @ [sub]" "wk_globs w' = wk_globs w"
      "wk_active w' = (wk_active w)[i := j\<lparr>jb_rest := es\<rparr>]"
      "wk_events w' = wk_events w @ evs"
      using assms(1) i subdirectory open_queue by (auto simp: work_entry_def Let_def j_def)
    have "todo cfg env w' (sum_list (map fst ((qs @ [(M1, n1)]) @ as @ (M2, n2) # bs)))
        (sum_list (map snd ((qs @ [(M1, n1)]) @ as @ (M2, n2) # bs)))"
      by (rule todoI [of _ _ _ "qs @ [(M1, n1)]" "as @ (M2, n2) # bs"])
        (use qs y subdirectory i in \<open>auto simp: w' upd_conv_take_nth_drop intro!: list_all2_appendI\<close>)
    then show ?thesis by (intro exI conjI, assumption) (simp_all add: w' M n y yj subdirectory ac_simps)
  qed
qed

lemma walker_ok_init: "walker_ok (walker_init cfg env)"
  by (simp add: walker_ok_def walker_init_def)

lemma take_work_ok: "take_work cfg env w = Some w' \<Longrightarrow> walker_ok w \<Longrightarrow> walker_ok w'"
  by (auto simp: take_work_def Let_def walker_ok_def split: list.splits if_splits option.splits)

lemma work_entry_ok:
  assumes "work_entry cfg env i w = Some w'" "walker_ok w" shows "walker_ok w'"
proof (cases "jb_rest (wk_active w ! i)")
  case Nil
  with assms show ?thesis by (auto simp: work_entry_def Let_def walker_ok_def split: if_splits)
next
  case (Cons e es)
  with assms show ?thesis
    by (auto simp: work_entry_def Let_def walker_ok_def split: if_splits prod.splits)
qed

lemma walker_step_ok: "walker_step cfg env ch w = Some w' \<Longrightarrow> walker_ok w \<Longrightarrow> walker_ok w'"
  by (cases ch) (auto dest: take_work_ok work_entry_ok)

lemma walker_step_todo:
  "walker_step cfg env ch w = Some w' \<Longrightarrow> todo cfg env w M n \<Longrightarrow> walker_ok w \<Longrightarrow>
   \<exists>M' m. todo cfg env w' M' m \<and> n = Suc m \<and> mset (wk_events w') + M' = mset (wk_events w) + M"
  by (cases ch) (auto dest: take_work_todo work_entry_todo)

lemma run_walker_todo:
  assumes "run_walker cfg env chs w = Some w'" "todo cfg env w M n" "walker_ok w"
  shows "walker_ok w' \<and> (\<exists>M' m. todo cfg env w' M' m \<and> n = length chs + m \<and>
    mset (wk_events w') + M' = mset (wk_events w) + M)"
  using assms
proof (induction chs arbitrary: w M n)
  case (Cons ch chs)
  then obtain w1 where w1: "walker_step cfg env ch w = Some w1" "run_walker cfg env chs w1 = Some w'"
    by (auto split: option.splits)
  from walker_step_todo [OF w1(1) Cons.prems(2,3)] obtain M1 m1 where
    m1: "todo cfg env w1 M1 m1" "n = Suc m1" "mset (wk_events w1) + M1 = mset (wk_events w) + M"
    by blast
  from Cons.IH [OF w1(2) m1(1) walker_step_ok [OF w1(1) Cons.prems(3)]] m1(2,3)
  show ?case by auto
qed auto

lemma walk_positive:
  "walk_dir cfg env globs q M n \<Longrightarrow> 0 < n" "walk_list cfg env globs j M n \<Longrightarrow> 0 < n"
  by (induction rule: walk_dir_walk_list.inducts) auto

lemma list_all2_in2: "list_all2 P xs ys \<Longrightarrow> y \<in> set ys \<Longrightarrow> \<exists>x. P x y"
  by (induction rule: list_all2_induct) auto

lemma todo_done:
  assumes "todo cfg env w M n"
  shows "walker_done w \<longleftrightarrow> n = 0" and "walker_done w \<Longrightarrow> M = {#}"
proof -
  obtain qs js where
    w: "list_all2 (\<lambda>q (M, n). walk_dir cfg env (wk_globs w) q M n) (wk_queue w) qs"
       "list_all2 (\<lambda>j (M, n). walk_list cfg env (wk_globs w) j M n) (wk_active w) js"
    and M: "M = sum_list (map fst (qs @ js))" and n: "n = sum_list (map snd (qs @ js))"
    using assms by (auto simp: todo_def)
  show "walker_done w \<Longrightarrow> M = {#}" using w M by (auto simp: walker_done_def)
  have "0 < b" if "(a, b) \<in> set (qs @ js)" for a b
    using that list_all2_in2 [OF w(1), of "(a, b)"] list_all2_in2 [OF w(2), of "(a, b)"] walk_positive
    by auto
  then have "n = 0 \<longleftrightarrow> qs @ js = []" unfolding n by (cases "qs @ js") force+
  then show "walker_done w \<longleftrightarrow> n = 0"
    using list_all2_lengthD [OF w(1)] list_all2_lengthD [OF w(2)] by (auto simp: walker_done_def)
qed

lemma walker_enabled:
  assumes "\<not> walker_done w" shows "\<exists>ch w'. walker_step cfg env ch w = Some w'"
proof (cases "wk_active w")
  case Nil
  with assms obtain d k q where "wk_queue w = (d, k) # q"
    by (cases "wk_queue w") (auto simp: walker_done_def)
  with Nil have "\<exists>w'. walker_step cfg env Take w = Some w'"
    by (auto simp: take_work_def Let_def split: option.splits)
  then show ?thesis by blast
next
  case Cons
  then have "\<exists>w'. walker_step cfg env (Work 0) w = Some w'"
    by (auto simp: work_entry_def Let_def split: list.splits prod.splits)
  then show ?thesis by blast
qed

text \<open>The counters follow the events.\<close>

fun is_entry :: "PosixWalkEvent \<Rightarrow> bool" where
  "is_entry (WEntry _) = True"
| "is_entry (WError _) = False"

definition counters_ok :: "Walker \<Rightarrow> bool" where
  "counters_ok w \<longleftrightarrow>
     entries_scanned (wk_progress w) = word_of_nat (length (filter is_entry (wk_events w))) \<and>
     errors (wk_progress w) = word_of_nat (length (filter (\<lambda>e. \<not> is_entry e) (wk_events w)))"

lemma fold_count:
  "entries_scanned (fold count_event evs g) =
     entries_scanned g + word_of_nat (length (filter is_entry evs))"
  "errors (fold count_event evs g) =
     errors g + word_of_nat (length (filter (\<lambda>e. \<not> is_entry e) evs))"
  by (induction evs arbitrary: g) (auto split: PosixWalkEvent.split simp: ac_simps elim: is_entry.elims)

lemma counters_emit:
  "counters_ok (emit evs w) \<longleftrightarrow> counters_ok w"
  by (auto simp: counters_ok_def fold_count)

lemma counters_cong:
  "wk_events w' = wk_events w \<Longrightarrow>
   entries_scanned (wk_progress w') = entries_scanned (wk_progress w) \<Longrightarrow>
   errors (wk_progress w') = errors (wk_progress w) \<Longrightarrow> counters_ok w' = counters_ok w"
  by (simp add: counters_ok_def)

lemma walker_step_counters:
  assumes "walker_step cfg env ch w = Some w'" "counters_ok w" shows "counters_ok w'"
proof (cases ch)
  case Take
  with assms show ?thesis
    by (auto simp: take_work_def Let_def counters_emit split: list.splits if_splits option.splits
        cong: counters_cong) (simp_all add: counters_ok_def fold_count)
next
  case (Work i)
  with assms show ?thesis
    by (auto simp: work_entry_def Let_def counters_emit split: list.splits if_splits prod.splits)
      (simp_all add: counters_ok_def)
qed

lemma run_walker_counters:
  "run_walker cfg env chs w = Some w' \<Longrightarrow> counters_ok w \<Longrightarrow> counters_ok w'"
  by (induction chs arbitrary: w) (auto split: option.splits dest: walker_step_counters)

text \<open>A limit on the depth makes every walk end, even when directories contain themselves.\<close>

lemma walk_list_exists:
  assumes "\<And>p k. jb_depth j < k \<Longrightarrow> descend cfg (jb_depth j) \<Longrightarrow> \<exists>M n. walk_dir cfg env globs (p, k) M n"
  shows "\<exists>M n. walk_list cfg env globs j M n"
  using assms
proof (induction "jb_rest j" arbitrary: j)
  case Nil
  then show ?case using finished by metis
next
  case (Cons e es)
  have rest: "jb_rest j = e # es" using Cons.hyps(2) by simp
  have "\<exists>M n. walk_list cfg env globs (j\<lparr>jb_rest := es\<rparr>) M n"
    by (rule Cons.hyps(1)) (use Cons.prems in auto)
  then obtain M n where wl: "walk_list cfg env globs (j\<lparr>jb_rest := es\<rparr>) M n" by blast
  show ?case
  proof (cases rule: visit_entry_shape [of cfg "se_fs env" globs "jb_dir j" "jb_depth j" e])
    case (none evs)
    from plain [OF rest none wl] show ?thesis by blast
  next
    case (one sub evs)
    then have "descend cfg (jb_depth j) \<and> snd sub = Suc (jb_depth j)"
      by (auto simp: visit_entry_def Let_def split: prod.splits if_splits option.splits bool.splits)
    with Cons.prems [of "snd sub" "fst sub"] obtain M1 n1 where "walk_dir cfg env globs sub M1 n1"
      by (cases sub) auto
    from subdirectory [OF rest one this wl] show ?thesis by blast
  qed
qed

lemma bounded_walk_exists:
  assumes "sc_max_depth cfg = Some m" shows "\<exists>M n. walk_dir cfg env globs (d, k) M n"
proof (induction "m - k" arbitrary: d k rule: less_induct)
  case less
  show ?case
  proof (cases "read_dir env d")
    case None
    from unreadable [OF None] show ?thesis by blast
  next
    case (Some r)
    obtain es err where r: "r = (es, err)" by (cases r)
    have "\<exists>M n. walk_list cfg env globs
        \<lparr>jb_dir = d, jb_depth = k, jb_rest = es, jb_error = err\<rparr> M n"
      by (rule walk_list_exists) (use less assms in \<open>auto simp: descend_def\<close>)
    with listed [OF Some [unfolded r]] show ?thesis by blast
  qed
qed

section \<open>Properties\<close>

text \<open>
  C7: the walker does the same work under every interleaving of its workers. On a tree
  whose sequential walk reports the events \<open>T\<close> in \<open>n\<close> actions, every schedule has at most
  \<open>n\<close> actions, some worker can act until all \<open>n\<close> are done, and the queue is closed exactly
  then: no directory is lost and no worker waits forever. At the end the events are those
  of the sequential walk, each as often, and the counters are their numbers.
\<close>

theorem walker_schedules:
  assumes "walk_dir cfg env (sc_ignore_globs cfg @ load_rbh_ignore_file env (sc_root cfg))
      (sc_root cfg, 0) T n"
    and "run_walker cfg env chs (walker_init cfg env) = Some w"
  shows "length chs \<le> n \<and> (walker_done w \<longleftrightarrow> length chs = n) \<and> (wk_closed w \<longleftrightarrow> walker_done w) \<and>
    (\<not> walker_done w \<longrightarrow> (\<exists>ch w'. walker_step cfg env ch w = Some w')) \<and>
    (walker_done w \<longrightarrow> mset (wk_events w) = T \<and>
       entries_scanned (wk_progress w) = word_of_nat (size (filter_mset is_entry T)) \<and>
       errors (wk_progress w) = word_of_nat (size (filter_mset (\<lambda>e. \<not> is_entry e) T)))"
proof -
  have "todo cfg env (walker_init cfg env) T n"
    by (rule todoI [of _ _ _ "[(T, n)]" "[]"]) (use assms(1) in \<open>auto simp: walker_init_def\<close>)
  from run_walker_todo [OF assms(2) this walker_ok_init] obtain M' m where
    ok: "walker_ok w" and t: "todo cfg env w M' m" and n: "n = length chs + m"
    and ev: "mset (wk_events w) + M' = T"
    by (auto simp: walker_init_def)
  have "counters_ok w"
    by (rule run_walker_counters [OF assms(2)]) (simp add: counters_ok_def walker_init_def)
  with ev todo_done [OF t] have fin: "walker_done w \<Longrightarrow> mset (wk_events w) = T \<and>
       entries_scanned (wk_progress w) = word_of_nat (size (filter_mset is_entry T)) \<and>
       errors (wk_progress w) = word_of_nat (size (filter_mset (\<lambda>e. \<not> is_entry e) T))"
    by (auto simp: counters_ok_def simp flip: mset_filter)
  from todo_done(1) [OF t] n ok fin walker_enabled show ?thesis
    by (auto simp: walker_ok_def walker_done_def)
qed

definition scan_demo :: ScanEnv where
  "scan_demo = \<lparr>se_fs = demo_env,
     read_dir = (\<lambda>p. if p = [RootDir, Normal ''jfs''] then Some ([(''d'', Some True)], False)
       else if p = [RootDir, Normal ''jfs'', Normal ''d''] then Some ([], False) else None),
     read_to_string = (\<lambda>_. None)\<rparr>"

definition scan_demo_config :: ScanConfig where
  "scan_demo_config = \<lparr>sc_root = [RootDir, Normal ''jfs''], sc_concurrency = 2, sc_max_depth = None,
     sc_since_mtime = None, sc_ignore_globs = []\<rparr>"

abbreviation scan_demo_schedule :: "choice list" where
  "scan_demo_schedule \<equiv> [Take, Work 0, Take, Work 1, Work 0]"

lemmas scan_demo_defs = scan_demo_def scan_demo_config_def visit_entry_def ignored_def descend_def
  path_push_def is_absolute_def segments_def segment_def

lemma scan_demo_walk:
  "\<exists>T. walk_dir scan_demo_config scan_demo [] ([RootDir, Normal ''jfs''], 0) T 5"
proof -
  let ?r = "[RootDir, Normal ''jfs'']" and ?d = "[RootDir, Normal ''jfs'', Normal ''d'']"
  have "\<exists>M. walk_dir scan_demo_config scan_demo [] (?d, 1) M 2"
    using listed [of scan_demo ?d "[]" False scan_demo_config "[]" 1 "{#}" 1]
      finished [of "\<lparr>jb_dir = ?d, jb_depth = 1, jb_rest = [], jb_error = False\<rparr>" scan_demo_config scan_demo "[]"]
    by (auto simp: scan_demo_def numeral_2_eq_2)
  then obtain M where M: "walk_dir scan_demo_config scan_demo [] (?d, 1) M 2" by blast
  let ?j = "\<lparr>jb_dir = ?r, jb_depth = 0, jb_rest = [(''d'', Some True)], jb_error = False\<rparr>"
  have end0: "walk_list scan_demo_config scan_demo [] (?j\<lparr>jb_rest := []\<rparr>) {#} 1"
    using finished [of "?j\<lparr>jb_rest := []\<rparr>" scan_demo_config scan_demo "[]"] by simp
  have "walk_list scan_demo_config scan_demo [] ?j (mset [] + M + {#}) (Suc (2 + 1))"
    by (rule subdirectory [OF _ _ M end0, of "(''d'', Some True)"])
      (simp_all add: scan_demo_defs)
  from listed [OF _ this] show ?thesis by (auto simp: scan_demo_def numeral_eq_Suc)
qed

theorem walker_schedules_witness:
  "\<exists>w T. walk_dir scan_demo_config scan_demo [] ([RootDir, Normal ''jfs''], 0) T 5 \<and>
     run_walker scan_demo_config scan_demo scan_demo_schedule (walker_init scan_demo_config scan_demo) = Some w \<and>
     walker_done w \<and> mset (wk_events w) = T"
proof -
  have "\<exists>w. run_walker scan_demo_config scan_demo scan_demo_schedule
      (walker_init scan_demo_config scan_demo) = Some w"
    by (simp add: walker_init_def take_work_def work_entry_def scan_demo_defs emit_def
        load_rbh_ignore_file_def Let_def)
  then obtain w where w: "run_walker scan_demo_config scan_demo scan_demo_schedule
      (walker_init scan_demo_config scan_demo) = Some w" by blast
  from scan_demo_walk obtain T where
    T: "walk_dir scan_demo_config scan_demo [] ([RootDir, Normal ''jfs''], 0) T 5" by blast
  have "sc_ignore_globs scan_demo_config @ load_rbh_ignore_file scan_demo (sc_root scan_demo_config) = []"
    "sc_root scan_demo_config = [RootDir, Normal ''jfs'']"
    by (simp_all add: scan_demo_defs load_rbh_ignore_file_def)
  with walker_schedules [of scan_demo_config scan_demo T 5, OF _ w] T w show ?thesis by auto
qed

end
