(* ===== verification/Rbh_Change_Source.thy ===== *)
theory Rbh_Change_Source
  imports Rbh_Dedup Rbh_Model
begin

text \<open>
  The backend-neutral change stream (\<open>crates/rbh-change-source\<close>): the changes, the
  checkpoint protocol and the Lustre adapter of \<open>lib.rs\<close>, the JuiceFS adapter and its
  record parser of \<open>juicefs.rs\<close>.

  The listener's channels and the gRPC client are inputs: what \<open>recv\<close> or the stream gives
  next, and whether an acknowledgement gets through. Acknowledgements that were sent are
  recorded. The trait \<open>ChangeSource\<close> is the locale \<open>change_source\<close>, with both adapters as
  interpretations.
\<close>

section \<open>Changes\<close>

datatype Checkpoint = Checkpoint (cp_source: string) (cp_position: u64)

datatype ContentChangeKind = ContentData | ContentTruncate
datatype MetadataChangeKind = MetaAttributes | MetaXattr

record CreatedMetadata =
  cm_uid :: u32
  cm_gid :: u32
  cm_mode :: u32

datatype BackendChange =
    LustreHsm ObjectId u8 u8 u8 i64
  | LustreLayout ObjectId i64

datatype Change =
    Created ObjectId ObjectId bytes EntryKind "CreatedMetadata option" i64
  | Hardlinked ObjectId ObjectId bytes i64
  | Removed ObjectId ObjectId bytes bool bool i64
  | Renamed ObjectId ObjectId bytes ObjectId bytes i64
  | MetadataChanged ObjectId MetadataChangeKind i64
  | ContentChanged ObjectId "ObjectId option" bytes ContentChangeKind i64
  | BackendC BackendChange

fun change_time :: "Change \<Rightarrow> i64" where
  "change_time (Created _ _ _ _ _ t) = t"
| "change_time (Hardlinked _ _ _ t) = t"
| "change_time (Removed _ _ _ _ _ t) = t"
| "change_time (Renamed _ _ _ _ _ t) = t"
| "change_time (MetadataChanged _ _ t) = t"
| "change_time (ContentChanged _ _ _ _ t) = t"
| "change_time (BackendC (LustreHsm _ _ _ _ t)) = t"
| "change_time (BackendC (LustreLayout _ t)) = t"

fun change_kind_name :: "Change \<Rightarrow> string" where
  "change_kind_name (Created _ _ _ k _ _) =
     (if k = Directory then ''MKDIR'' else if k = Symlink then ''SLINK'' else ''CREAT'')"
| "change_kind_name (Hardlinked _ _ _ _) = ''HLINK''"
| "change_kind_name (Removed _ _ _ _ d _) = (if d then ''RMDIR'' else ''UNLNK'')"
| "change_kind_name (Renamed _ _ _ _ _ _) = ''RENME''"
| "change_kind_name (MetadataChanged _ k _) = (if k = MetaXattr then ''XATTR'' else ''SATTR'')"
| "change_kind_name (ContentChanged _ _ _ k _) = (if k = ContentTruncate then ''TRUNC'' else ''CLOSE'')"
| "change_kind_name (BackendC (LustreHsm _ _ _ _ _)) = ''HSM''"
| "change_kind_name (BackendC (LustreLayout _ _)) = ''LYOUT''"

record ChangeBatch =
  cb_filesystem :: string
  changes :: "Change list"
  checkpoint :: Checkpoint

datatype ChangeSourceError =
    Closed
  | CommitChannelClosed
  | PendingCheckpoint
  | WrongSource string string
  | Transport string
  | Rpc string
  | RetentionGap string
  | MalformedRecord string
  | WrongVolume string string
  | OutOfOrder u64 i64
  | SlicePanic

definition cp_string :: "Checkpoint \<Rightarrow> string" where
  "cp_string cp = cp_source cp @ ''@'' @ dec_str (unat (cp_position cp))"

section \<open>The Lustre adapter\<close>

fun normalize_lustre :: "ChangelogEvent \<Rightarrow> i64 \<Rightarrow> Change" where
  "normalize_lustre (Create f p n _ _ _) t = Created (OLustre f) (OLustre p) n File None t"
| "normalize_lustre (Mkdir f p n _ _ _) t = Created (OLustre f) (OLustre p) n Directory None t"
| "normalize_lustre (Mknod f p n _ _ _) t = Created (OLustre f) (OLustre p) n File None t"
| "normalize_lustre (Softlink f p n) t = Created (OLustre f) (OLustre p) n Symlink None t"
| "normalize_lustre (Hardlink f p n) t = Hardlinked (OLustre f) (OLustre p) n t"
| "normalize_lustre (Unlink f p n ll he) t = Removed (OLustre f) (OLustre p) n ll False t"
| "normalize_lustre (Rmdir f p n) t = Removed (OLustre f) (OLustre p) n True True t"
| "normalize_lustre (Rename f p n sp sn) t = Renamed (OLustre f) (OLustre sp) sn (OLustre p) n t"
| "normalize_lustre (Close f p n) t =
     ContentChanged (OLustre f) (if is_zero p then None else Some (OLustre p)) n ContentData t"
| "normalize_lustre (Truncate f) t = ContentChanged (OLustre f) None [] ContentTruncate t"
| "normalize_lustre (SetAttr f) t = MetadataChanged (OLustre f) MetaAttributes t"
| "normalize_lustre (MTime f) t = MetadataChanged (OLustre f) MetaAttributes t"
| "normalize_lustre (CTime f) t = MetadataChanged (OLustre f) MetaAttributes t"
| "normalize_lustre (XAttr f xn) t = MetadataChanged (OLustre f) MetaXattr t"
| "normalize_lustre (Hsm f ev fl er) t = BackendC (LustreHsm (OLustre f) ev fl er t)"
| "normalize_lustre (Layout f) t = BackendC (LustreLayout (OLustre f) t)"

text \<open>
  The listener's handle: the batches waiting in its event channel and the acknowledgements
  sent back.
\<close>

record LustreChangeSource =
  lu_filesystem :: string
  lu_events :: "EventBatch list"
  lu_acks :: "Checkpoint list"
  lu_pending :: "Checkpoint option"
  lu_ready :: "ChangeBatch list"

definition lustre_source_new :: "string \<Rightarrow> LustreChangeSource" where
  "lustre_source_new fs =
     \<lparr>lu_filesystem = fs, lu_events = [], lu_acks = [], lu_pending = None, lu_ready = []\<rparr>"

definition split_batch :: "string \<Rightarrow> EventBatch \<Rightarrow> ChangeBatch list" where
  "split_batch fs batch =
     (if events batch = [] then
        [\<lparr>cb_filesystem = fs, changes = [],
          checkpoint = Checkpoint (eb_mdt batch) (max_index batch)\<rparr>]
      else map (\<lambda>e. \<lparr>cb_filesystem = fs, changes = [normalize_lustre (event e) (time e)],
                     checkpoint = Checkpoint (mdt e) (index e)\<rparr>) (events batch))"

text \<open>
  \<open>chan_closed\<close>: whether the listener has ended. On an empty channel \<open>recv\<close> then gives
  nothing, and otherwise waits (result \<open>None\<close>).
\<close>

definition lustre_next_batch ::
  "LustreChangeSource \<Rightarrow> bool \<Rightarrow>
   (ChangeSourceError + ChangeBatch option) option \<times> LustreChangeSource" where
  "lustre_next_batch s chan_closed =
     (if lu_pending s \<noteq> None then (Some (Inl PendingCheckpoint), s)
      else (case lu_ready s of
              b # bs \<Rightarrow> (Some (Inr (Some b)), s\<lparr>lu_ready := bs, lu_pending := Some (checkpoint b)\<rparr>)
            | [] \<Rightarrow>
              (case lu_events s of
                 [] \<Rightarrow> (if chan_closed then Some (Inr None) else None, s)
               | batch # rest \<Rightarrow>
                 (let q = split_batch (lu_filesystem s) batch
                  in (Some (Inr (Some (hd q))),
                      s\<lparr>lu_events := rest, lu_ready := tl q,
                        lu_pending := Some (checkpoint (hd q))\<rparr>)))))"

definition lustre_commit ::
  "LustreChangeSource \<Rightarrow> bool \<Rightarrow> Checkpoint \<Rightarrow> ChangeSourceError option \<times> LustreChangeSource" where
  "lustre_commit s ack_open cp =
     (case lu_pending s of
        None \<Rightarrow> (Some Closed, s)
      | Some expected \<Rightarrow>
          if expected \<noteq> cp then (Some (WrongSource (cp_string expected) (cp_string cp)), s)
          else if \<not> ack_open then (Some CommitChannelClosed, s)
          else (None, s\<lparr>lu_acks := lu_acks s @ [cp], lu_pending := None\<rparr>))"

section \<open>JuiceFS records\<close>

definition malformed :: "string \<Rightarrow> string \<Rightarrow> ChangeSourceError" where
  "malformed entry reason = MalformedRecord (reason @ '': '' @ entry)"

definition require_fields :: "string \<Rightarrow> string list \<Rightarrow> nat \<Rightarrow> ChangeSourceError option" where
  "require_fields entry flds expected =
     (if length flds = expected then None
      else Some (malformed entry (''expected '' @ dec_str expected @ '' fields, got '' @
                   dec_str (length flds))))"

definition field_u64 :: "string \<Rightarrow> string \<Rightarrow> string \<Rightarrow> ChangeSourceError + u64" where
  "field_u64 entry value field =
     (case parse_u64 value of
        Some n \<Rightarrow> Inr n | None \<Rightarrow> Inl (malformed entry (''invalid '' @ field)))"

definition field_u32 :: "string \<Rightarrow> string \<Rightarrow> string \<Rightarrow> ChangeSourceError + u32" where
  "field_u32 entry value field =
     (case parse_u32 value of
        Some n \<Rightarrow> Inr n | None \<Rightarrow> Inl (malformed entry (''invalid '' @ field)))"

definition parse_result :: "string \<Rightarrow> string option \<Rightarrow> ChangeSourceError + u64" where
  "parse_result entry result =
     (case result of
        None \<Rightarrow> Inl (malformed entry ''missing result inode'')
      | Some v \<Rightarrow> field_u64 entry v ''result inode'')"

fun decode_name :: "string \<Rightarrow> string \<Rightarrow> ChangeSourceError + bytes" where
  "decode_name entry [] = Inr []"
| "decode_name entry (c # cs) =
     (if c = CHR ''%'' then
        (case cs of
           a # b # rest \<Rightarrow>
             (if \<not> utf8_valid [a, b] then Inl (malformed entry ''invalid escaped name'')
              else (case parse_radix 16 256 [a, b] of
                      None \<Rightarrow> Inl (malformed entry ''invalid escaped name'')
                    | Some n \<Rightarrow> map_sum id (\<lambda>ds. char_of n # ds) (decode_name entry rest)))
         | _ \<Rightarrow> Inl (malformed entry ''truncated escaped name''))
      else map_sum id (\<lambda>ds. c # ds) (decode_name entry cs))"

definition juice_kind :: "string \<Rightarrow> u64 \<Rightarrow> ChangeSourceError + EntryKind" where
  "juice_kind entry v =
     (if v = 1 then Inr File else if v = 2 then Inr Directory else if v = 3 then Inr Symlink
      else if v = 4 then Inr Fifo else if v = 5 then Inr BlockDevice
      else if v = 6 then Inr CharDevice else if v = 7 then Inr Socket
      else Inl (malformed entry (''unknown entry type '' @ dec_str (unat v))))"

definition internal_ops :: "string list" where
  "internal_ops =
     [''ACCESS'', ''ATTACH'', ''CLEANSESSION'', ''CLEANUP'', ''CLEANUP_DELAYED_SLICES'',
      ''CLEANUP_TRASH_SLICES'', ''DELCHUNK'', ''DELETESLICE'', ''DELETETOKENS'', ''DELQUOTA'',
      ''DELSUSTAINED'', ''DIRSTAT'', ''INCR_COUNTER'', ''INIT_ENABLE_DIRSTATS'',
      ''INIT_ENABLE_USERGROUPQUOTA'', ''LOADDUMPEDACLS'', ''NEWSESSION'', ''SET'', ''SETQUOTA'',
      ''STORETOKEN'', ''UPDATETOKEN'']"

text \<open>The \<open>?\<close> operator: the first error, or the rest.\<close>

definition try_in :: "('e + 'a) \<Rightarrow> ('a \<Rightarrow> 'e + 'b) \<Rightarrow> 'e + 'b" where
  "try_in r k = (case r of Inl e \<Rightarrow> Inl e | Inr a \<Rightarrow> k a)"

definition guard_in :: "'e option \<Rightarrow> ('e + 'b) \<Rightarrow> 'e + 'b" where
  "guard_in g k = (case g of Some e \<Rightarrow> Inl e | None \<Rightarrow> k)"

definition parse_operation ::
  "string \<Rightarrow> i64 \<Rightarrow> string \<Rightarrow> string list \<Rightarrow> string option \<Rightarrow>
   ChangeSourceError + Change option" where
  "parse_operation entry seconds op_name flds result =
     (if op_name = ''CREATE'' then
        guard_in (require_fields entry flds 10)
          (try_in (field_u64 entry (flds ! 4) ''entry type'') (\<lambda>ty.
           try_in (juice_kind entry ty) (\<lambda>kind.
           try_in (parse_result entry result) (\<lambda>inode.
           try_in (field_u64 entry (flds ! 0) ''parent inode'') (\<lambda>p.
           try_in (decode_name entry (flds ! 1)) (\<lambda>nm.
           try_in (field_u32 entry (flds ! 2) ''uid'') (\<lambda>u.
           try_in (field_u32 entry (flds ! 3) ''gid'') (\<lambda>g.
           try_in (field_u32 entry (flds ! 5) ''mode'') (\<lambda>mo.
             Inr (Some (Created (OJuiceFs inode) (OJuiceFs p) nm kind
                    (Some \<lparr>cm_uid = u, cm_gid = g, cm_mode = mo\<rparr>) seconds)))))))))))
      else if op_name = ''SETATTR'' then
        guard_in (require_fields entry flds 14)
          (try_in (field_u64 entry (flds ! 0) ''inode'') (\<lambda>i.
             Inr (Some (MetadataChanged (OJuiceFs i) MetaAttributes seconds))))
      else if op_name = ''SETXATTR'' \<or> op_name = ''REMOVEXATTR'' then
        guard_in (require_fields entry flds (if op_name = ''SETXATTR'' then 4 else 2))
          (try_in (field_u64 entry (flds ! 0) ''inode'') (\<lambda>i.
             Inr (Some (MetadataChanged (OJuiceFs i) MetaXattr seconds))))
      else if op_name = ''WRITE'' then
        guard_in (require_fields entry flds 7)
          (try_in (field_u64 entry (flds ! 0) ''inode'') (\<lambda>i.
             Inr (Some (ContentChanged (OJuiceFs i) None [] ContentData seconds))))
      else if op_name = ''MOVE'' then
        guard_in (require_fields entry flds 7)
          (try_in (parse_result entry result) (\<lambda>inode.
           try_in (field_u64 entry (flds ! 0) ''source parent'') (\<lambda>sp.
           try_in (decode_name entry (flds ! 1)) (\<lambda>sn.
           try_in (field_u64 entry (flds ! 2) ''destination parent'') (\<lambda>p.
           try_in (decode_name entry (flds ! 3)) (\<lambda>nm.
             Inr (Some (Renamed (OJuiceFs inode) (OJuiceFs sp) sn (OJuiceFs p) nm seconds))))))))
      else if op_name = ''LINK'' then
        guard_in (require_fields entry flds 4)
          (try_in (field_u64 entry (flds ! 0) ''inode'') (\<lambda>i.
           try_in (field_u64 entry (flds ! 1) ''parent inode'') (\<lambda>p.
           try_in (decode_name entry (flds ! 2)) (\<lambda>nm.
             Inr (Some (Hardlinked (OJuiceFs i) (OJuiceFs p) nm seconds))))))
      else if op_name = ''UNLINK'' \<or> op_name = ''RMDIR'' then
        guard_in (require_fields entry flds (if op_name = ''UNLINK'' then 5 else 3))
          (try_in (parse_result entry result) (\<lambda>inode.
           try_in (field_u64 entry (flds ! 0) ''parent inode'') (\<lambda>p.
           try_in (decode_name entry (flds ! 1)) (\<lambda>nm.
             Inr (Some (Removed (OJuiceFs inode) (OJuiceFs p) nm (op_name = ''RMDIR'')
                    (op_name = ''RMDIR'') seconds))))))
      else if op_name \<in> set internal_ops then Inr None
      else Inl (malformed entry (''unsupported user operation '' @ op_name)))"

fun find_char :: "char \<Rightarrow> string \<Rightarrow> nat option" where
  "find_char d [] = None"
| "find_char d (c # cs) = (if c = d then Some 0 else map_option Suc (find_char d cs))"

definition rfind_char :: "char \<Rightarrow> string \<Rightarrow> nat option" where
  "rfind_char d s = rposition (\<lambda>c. c = d) s"

text \<open>
  A slice whose end lies before its start panics: the operation has a closing bracket, but
  only before its first opening one.
\<close>

definition parse_record :: "string \<Rightarrow> ChangeSourceError + Change option" where
  "parse_record entry =
     (case split_once (CHR ''|'') entry of
        None \<Rightarrow> Inl (malformed entry ''missing timestamp separator'')
      | Some (timestamp, rest) \<Rightarrow>
        (case parse_i64 (case split_once (CHR ''.'') timestamp of
                           Some (secs, _) \<Rightarrow> secs | None \<Rightarrow> timestamp) of
           None \<Rightarrow> Inl (malformed entry ''invalid timestamp'')
         | Some seconds \<Rightarrow>
           (let operation = (case split_once (CHR ''|'') rest of Some (x, _) \<Rightarrow> x | None \<Rightarrow> rest)
            in case find_char (CHR ''('') operation of
                 None \<Rightarrow> Inl (malformed entry ''missing operation arguments'')
               | Some op_open \<Rightarrow>
                 (case rfind_char (CHR '')'') operation of
                    None \<Rightarrow> Inl (malformed entry ''unterminated operation arguments'')
                  | Some op_close \<Rightarrow>
                      if op_close < op_open + 1 then Inl SlicePanic
                      else parse_operation entry seconds (take op_open operation)
                             (split_on (CHR '','') (take (op_close - (op_open + 1))
                                (drop (op_open + 1) operation)))
                             (strip_prefix '':'' (drop (op_close + 1) operation))))))"


section \<open>The JuiceFS adapter\<close>

datatype Code = FailedPrecondition | Unavailable | OtherCode nat

record Status =
  code :: Code
  message :: string

record ChangelogRecord =
  cr_volume :: string
  cr_version :: i64
  cr_entry :: string

record AckRequest =
  ar_volume :: string
  ar_version :: i64

text \<open>
  What the stream gives next: a record, its end or a status. After the end, and after
  \<open>Unavailable\<close>, the watch is opened again, with the status when that fails.
\<close>

datatype Polled =
    Msg ChangelogRecord
  | MsgEnd "Status option"
  | MsgErr Status "Status option"

record JuiceFsChangeSource =
  ju_filesystem :: string
  ju_volume :: string
  ju_pending :: "Checkpoint option"
  ju_last_acknowledged :: u64
  ju_acks :: "AckRequest list"

definition map_watch_status :: "Status \<Rightarrow> ChangeSourceError" where
  "map_watch_status st =
     (if code st = FailedPrecondition then RetentionGap (message st) else Rpc (message st))"

text \<open>\<open>connect\<close>: the outcomes of the transport and of the watch request.\<close>

definition juicefs_connect ::
  "string \<Rightarrow> string \<Rightarrow> string option \<Rightarrow> Status option \<Rightarrow> ChangeSourceError + JuiceFsChangeSource" where
  "juicefs_connect fs volume transport watch =
     (case transport of
        Some e \<Rightarrow> Inl (Transport e)
      | None \<Rightarrow>
        (case watch of
           Some st \<Rightarrow> Inl (map_watch_status st)
         | None \<Rightarrow> Inr \<lparr>ju_filesystem = fs, ju_volume = volume, ju_pending = None,
                       ju_last_acknowledged = 0, ju_acks = []\<rparr>))"

definition reopen_watch :: "Status option \<Rightarrow> ChangeSourceError option" where
  "reopen_watch watch = map_option map_watch_status watch"

fun juice_await :: "u64 \<Rightarrow> Polled list \<Rightarrow> (ChangeSourceError + ChangelogRecord) option" where
  "juice_await acked_to [] = None"
| "juice_await acked_to (Msg r # ps) =
     (if 0 < cr_version r \<and> (word_of_int (cr_version r) :: u64) \<le> acked_to
      then juice_await acked_to ps else Some (Inr r))"
| "juice_await acked_to (MsgEnd w # ps) =
     (case reopen_watch w of Some e \<Rightarrow> Some (Inl e) | None \<Rightarrow> juice_await acked_to ps)"
| "juice_await acked_to (MsgErr st w # ps) =
     (if code st = Unavailable then
        (case reopen_watch w of Some e \<Rightarrow> Some (Inl e) | None \<Rightarrow> juice_await acked_to ps)
      else if code st = FailedPrecondition then Some (Inl (RetentionGap (message st)))
      else Some (Inl (Rpc (message st))))"

definition juice_accept ::
  "JuiceFsChangeSource \<Rightarrow> ChangelogRecord \<Rightarrow>
   (ChangeSourceError + ChangeBatch option) \<times> JuiceFsChangeSource" where
  "juice_accept s r =
     (if cr_volume r \<noteq> ju_volume s then (Inl (WrongVolume (ju_volume s) (cr_volume r)), s)
      else if cr_version r \<le> 0 then
        (Inl (OutOfOrder (ju_last_acknowledged s) (cr_version r)), s)
      else (let cp = Checkpoint (ju_volume s) (word_of_int (cr_version r))
            in case parse_record (cr_entry r) of
                 Inl e \<Rightarrow> (Inl e, s)
               | Inr ch \<Rightarrow>
                   (Inr (Some \<lparr>cb_filesystem = ju_filesystem s,
                               changes = (case ch of None \<Rightarrow> [] | Some c \<Rightarrow> [c]),
                               checkpoint = cp\<rparr>),
                    s\<lparr>ju_pending := Some cp\<rparr>)))"

definition juicefs_next_batch ::
  "JuiceFsChangeSource \<Rightarrow> Polled list \<Rightarrow>
   (ChangeSourceError + ChangeBatch option) option \<times> JuiceFsChangeSource" where
  "juicefs_next_batch s polled =
     (if ju_pending s \<noteq> None then (Some (Inl PendingCheckpoint), s)
      else (case juice_await (ju_last_acknowledged s) polled of
              None \<Rightarrow> (None, s)
            | Some (Inl e) \<Rightarrow> (Some (Inl e), s)
            | Some (Inr r) \<Rightarrow> map_prod Some id (juice_accept s r)))"

definition juicefs_commit ::
  "JuiceFsChangeSource \<Rightarrow> Status option \<Rightarrow> Checkpoint \<Rightarrow>
   ChangeSourceError option \<times> JuiceFsChangeSource" where
  "juicefs_commit s rpc cp =
     (case ju_pending s of
        None \<Rightarrow> (Some Closed, s)
      | Some expected \<Rightarrow>
          if expected \<noteq> cp then (Some (WrongSource (cp_string expected) (cp_string cp)), s)
          else (case rpc of
                  Some st \<Rightarrow> (Some (Rpc (message st)), s)
                | None \<Rightarrow>
                    (None, s\<lparr>ju_last_acknowledged := cp_position cp, ju_pending := None,
                             ju_acks := ju_acks s @ [\<lparr>ar_volume = ju_volume s,
                               ar_version = sint (cp_position cp)\<rparr>]\<rparr>)))"

section \<open>The trait\<close>

text \<open>A history of calls on a source, with what the environment gives to each of them.\<close>

datatype ('i, 'a) source_call = NextBatch 'i | CommitCall 'a Checkpoint

fun run_source ::
  "('s \<Rightarrow> 'i \<Rightarrow> ('e + ChangeBatch option) option \<times> 's) \<Rightarrow>
   ('s \<Rightarrow> 'a \<Rightarrow> Checkpoint \<Rightarrow> 'e option \<times> 's) \<Rightarrow>
   's \<Rightarrow> ('i, 'a) source_call list \<Rightarrow> ChangeBatch list \<times> 's" where
  "run_source nxt cmt s [] = ([], s)"
| "run_source nxt cmt s (NextBatch i # cs) =
     (case nxt s i of
        (Some (Inr (Some b)), s') \<Rightarrow> map_prod (Cons b) id (run_source nxt cmt s' cs)
      | (_, s') \<Rightarrow> run_source nxt cmt s' cs)"
| "run_source nxt cmt s (CommitCall a cp # cs) = run_source nxt cmt (snd (cmt s a cp)) cs"

locale change_source =
  fixes nxt :: "'s \<Rightarrow> 'i \<Rightarrow> (ChangeSourceError + ChangeBatch option) option \<times> 's"
    and cmt :: "'s \<Rightarrow> 'a \<Rightarrow> Checkpoint \<Rightarrow> ChangeSourceError option \<times> 's"
    and pending :: "'s \<Rightarrow> Checkpoint option"
    and acked :: "'s \<Rightarrow> 'k list"
    and ack_of :: "'s \<Rightarrow> Checkpoint \<Rightarrow> 'k"
  assumes next_blocked: "pending s \<noteq> None \<Longrightarrow> fst (nxt s i) = Some (Inl PendingCheckpoint)"
    and next_delivers: "nxt s i = (Some (Inr (Some b)), s') \<Longrightarrow> pending s' = Some (checkpoint b)"
    and next_other: "nxt s i = (r, s') \<Longrightarrow> \<nexists>b. r = Some (Inr (Some b)) \<Longrightarrow> pending s' = pending s"
    and next_acked: "nxt s i = (r, s') \<Longrightarrow> acked s' = acked s"
    and next_ack_of: "nxt s i = (r, s') \<Longrightarrow> ack_of s' = ack_of s"
    and commit_ok: "cmt s a cp = (None, s') \<Longrightarrow>
      pending s = Some cp \<and> pending s' = None \<and> acked s' = acked s @ [ack_of s cp]
        \<and> ack_of s' = ack_of s"
    and commit_error: "cmt s a cp = (Some e, s') \<Longrightarrow> s' = s"
begin

definition outstanding :: "'s \<Rightarrow> 'k list" where
  "outstanding s = map (ack_of s) (case pending s of None \<Rightarrow> [] | Some cp \<Rightarrow> [cp])"

lemma next_idle: "nxt s i = (Some (Inr (Some b)), s') \<Longrightarrow> pending s = None"
  using next_blocked [of s i] by (cases "pending s") auto

lemma delivered_is_acked_or_pending:
  "run_source nxt cmt s cs = (bs, s') \<Longrightarrow>
     acked s @ outstanding s @ map (ack_of s \<circ> checkpoint) bs = acked s' @ outstanding s'
     \<and> ack_of s' = ack_of s"
proof (induction cs arbitrary: s bs)
  case Nil
  then show ?case by simp
next
  case (Cons c cs)
  show ?case
  proof (cases c)
    case (NextBatch i)
    obtain r t where step: "nxt s i = (r, t)" by fastforce
    show ?thesis
    proof (cases "\<exists>b. r = Some (Inr (Some b))")
      case True
      then obtain b where r: "r = Some (Inr (Some b))" by blast
      obtain bs' where rest: "run_source nxt cmt t cs = (bs', s')" and bs: "bs = b # bs'"
        using Cons.prems step r NextBatch by (cases "run_source nxt cmt t cs") auto
      have "pending s = None" and "pending t = Some (checkpoint b)"
        using next_idle next_delivers step r by blast+
      moreover have "acked t = acked s" and "ack_of t = ack_of s"
        using next_acked next_ack_of step by blast+
      ultimately show ?thesis
        using Cons.IH [OF rest] bs by (simp add: outstanding_def)
    next
      case False
      then have "run_source nxt cmt t cs = (bs, s')"
        using Cons.prems step NextBatch by (auto split: prod.splits option.splits sum.splits)
      moreover have "pending t = pending s" "acked t = acked s" "ack_of t = ack_of s"
        using next_other next_acked next_ack_of step False by blast+
      ultimately show ?thesis using Cons.IH [of t bs] by (simp add: outstanding_def)
    qed
  next
    case (CommitCall a cp)
    obtain r t where step: "cmt s a cp = (r, t)" by fastforce
    have rest: "run_source nxt cmt t cs = (bs, s')" using Cons.prems step CommitCall by simp
    show ?thesis
    proof (cases r)
      case None
      from commit_ok [OF step [unfolded None]] Cons.IH [OF rest]
      show ?thesis by (simp add: outstanding_def)
    next
      case (Some e)
      from commit_error [OF step [unfolded Some]] Cons.IH [OF rest] show ?thesis by simp
    qed
  qed
qed

end


text \<open>
  The Lustre source between two calls: batches arrive in the channel, then the source is
  asked for its next one.
\<close>

definition lustre_turn ::
  "LustreChangeSource \<Rightarrow> EventBatch list \<times> bool \<Rightarrow>
   (ChangeSourceError + ChangeBatch option) option \<times> LustreChangeSource" where
  "lustre_turn s inp = lustre_next_batch (s\<lparr>lu_events := lu_events s @ fst inp\<rparr>) (snd inp)"

lemma split_batch_nonempty [simp]: "split_batch fs b \<noteq> []"
  by (simp add: split_batch_def)

interpretation lustre: change_source lustre_turn lustre_commit lu_pending lu_acks "\<lambda>_ cp. cp"
  by unfold_locales
    (auto simp: lustre_turn_def lustre_next_batch_def lustre_commit_def Let_def
      split: if_splits option.splits list.splits)

definition juice_ack :: "JuiceFsChangeSource \<Rightarrow> Checkpoint \<Rightarrow> AckRequest" where
  "juice_ack s cp = \<lparr>ar_volume = ju_volume s, ar_version = sint (cp_position cp)\<rparr>"

lemma juice_accept_cases:
  obtains e where "juice_accept s r = (Inl e, s)"
  | b where "juice_accept s r = (Inr (Some b), s\<lparr>ju_pending := Some (checkpoint b)\<rparr>)"
    "checkpoint b = Checkpoint (ju_volume s) (word_of_int (cr_version r))" "0 < cr_version r"
proof (cases "cr_volume r = ju_volume s \<and> 0 < cr_version r")
  case True
  show ?thesis
  proof (cases "parse_record (cr_entry r)")
    case (Inl e)
    with True show ?thesis by (intro that(1) [of e]) (simp add: juice_accept_def)
  next
    case (Inr ch)
    with True show ?thesis
      by (intro that(2) [of "\<lparr>cb_filesystem = ju_filesystem s,
            changes = (case ch of None \<Rightarrow> [] | Some c \<Rightarrow> [c]),
            checkpoint = Checkpoint (ju_volume s) (word_of_int (cr_version r))\<rparr>"])
        (simp_all add: juice_accept_def Let_def)
  qed
next
  case False
  then show ?thesis by (cases "cr_volume r = ju_volume s") (auto intro: that(1) simp: juice_accept_def)
qed

lemma juicefs_next_cases:
  obtains x where "juicefs_next_batch s ps = (x, s)" "\<nexists>b. x = Some (Inr (Some b))"
      "ju_pending s \<noteq> None \<longrightarrow> x = Some (Inl PendingCheckpoint)"
  | b r where "juicefs_next_batch s ps = (Some (Inr (Some b)), s\<lparr>ju_pending := Some (checkpoint b)\<rparr>)"
    "ju_pending s = None" "juice_await (ju_last_acknowledged s) ps = Some (Inr r)"
    "checkpoint b = Checkpoint (ju_volume s) (word_of_int (cr_version r))" "0 < cr_version r"
proof (cases "ju_pending s")
  case (Some cp)
  then show ?thesis by (intro that(1)) (auto simp: juicefs_next_batch_def)
next
  case None
  show ?thesis
  proof (cases "juice_await (ju_last_acknowledged s) ps")
    case aw: (Some x)
    show ?thesis
    proof (cases x)
      case (Inr r)
      have *: "juicefs_next_batch s ps = map_prod Some id (juice_accept s r)"
        using None aw Inr by (simp add: juicefs_next_batch_def)
      show ?thesis
      proof (rule juice_accept_cases [of s r])
        fix e
        assume "juice_accept s r = (Inl e, s)"
        with * None show ?thesis by (intro that(1)) auto
      next
        fix b
        assume "juice_accept s r = (Inr (Some b), s\<lparr>ju_pending := Some (checkpoint b)\<rparr>)"
          and "checkpoint b = Checkpoint (ju_volume s) (word_of_int (cr_version r))"
          and "0 < cr_version r"
        with * None aw Inr show ?thesis by (intro that(2) [of b r]) simp_all
      qed
    qed (use None aw in \<open>auto intro: that(1) simp: juicefs_next_batch_def\<close>)
  qed (use None in \<open>auto intro: that(1) simp: juicefs_next_batch_def\<close>)
qed

lemma juicefs_commit_cases:
  obtains e where "juicefs_commit s rpc cp = (Some e, s)"
  | "ju_pending s = Some cp" "juicefs_commit s rpc cp =
      (None, s\<lparr>ju_last_acknowledged := cp_position cp, ju_pending := None,
               ju_acks := ju_acks s @ [juice_ack s cp]\<rparr>)"
  by (cases "ju_pending s"; cases rpc; cases "ju_pending s = Some cp")
    (auto simp: juicefs_commit_def juice_ack_def)

interpretation juicefs: change_source juicefs_next_batch juicefs_commit ju_pending ju_acks juice_ack
proof
  fix s i b s' r a cp e
  show "ju_pending s \<noteq> None \<Longrightarrow> fst (juicefs_next_batch s i) = Some (Inl PendingCheckpoint)"
    by (simp add: juicefs_next_batch_def)
  show "juicefs_next_batch s i = (Some (Inr (Some b)), s') \<Longrightarrow> ju_pending s' = Some (checkpoint b)"
    by (rule juicefs_next_cases [of s i]) auto
  show "juicefs_next_batch s i = (r, s') \<Longrightarrow> \<nexists>b. r = Some (Inr (Some b)) \<Longrightarrow>
    ju_pending s' = ju_pending s"
    by (rule juicefs_next_cases [of s i]) auto
  show "juicefs_next_batch s i = (r, s') \<Longrightarrow> ju_acks s' = ju_acks s"
    by (rule juicefs_next_cases [of s i]) auto
  show "juicefs_next_batch s i = (r, s') \<Longrightarrow> juice_ack s' = juice_ack s"
    by (rule juicefs_next_cases [of s i]) (auto simp: juice_ack_def fun_eq_iff)
  show "juicefs_commit s a cp = (None, s') \<Longrightarrow> ju_pending s = Some cp \<and> ju_pending s' = None \<and>
    ju_acks s' = ju_acks s @ [juice_ack s cp] \<and> juice_ack s' = juice_ack s"
    by (rule juicefs_commit_cases [of s a cp]) (auto simp: juice_ack_def fun_eq_iff)
  show "juicefs_commit s a cp = (Some e, s') \<Longrightarrow> s' = s"
    by (rule juicefs_commit_cases [of s a cp]) auto
qed


section \<open>The checkpoint protocol\<close>

lemma juice_await_fresh:
  "juice_await k ps = Some (Inr r) \<Longrightarrow> 0 < cr_version r \<Longrightarrow> k < word_of_int (cr_version r)"
  by (induction k ps rule: juice_await.induct) (auto split: if_splits option.splits)

definition juice_floor :: "JuiceFsChangeSource \<Rightarrow> u64" where
  "juice_floor s =
     (case ju_pending s of None \<Rightarrow> ju_last_acknowledged s | Some cp \<Rightarrow> cp_position cp)"

abbreviation positions :: "ChangeBatch list \<Rightarrow> u64 list" where
  "positions bs \<equiv> map (cp_position \<circ> checkpoint) bs"

lemma juicefs_positions_increase:
  "run_source juicefs_next_batch juicefs_commit s cs = (bs, s') \<Longrightarrow>
     sorted_wrt (<) (juice_floor s # positions bs)"
proof (induction cs arbitrary: s bs)
  case Nil
  then show ?case by simp
next
  case (Cons c cs)
  show ?case
  proof (cases c)
    case (NextBatch ps)
    show ?thesis
    proof (rule juicefs_next_cases [of s ps])
      fix x
      assume "juicefs_next_batch s ps = (x, s)" "\<nexists>b. x = Some (Inr (Some b))"
      then have "run_source juicefs_next_batch juicefs_commit s cs = (bs, s')"
        using Cons.prems NextBatch by (auto split: option.splits sum.splits)
      then show ?thesis by (rule Cons.IH)
    next
      fix b r
      assume step: "juicefs_next_batch s ps = (Some (Inr (Some b)), s\<lparr>ju_pending := Some (checkpoint b)\<rparr>)"
        and idle: "ju_pending s = None"
        and await: "juice_await (ju_last_acknowledged s) ps = Some (Inr r)"
        and cp: "checkpoint b = Checkpoint (ju_volume s) (word_of_int (cr_version r))"
        and pos: "0 < cr_version r"
      obtain bs' where rest: "run_source juicefs_next_batch juicefs_commit
          (s\<lparr>ju_pending := Some (checkpoint b)\<rparr>) cs = (bs', s')" and bs: "bs = b # bs'"
        using Cons.prems step NextBatch
        by (cases "run_source juicefs_next_batch juicefs_commit
          (s\<lparr>ju_pending := Some (checkpoint b)\<rparr>) cs") auto
      have "juice_floor s < cp_position (checkpoint b)"
        using juice_await_fresh [OF await pos] idle cp by (simp add: juice_floor_def)
      moreover from Cons.IH [OF rest]
      have "sorted_wrt (<) (cp_position (checkpoint b) # positions bs')"
        by (simp add: juice_floor_def o_def)
      ultimately show ?thesis
        unfolding bs by (simp only: list.map o_def sorted_wrt2 [OF transp_on_less])
    qed
  next
    case (CommitCall a cp)
    then have rest: "run_source juicefs_next_batch juicefs_commit (snd (juicefs_commit s a cp)) cs
      = (bs, s')" using Cons.prems by simp
    have "juice_floor (snd (juicefs_commit s a cp)) = juice_floor s"
      by (rule juicefs_commit_cases [of s a cp]) (auto simp: juice_floor_def)
    with Cons.IH [OF rest] show ?thesis by simp
  qed
qed

text \<open>
  C8: For JuiceFS, whatever the gRPC stream delivers (records replayed after a reconnection,
  ended or unavailable streams, foreign or malformed records) and whatever commits are
  attempted and fail, the batches a fresh source hands out carry strictly increasing
  versions, so that no record is delivered twice; and the acknowledgements sent to the
  Agent are exactly those of the delivered batches, in order, but for the one batch that is
  not yet committed.
\<close>

theorem juicefs_exactly_once:
  assumes "juicefs_connect fs volume transport watch = Inr s"
    and "run_source juicefs_next_batch juicefs_commit s calls = (delivered, s')"
  shows "sorted_wrt (<) (positions delivered)
    \<and> map (juice_ack s \<circ> checkpoint) delivered =
           ju_acks s' @ (case ju_pending s' of None \<Rightarrow> [] | Some cp \<Rightarrow> [juice_ack s cp])"
proof
  show "sorted_wrt (<) (positions delivered)"
    using juicefs_positions_increase [OF assms(2)] by simp
  have "ju_acks s = []" "ju_pending s = None"
    using assms(1) by (auto simp: juicefs_connect_def split: option.splits)
  with juicefs.delivered_is_acked_or_pending [OF assms(2)]
  show "map (juice_ack s \<circ> checkpoint) delivered =
      ju_acks s' @ (case ju_pending s' of None \<Rightarrow> [] | Some cp \<Rightarrow> [juice_ack s cp])"
    by (simp add: juicefs.outstanding_def split: option.splits)
qed

definition juice_demo_calls :: "(Polled list, Status option) source_call list" where
  "juice_demo_calls =
     [NextBatch [Msg \<lparr>cr_volume = ''v'', cr_version = 7, cr_entry = ''1.0|SET(a)''\<rparr>],
      CommitCall None (Checkpoint ''v'' 7),
      NextBatch [MsgEnd None, Msg \<lparr>cr_volume = ''v'', cr_version = 7, cr_entry = ''1.0|SET(a)''\<rparr>,
                 Msg \<lparr>cr_volume = ''v'', cr_version = 9, cr_entry = ''2.0|ATTACH(b)''\<rparr>]]"

definition juice_demo_source :: JuiceFsChangeSource where
  "juice_demo_source = \<lparr>ju_filesystem = ''jfs'', ju_volume = ''v'', ju_pending = None,
     ju_last_acknowledged = 0, ju_acks = []\<rparr>"

theorem juicefs_exactly_once_witness:
  "positions (fst (run_source juicefs_next_batch juicefs_commit juice_demo_source juice_demo_calls))
     = [7, 9]
   \<and> sorted_wrt (<) (positions
       (fst (run_source juicefs_next_batch juicefs_commit juice_demo_source juice_demo_calls)))"
proof
  show "positions (fst (run_source juicefs_next_batch juicefs_commit juice_demo_source
    juice_demo_calls)) = [7, 9]"
    by (simp add: juice_demo_calls_def juice_demo_source_def juicefs_next_batch_def
      juicefs_commit_def juice_accept_def reopen_watch_def parse_record_def parse_operation_def
      parse_i64_def parse_radix_def digit_val_def i64_max_def rfind_char_def internal_ops_def Let_def)
  have "juicefs_connect ''jfs'' ''v'' None None = Inr juice_demo_source"
    by (simp add: juicefs_connect_def juice_demo_source_def)
  then show "sorted_wrt (<) (positions
       (fst (run_source juicefs_next_batch juicefs_commit juice_demo_source juice_demo_calls)))"
    by (rule juicefs_exactly_once [THEN conjunct1]) (rule prod.collapse [symmetric])
qed

text \<open>All the batches that arrived in the channel during a history.\<close>

fun arrivals :: "(EventBatch list \<times> bool, 'a) source_call list \<Rightarrow> EventBatch list" where
  "arrivals [] = []"
| "arrivals (NextBatch inp # cs) = fst inp @ arrivals cs"
| "arrivals (CommitCall _ _ # cs) = arrivals cs"

definition lustre_backlog :: "LustreChangeSource \<Rightarrow> ChangeBatch list" where
  "lustre_backlog s = lu_ready s @ concat (map (split_batch (lu_filesystem s)) (lu_events s))"

lemma lustre_next_backlog:
  "lustre_next_batch s cl = (r, s') \<Longrightarrow>
     lu_filesystem s' = lu_filesystem s \<and>
     lustre_backlog s = (case r of Some (Inr (Some b)) \<Rightarrow> b # lustre_backlog s' | _ \<Rightarrow> lustre_backlog s')"
  by (auto simp: lustre_next_batch_def lustre_backlog_def Let_def hd_append
      split: if_splits list.splits)

lemma lustre_turn_backlog:
  "lustre_turn s inp = (r, s') \<Longrightarrow>
     lu_filesystem s' = lu_filesystem s \<and>
     lustre_backlog s @ concat (map (split_batch (lu_filesystem s)) (fst inp)) =
       (case r of Some (Inr (Some b)) \<Rightarrow> b # lustre_backlog s' | _ \<Rightarrow> lustre_backlog s')"
  using lustre_next_backlog [of "s\<lparr>lu_events := lu_events s @ fst inp\<rparr>" "snd inp" r s']
  by (simp add: lustre_turn_def lustre_backlog_def)

lemma lustre_commit_backlog:
  "lustre_commit s a cp = (r, s') \<Longrightarrow>
     lustre_backlog s' = lustre_backlog s \<and> lu_filesystem s' = lu_filesystem s"
  by (auto simp: lustre_commit_def lustre_backlog_def split: option.splits if_splits)

lemma lustre_run_backlog:
  "run_source lustre_turn lustre_commit s cs = (bs, s') \<Longrightarrow>
     lustre_backlog s @ concat (map (split_batch (lu_filesystem s)) (arrivals cs))
       = bs @ lustre_backlog s'"
proof (induction cs arbitrary: s bs)
  case Nil
  then show ?case by simp
next
  case (Cons c cs)
  show ?case
  proof (cases c)
    case (NextBatch inp)
    obtain r t where step: "lustre_turn s inp = (r, t)" by fastforce
    show ?thesis
    proof (cases "\<exists>b. r = Some (Inr (Some b))")
      case True
      then obtain b where r: "r = Some (Inr (Some b))" by blast
      obtain bs' where rest: "run_source lustre_turn lustre_commit t cs = (bs', s')"
        and bs: "bs = b # bs'"
        using Cons.prems step r NextBatch by (cases "run_source lustre_turn lustre_commit t cs") auto
      from Cons.IH [OF rest] lustre_turn_backlog [OF step] show ?thesis
        unfolding bs NextBatch by (simp add: r flip: append_assoc)
    next
      case False
      then have rest: "run_source lustre_turn lustre_commit t cs = (bs, s')"
        using Cons.prems step NextBatch by (auto split: option.splits sum.splits)
      have "(case r of Some (Inr (Some b)) \<Rightarrow> b # lustre_backlog t | _ \<Rightarrow> lustre_backlog t)
        = lustre_backlog t" using False by (auto split: option.splits sum.splits)
      with Cons.IH [OF rest] lustre_turn_backlog [OF step] show ?thesis
        unfolding NextBatch by (simp flip: append_assoc)
    qed
  next
    case (CommitCall a cp)
    obtain r t where step: "lustre_commit s a cp = (r, t)" by fastforce
    then have "run_source lustre_turn lustre_commit t cs = (bs, s')"
      using Cons.prems CommitCall by simp
    from Cons.IH [OF this] lustre_commit_backlog [OF step] CommitCall show ?thesis by simp
  qed
qed

lemma lustre_run_filesystem:
  "run_source lustre_turn lustre_commit s cs = (bs, s') \<Longrightarrow> lu_filesystem s' = lu_filesystem s"
proof (induction cs arbitrary: s bs)
  case (Cons c cs)
  show ?case
  proof (cases c)
    case (NextBatch inp)
    obtain r t where step: "lustre_turn s inp = (r, t)" by fastforce
    then have "\<exists>bs'. run_source lustre_turn lustre_commit t cs = (bs', s')"
      using Cons.prems NextBatch
      by (cases "run_source lustre_turn lustre_commit t cs")
        (auto split: option.splits sum.splits)
    with Cons.IH lustre_turn_backlog [OF step] show ?thesis by auto
  next
    case (CommitCall a cp)
    with Cons.prems Cons.IH show ?thesis
      by (metis lustre_commit_backlog prod.collapse run_source.simps(3))
  qed
qed simp

text \<open>
  C26: For Lustre, the source hands out the listener's batches without loss, duplication or
  reordering: at every moment what was delivered, what is queued for delivery and what
  waits in the channel are together the normalized per-event split of everything the
  listener sent. The acknowledgements that reached the listener are the checkpoints of the
  delivered batches, in order, but for the one not yet committed.
\<close>

theorem lustre_source_delivers:
  assumes "run_source lustre_turn lustre_commit (lustre_source_new fs) calls = (delivered, s')"
  shows "delivered @ lu_ready s' @ concat (map (split_batch fs) (lu_events s')) =
           concat (map (split_batch fs) (arrivals calls))
    \<and> map checkpoint delivered =
           lu_acks s' @ (case lu_pending s' of None \<Rightarrow> [] | Some cp \<Rightarrow> [cp])"
proof
  show "delivered @ lu_ready s' @ concat (map (split_batch fs) (lu_events s')) =
      concat (map (split_batch fs) (arrivals calls))"
    using lustre_run_backlog [OF assms] lustre_run_filesystem [OF assms]
    by (simp add: lustre_backlog_def lustre_source_new_def)
  show "map checkpoint delivered =
      lu_acks s' @ (case lu_pending s' of None \<Rightarrow> [] | Some cp \<Rightarrow> [cp])"
    using lustre.delivered_is_acked_or_pending [OF assms]
    by (simp add: lustre.outstanding_def lustre_source_new_def o_def split: option.splits)
qed


definition lustre_demo_calls :: "(EventBatch list \<times> bool, bool) source_call list" where
  "lustre_demo_calls =
     [NextBatch ([\<lparr>eb_mdt = ''m0'', events = [], min_index = 5, max_index = 5\<rparr>], False),
      NextBatch ([\<lparr>eb_mdt = ''m0'', events = [], min_index = 6, max_index = 6\<rparr>], False),
      CommitCall True (Checkpoint ''m0'' 5), NextBatch ([], False)]"

theorem lustre_source_delivers_witness:
  "map checkpoint (fst (run_source lustre_turn lustre_commit (lustre_source_new ''fs'') lustre_demo_calls))
     = [Checkpoint ''m0'' 5, Checkpoint ''m0'' 6]
   \<and> map checkpoint (fst (run_source lustre_turn lustre_commit (lustre_source_new ''fs'') lustre_demo_calls))
     = (let s' = snd (run_source lustre_turn lustre_commit (lustre_source_new ''fs'') lustre_demo_calls)
        in lu_acks s' @ (case lu_pending s' of None \<Rightarrow> [] | Some cp \<Rightarrow> [cp]))"
proof
  show "map checkpoint (fst (run_source lustre_turn lustre_commit (lustre_source_new ''fs'')
      lustre_demo_calls)) = [Checkpoint ''m0'' 5, Checkpoint ''m0'' 6]"
    by (simp add: lustre_demo_calls_def lustre_source_new_def lustre_turn_def
      lustre_next_batch_def lustre_commit_def split_batch_def)
  show "map checkpoint (fst (run_source lustre_turn lustre_commit (lustre_source_new ''fs'')
      lustre_demo_calls))
     = (let s' = snd (run_source lustre_turn lustre_commit (lustre_source_new ''fs'') lustre_demo_calls)
        in lu_acks s' @ (case lu_pending s' of None \<Rightarrow> [] | Some cp \<Rightarrow> [cp]))"
    unfolding Let_def
    by (rule lustre_source_delivers [of "''fs''" lustre_demo_calls, THEN conjunct2]) (rule prod.collapse [symmetric])
qed

section \<open>Escaped names and records\<close>

text \<open>The Agent's escaping: a percent sign and two hexadecimal digits, at least for \<open>%\<close>.\<close>

definition hex_digit :: "nat \<Rightarrow> char" where
  "hex_digit d = char_of (if d < 10 then 48 + d else 55 + d)"

definition escape_char :: "(char \<Rightarrow> bool) \<Rightarrow> char \<Rightarrow> string" where
  "escape_char esc c =
     (if c = CHR ''%'' \<or> esc c
      then [CHR ''%'', hex_digit (of_char c div 16), hex_digit (of_char c mod 16)] else [c])"

definition escape_name :: "(char \<Rightarrow> bool) \<Rightarrow> bytes \<Rightarrow> string" where
  "escape_name esc bs = concat (map (escape_char esc) bs)"

lemma hex_digit_facts:
  assumes "d < 16"
  shows "digit_val 16 (hex_digit d) = Some d" "hex_digit d \<noteq> CHR ''+''"
    "(of_char (hex_digit d) :: nat) < 128"
    "hex_digit d \<noteq> CHR '',''" "hex_digit d \<noteq> CHR ''|''" "hex_digit d \<noteq> CHR '')''" "hex_digit d \<noteq> CHR ''(''"
  using assms by (auto simp: hex_digit_def digit_val_def dest!: arg_cong [where f = "of_char :: char \<Rightarrow> nat"])

lemma parse_hex_pair:
  assumes "n < 256"
  shows "parse_radix 16 256 [hex_digit (n div 16), hex_digit (n mod 16)] = Some n"
    and "utf8_valid [hex_digit (n div 16), hex_digit (n mod 16)]"
proof -
  have bnds: "n div 16 < 16" "n mod 16 < 16" using assms by auto
  show "parse_radix 16 256 [hex_digit (n div 16), hex_digit (n mod 16)] = Some n"
    using assms by (simp add: parse_radix_def hex_digit_facts [OF bnds(1)] hex_digit_facts [OF bnds(2)])
  show "utf8_valid [hex_digit (n div 16), hex_digit (n mod 16)]"
    using hex_digit_facts(3) [OF bnds(1)] hex_digit_facts(3) [OF bnds(2)]
    by (simp add: utf8_spec_def)
qed

lemma decode_escaped: "decode_name entry (escape_name esc bs) = Inr bs"
proof (induction bs)
  case Nil
  then show ?case by (simp add: escape_name_def)
next
  case (Cons c bs)
  have "escape_name esc (c # bs) = escape_char esc c @ escape_name esc bs"
    by (simp add: escape_name_def)
  then show ?case
    using Cons parse_hex_pair [OF nat_of_char_less_256 [of c]]
    by (auto simp: escape_char_def simp del: utf8_valid.simps)
qed


text \<open>
  Decoding inverts escaping: whichever characters the Agent chooses to escape besides
  the percent sign, \<open>decode_name\<close> gives back exactly the bytes of the name.
\<close>

theorem decode_escape_name: "decode_name entry (escape_name esc bs) = Inr bs"
  by (rule decode_escaped)

lemma split_once_append: "d \<notin> set s \<Longrightarrow> split_once d (s @ d # t) = Some (s, t)"
  by (induction s) auto

lemma find_char_append: "d \<notin> set s \<Longrightarrow> find_char d (s @ d # t) = Some (length s)"
  by (induction s) auto

lemma rposition_absent: "\<forall>x \<in> set t. \<not> P x \<Longrightarrow> rposition P t = None"
  by (induction t) auto

lemma rposition_last: "\<forall>x \<in> set t. \<not> P x \<Longrightarrow> P y \<Longrightarrow> rposition P (s @ y # t) = Some (length s)"
  by (induction s) (auto simp: rposition_absent)

lemma rfind_char_append: "d \<notin> set t \<Longrightarrow> rfind_char d (s @ d # t) = Some (length s)"
  by (auto simp: rfind_char_def intro!: rposition_last)

lemma take_drop_between: "take (length b) (drop (Suc (length a)) (a @ x # b @ y # c)) = b"
  by simp

text \<open>
  The shape of a record: seconds, a fraction, the operation with its arguments and the
  result inode, and a trailer.
\<close>

definition render_record ::
  "nat \<Rightarrow> string \<Rightarrow> string \<Rightarrow> string \<Rightarrow> string \<Rightarrow> string \<Rightarrow> string" where
  "render_record secs frac op_name args res trailer =
     (dec_str secs @ CHR ''.'' # frac) @ CHR ''|'' #
       (op_name @ CHR ''('' # args @ CHR '')'' # CHR '':'' # res) @ CHR ''|'' # trailer"

lemma parse_record_shape:
  assumes secs: "int secs \<le> i64_max" and frac: "CHR ''|'' \<notin> set frac"
    and nm: "CHR ''|'' \<notin> set op_name" "CHR ''('' \<notin> set op_name"
    and args: "CHR ''|'' \<notin> set args"
    and res: "CHR ''|'' \<notin> set res" "CHR '')'' \<notin> set res"
  shows "parse_record (render_record secs frac op_name args res trailer) =
    parse_operation (render_record secs frac op_name args res trailer) (int secs) op_name
      (split_on (CHR '','') args) (Some res)"
proof -
  let ?entry = "render_record secs frac op_name args res trailer"
  let ?op = "op_name @ CHR ''('' # args @ CHR '')'' # CHR '':'' # res"
  have ts: "CHR ''|'' \<notin> set (dec_str secs @ CHR ''.'' # frac)" using frac by simp
  have op_clean: "CHR ''|'' \<notin> set ?op" using nm args res by simp
  have close: "rfind_char (CHR '')'') ?op = Some (length op_name + Suc (length args))"
    using rfind_char_append [of "CHR '')''" "CHR '':'' # res" "op_name @ CHR ''('' # args"] res by simp
  show ?thesis
    unfolding parse_record_def
    by (subst render_record_def, subst split_once_append [OF ts], subst render_record_def,
        simp add: split_once_append [OF op_clean, simplified] split_once_append parse_i64_dec_str [OF secs]
          find_char_append [OF nm(2)] close [simplified])
qed


text \<open>The characters that structure a record are escaped in a name.\<close>

definition structural :: "char \<Rightarrow> bool" where
  "structural c = (c \<in> {CHR ''|'', CHR '','', CHR ''('', CHR '')''})"

lemma hex_digit_not_structural: "d < 16 \<Longrightarrow> \<not> structural (hex_digit d)"
  using hex_digit_facts(4-7) [of d] by (simp add: structural_def)

lemma escape_name_clean:
  assumes "structural d"
  shows "d \<notin> set (escape_name structural nm)"
proof -
  have "d \<notin> set (escape_char structural c)" for c
  proof (cases "c = CHR ''%'' \<or> structural c")
    case True
    have "of_char c div 16 < (16 :: nat)" "of_char c mod 16 < (16 :: nat)"
      by (simp_all add: less_mult_imp_div_less)
    then have "d \<noteq> hex_digit (of_char c div 16)" "d \<noteq> hex_digit (of_char c mod 16)"
      using hex_digit_not_structural assms by blast+
    moreover have "d \<noteq> CHR ''%''" using assms by (auto simp: structural_def)
    ultimately show ?thesis using True by (simp add: escape_char_def)
  next
    case False
    with assms show ?thesis by (auto simp: escape_char_def)
  qed
  then show ?thesis by (simp add: escape_name_def)
qed

lemma escape_name_clean_simps [simp]:
  "CHR ''|'' \<notin> set (escape_name structural nm)" "CHR '','' \<notin> set (escape_name structural nm)"
  by (rule escape_name_clean; simp add: structural_def)+

lemma field_u64_dec_str [simp]: "field_u64 entry (dec_str (unat w)) fld = Inr w"
proof -
  have "parse_radix 10 (2 ^ 64) (dec_str (unat w)) = Some (unat w)"
    using unat_bounds(4) [of w] by (intro parse_radix_str) simp_all
  then show ?thesis by (simp add: field_u64_def parse_u64_def)
qed

definition move_args :: "u64 \<Rightarrow> bytes \<Rightarrow> u64 \<Rightarrow> bytes \<Rightarrow> nat \<Rightarrow> nat \<Rightarrow> nat \<Rightarrow> string" where
  "move_args sp sn p nm x y z =
     dec_str (unat sp) @ CHR '','' # escape_name structural sn @ CHR '','' # dec_str (unat p) @
       CHR '','' # escape_name structural nm @ CHR '','' # dec_str x @ CHR '','' # dec_str y @
       CHR '','' # dec_str z"

lemma parse_move:
  assumes "int secs \<le> i64_max" and "CHR ''|'' \<notin> set frac"
  shows "parse_record (render_record secs frac ''MOVE'' (move_args sp sn p nm x y z)
           (dec_str (unat inode)) trailer) =
         Inr (Some (Renamed (OJuiceFs inode) (OJuiceFs sp) sn (OJuiceFs p) nm (int secs)))"
proof -
  have fields: "split_on (CHR '','') (move_args sp sn p nm x y z) =
      [dec_str (unat sp), escape_name structural sn, dec_str (unat p), escape_name structural nm,
       dec_str x, dec_str y, dec_str z]"
    by (simp add: move_args_def split_on_append split_on_none)
  have "CHR ''|'' \<notin> set (move_args sp sn p nm x y z)" by (simp add: move_args_def)
  then show ?thesis
    using assms
    by (simp add: parse_record_shape fields parse_operation_def require_fields_def guard_in_def
      try_in_def parse_result_def decode_escaped)
qed

text \<open>
  Reading back a rename: the record the Agent writes for moving a directory entry, with
  both names escaped, is parsed into the rename of that inode from the old parent and name
  to the new parent and name, for all names, inodes, times, flags and trailers.
\<close>

theorem parse_record_move:
  assumes "int secs \<le> i64_max" and "CHR ''|'' \<notin> set frac"
  shows "parse_record (render_record secs frac ''MOVE'' (move_args sp sn p nm x y z)
           (dec_str (unat inode)) trailer) =
         Inr (Some (Renamed (OJuiceFs inode) (OJuiceFs sp) sn (OJuiceFs p) nm (int secs)))"
  by (rule parse_move [OF assms])

theorem parse_record_move_witness:
  "parse_record (render_record 3 ''0'' ''MOVE'' (move_args 1 ''old,name'' 2 ''new%name'' 0 0 0)
     (dec_str (unat (42 :: u64))) ''(1,4)'') =
   Inr (Some (Renamed (OJuiceFs 42) (OJuiceFs 1) ''old,name'' (OJuiceFs 2) ''new%name'' 3))"
  using parse_record_move [of 3 "''0''" 1 "''old,name''" 2 "''new%name''" 0 0 0 42 "''(1,4)''"]
  by (simp add: i64_max_def)

text \<open>
  A closing bracket before the first opening one is not reported as a malformed record: the
  slice between them panics.
\<close>

lemma parse_record_panics: "parse_record ''1|)('' = Inl SlicePanic"
  by (simp add: parse_record_def parse_i64_def parse_radix_def digit_val_def rfind_char_def)

end
