(* ===== verification/Rbh_Predicate.thy ===== *)
theory Rbh_Predicate
  imports Rbh_Model
begin

text \<open>
  Policy predicates (\<open>crates/rbh-predicate\<close>): the expression tree of \<open>lib.rs\<close>, its
  in-memory evaluation \<open>matches\<close> of \<open>eval.rs\<close> and its translation to a parameterised
  \<open>WHERE\<close> fragment, \<open>to_sql\<close> of \<open>sql.rs\<close>. The \<open>regex\<close> crate is the parameter \<open>regex\<close> of
  \<open>matches\<close>: the result of compiling a pattern and searching a name, \<open>None\<close> for a pattern
  that does not compile. The \<open>HashMap\<close> of tags is an association list.
\<close>

section \<open>The tree\<close>

datatype Field =
    Size | Blocks | Uid | Gid | Projid | Mode | Nlink | Mtime | Atime | Ctime | Kind
  | StripeCount | StripeSize | LastSeen | Depth

fun column_name :: "Field \<Rightarrow> string" where
  "column_name Size = ''size''"
| "column_name Blocks = ''blocks''"
| "column_name Uid = ''uid''"
| "column_name Gid = ''gid''"
| "column_name Projid = ''projid''"
| "column_name Mode = ''mode''"
| "column_name Nlink = ''nlink''"
| "column_name Mtime = ''mtime''"
| "column_name Atime = ''atime''"
| "column_name Ctime = ''ctime''"
| "column_name Kind = ''kind''"
| "column_name StripeCount = ''stripe_count''"
| "column_name StripeSize = ''stripe_size''"
| "column_name LastSeen = ''last_seen''"
| "column_name Depth = ''depth''"

datatype CmpOp = OpEq | OpNe | OpGt | OpGe | OpLt | OpLe

fun op_sql :: "CmpOp \<Rightarrow> string" where
  "op_sql OpEq = ''=''"
| "op_sql OpNe = ''!=''"
| "op_sql OpGt = ''>''"
| "op_sql OpGe = ''>=''"
| "op_sql OpLt = ''<''"
| "op_sql OpLe = ''<=''"

datatype Value = Num i64 | Str string

datatype Predicate =
    PAnd "Predicate list"
  | POr "Predicate list"
  | PNot Predicate
  | Cmp Field CmpOp Value
  | NameLike string
  | InameLike string
  | NameRegex string
  | Xattr string CmpOp Value
  | InPool string
  | OnOst "u32 list"
  | HsmStateEq string
  | Tags "(string \<times> string) list"
  | PTrue
  | PFalse

section \<open>Evaluation\<close>

definition clamp_u64 :: "u64 \<Rightarrow> i64" where
  "clamp_u64 v = (if int (unat v) \<le> i64_max then int (unat v) else i64_max)"

fun extract_field :: "Field \<Rightarrow> 'a EntryView_scheme \<Rightarrow> Value" where
  "extract_field Size e = Num (clamp_u64 (e_size e))"
| "extract_field Blocks e = Num (clamp_u64 (e_blocks e))"
| "extract_field Uid e = Num (uint (e_uid e))"
| "extract_field Gid e = Num (uint (e_gid e))"
| "extract_field Projid e = Num (uint (e_projid e))"
| "extract_field Mode e = Num (uint (e_mode e))"
| "extract_field Nlink e = Num (uint (e_nlink e))"
| "extract_field Mtime e = Num (e_mtime e)"
| "extract_field Atime e = Num (e_atime e)"
| "extract_field Ctime e = Num (e_ctime e)"
| "extract_field Kind e = Num (uint (kind_to_u8 (e_kind e)))"
| "extract_field StripeCount e = Num (case e_stripe_count e of Some n \<Rightarrow> uint n | None \<Rightarrow> 0)"
| "extract_field StripeSize e = Num (case e_stripe_size e of Some n \<Rightarrow> uint n | None \<Rightarrow> 0)"
| "extract_field LastSeen e = Num (e_last_seen e)"
| "extract_field Depth e = Num (uint (e_depth e))"

fun cmp_ord :: "'a::linorder \<Rightarrow> CmpOp \<Rightarrow> 'a \<Rightarrow> bool" where
  "cmp_ord a OpEq b = (a = b)"
| "cmp_ord a OpNe b = (a \<noteq> b)"
| "cmp_ord a OpGt b = (a > b)"
| "cmp_ord a OpGe b = (a \<ge> b)"
| "cmp_ord a OpLt b = (a < b)"
| "cmp_ord a OpLe b = (a \<le> b)"

fun compare :: "Value \<Rightarrow> CmpOp \<Rightarrow> Value \<Rightarrow> bool" where
  "compare (Num a) oper (Num b) = cmp_ord a oper b"
| "compare (Str a) oper (Str b) = cmp_ord a oper b"
| "compare _ _ _ = False"

definition MAX_LIKE_PATTERN_LEN :: nat where
  "MAX_LIKE_PATTERN_LEN = 256"

function like_match :: "bytes \<Rightarrow> string \<Rightarrow> bool" where
  "like_match txt pattern =
     (if length pattern > MAX_LIKE_PATTERN_LEN then False
      else (case pattern of
              [] \<Rightarrow> txt = []
            | p # ps \<Rightarrow>
                if p = CHR ''%'' then (\<exists>i \<in> set [0..<Suc (length txt)]. like_match (drop i txt) ps)
                else if p = CHR ''_'' then txt \<noteq> [] \<and> like_match (tl txt) ps
                else txt \<noteq> [] \<and> hd txt = p \<and> like_match (tl txt) ps))"
  by pat_completeness auto
termination
  by (relation "measure (length \<circ> snd)") auto

declare like_match.simps [simp del]

definition xattr_matches :: "json option \<Rightarrow> CmpOp \<Rightarrow> Value \<Rightarrow> bool" where
  "xattr_matches xattr_val cmp value =
     (case (xattr_val, value) of
        (Some (JStr s), Str rhs) \<Rightarrow> compare (Str s) cmp (Str rhs)
      | (Some (JNum n), Num rhs) \<Rightarrow>
          compare (Num (case as_i64 (JNum n) of Some i \<Rightarrow> i | None \<Rightarrow> 0)) cmp (Num rhs)
      | (Some (JFloat f), Num rhs) \<Rightarrow> compare (Num 0) cmp (Num rhs)
      | _ \<Rightarrow> False)"

fun matches ::
  "(string \<Rightarrow> string \<Rightarrow> bool option) \<Rightarrow> Predicate \<Rightarrow> 'a EntryView_scheme \<Rightarrow> bool" where
  "matches regex PTrue e = True"
| "matches regex PFalse e = False"
| "matches regex (PAnd children) e = (\<forall>c \<in> set children. matches regex c e)"
| "matches regex (POr children) e = (\<exists>c \<in> set children. matches regex c e)"
| "matches regex (PNot inner) e = (\<not> matches regex inner e)"
| "matches regex (Cmp field cmp value) e = compare (extract_field field e) cmp value"
| "matches regex (NameLike pattern) e = like_match (e_name e) pattern"
| "matches regex (InameLike pattern) e =
     like_match (to_lowercase (e_name e)) (to_lowercase pattern)"
| "matches regex (NameRegex pattern) e =
     (if \<not> utf8_valid (e_name e) then False
      else (case regex pattern (e_name e) of Some b \<Rightarrow> b | None \<Rightarrow> False))"
| "matches regex (Xattr key cmp value) e =
     xattr_matches (Option.bind (json_get ''xattr'' (e_sm_status e)) (json_get key)) cmp value"
| "matches regex (InPool pool) e = (e_pool_name e = Some pool)"
| "matches regex (HsmStateEq state) e =
     (Option.bind (json_get ''hsm_state'' (e_sm_status e)) as_str = Some state)"
| "matches regex (OnOst osts) e = False"
| "matches regex (Tags match_tags) e =
     (match_tags = [] \<or>
      (\<forall>(k, v) \<in> set match_tags.
         Option.bind (Option.bind (json_get ''xattr'' (e_sm_status e)) (json_get k)) as_str = Some v))"

section \<open>Translation to SQL\<close>

datatype OrderDir = Asc | Desc

fun order_as_sql :: "OrderDir \<Rightarrow> string" where
  "order_as_sql Asc = ''ASC''"
| "order_as_sql Desc = ''DESC''"

datatype SortKey = SortKey Field OrderDir

fun to_sql_fragment :: "SortKey \<Rightarrow> string" where
  "to_sql_fragment (SortKey f d) = column_name f @ '' '' @ order_as_sql d"

definition list_to_sql :: "SortKey list \<Rightarrow> string" where
  "list_to_sql keys = join '', '' (map to_sql_fragment keys)"

datatype SqlParam = PNum i64 | PStr string

fun value_to_param :: "Value \<Rightarrow> SqlParam" where
  "value_to_param (Num n) = PNum n"
| "value_to_param (Str s) = PStr s"

definition xattr_path :: "string \<Rightarrow> string" where
  "xattr_path key = ''$.xattr.'' @ key"

definition tag_part :: "string" where
  "tag_part = ''JSON_UNQUOTE(JSON_EXTRACT(sm_status, ?)) = ?''"

definition tag_params :: "(string \<times> string) list \<Rightarrow> SqlParam list" where
  "tag_params match_tags =
     concat (map (\<lambda>k. [PStr (xattr_path k), PStr (the (map_of match_tags k))])
       (sort (map fst match_tags)))"

fun build :: "Predicate \<Rightarrow> SqlParam list \<Rightarrow> string \<times> SqlParam list"
  and build_all :: "Predicate list \<Rightarrow> SqlParam list \<Rightarrow> string list \<times> SqlParam list" where
  "build PTrue params = (''1=1'', params)"
| "build PFalse params = (''1=0'', params)"
| "build (Cmp field cmp value) params =
     (column_name field @ '' '' @ op_sql cmp @ '' ?'', params @ [value_to_param value])"
| "build (NameLike pattern) params = (''name LIKE ?'', params @ [PStr pattern])"
| "build (InameLike pattern) params = (''LOWER(name) LIKE LOWER(?)'', params @ [PStr pattern])"
| "build (NameRegex pattern) params = (''name REGEXP ?'', params @ [PStr pattern])"
| "build (Xattr key cmp value) params =
     (''JSON_UNQUOTE(JSON_EXTRACT(sm_status, ?)) '' @ op_sql cmp @ '' ?'',
      params @ [PStr (xattr_path key), value_to_param value])"
| "build (InPool pool) params = (''pool_name = ?'', params @ [PStr pool])"
| "build (HsmStateEq state) params =
     (''JSON_UNQUOTE(JSON_EXTRACT(sm_status, '' @ [CHR 0x27] @ ''$.hsm_state'' @ [CHR 0x27] @ '')) = ?'',
      params @ [PStr state])"
| "build (OnOst osts) params =
     (if osts = [] then (''1=0'', params)
      else (''EXISTS (SELECT 1 FROM scoped_stripe_items s '' @
            ''WHERE s.filesystem_id = entries.filesystem_id '' @
            ''AND s.object_kind = entries.object_kind '' @
            ''AND s.object_id = entries.object_id '' @
            ''AND s.ost_index IN ('' @ join '', '' (map (\<lambda>_. ''?'') osts) @ ''))'',
            params @ map (\<lambda>i. PNum (uint i)) osts))"
| "build (PAnd children) params =
     (if children = [] then (''1=1'', params)
      else (case build_all children params of
              (parts, params') \<Rightarrow> (''('' @ join '' AND '' parts @ '')'', params')))"
| "build (POr children) params =
     (if children = [] then (''1=0'', params)
      else (case build_all children params of
              (parts, params') \<Rightarrow> (''('' @ join '' OR '' parts @ '')'', params')))"
| "build (PNot inner) params =
     (case build inner params of (s, params') \<Rightarrow> (''NOT ('' @ s @ '')'', params'))"
| "build (Tags match_tags) params =
     (if match_tags = [] then (''1=1'', params)
      else (let parts = map (\<lambda>_. tag_part) match_tags
            in (if length parts = 1 then hd parts else ''('' @ join '' AND '' parts @ '')'',
                params @ tag_params match_tags)))"
| "build_all [] params = ([], params)"
| "build_all (c # cs) params =
     (case build c params of (s, params1) \<Rightarrow>
      (case build_all cs params1 of (ss, params2) \<Rightarrow> (s # ss, params2)))"

definition to_sql :: "Predicate \<Rightarrow> string \<times> SqlParam list" where
  "to_sql pred = build pred []"

section \<open>Lemmas\<close>

text \<open>What \<open>LIKE\<close> means: \<open>%\<close> stands for any string, \<open>_\<close> for any one byte.\<close>

inductive likes :: "bytes \<Rightarrow> string \<Rightarrow> bool" where
  likes_nil: "likes [] []"
| likes_any: "likes t p \<Longrightarrow> likes (s @ t) (CHR ''%'' # p)"
| likes_one: "likes t p \<Longrightarrow> likes (c # t) (CHR ''_'' # p)"
| likes_char: "likes t p \<Longrightarrow> c \<noteq> CHR ''%'' \<Longrightarrow> c \<noteq> CHR ''_'' \<Longrightarrow> likes (c # t) (c # p)"

inductive_cases likes_nilE: "likes t []"
inductive_cases likes_consE: "likes t (x # p)"

lemma like_match_Nil: "like_match t [] \<longleftrightarrow> t = []"
  by (subst like_match.simps) (simp add: MAX_LIKE_PATTERN_LEN_def)

lemma like_match_Cons:
  assumes "length (p # ps) \<le> MAX_LIKE_PATTERN_LEN"
  shows "like_match t (p # ps) \<longleftrightarrow>
    (if p = CHR ''%'' then (\<exists>i \<in> set [0..<Suc (length t)]. like_match (drop i t) ps)
     else if p = CHR ''_'' then t \<noteq> [] \<and> like_match (tl t) ps
     else t \<noteq> [] \<and> hd t = p \<and> like_match (tl t) ps)"
  using assms by (subst like_match.simps) simp

lemma likes_any_iff: "likes t (CHR ''%'' # p) \<longleftrightarrow> (\<exists>i \<in> set [0..<Suc (length t)]. likes (drop i t) p)"
proof
  assume "likes t (CHR ''%'' # p)"
  then obtain s u where "t = s @ u" "likes u p" by (auto elim: likes_consE)
  then show "\<exists>i \<in> set [0..<Suc (length t)]. likes (drop i t) p"
    by (intro bexI [of _ "length s"]) auto
next
  assume "\<exists>i \<in> set [0..<Suc (length t)]. likes (drop i t) p"
  then obtain i where "likes (drop i t) p" by blast
  from likes_any [OF this, of "take i t"] show "likes t (CHR ''%'' # p)" by simp
qed

lemma likes_step_iff:
  "x \<noteq> CHR ''%'' \<Longrightarrow>
     likes t (x # p) \<longleftrightarrow> t \<noteq> [] \<and> (x = CHR ''_'' \<or> hd t = x) \<and> likes (tl t) p"
  by (cases t) (auto elim: likes_consE intro: likes.intros)

lemma like_match_likes:
  "length p \<le> MAX_LIKE_PATTERN_LEN \<Longrightarrow> like_match t p \<longleftrightarrow> likes t p"
proof (induction p arbitrary: t)
  case Nil
  then show ?case by (auto simp: like_match_Nil intro: likes_nil elim: likes_nilE)
next
  case (Cons x p)
  then have IH: "like_match u p \<longleftrightarrow> likes u p" for u by simp
  show ?case
    unfolding like_match_Cons [OF Cons.prems] IH
    by (cases "x = CHR ''%''") (auto simp: likes_any_iff likes_step_iff)
qed

definition qmarks :: "string \<Rightarrow> nat" where
  "qmarks s = length (filter (\<lambda>c. c = CHR ''?'') s)"

lemma qmarks_append [simp]: "qmarks (a @ b) = qmarks a + qmarks b"
  and qmarks_Nil [simp]: "qmarks [] = 0"
  and qmarks_Cons [simp]: "qmarks (c # s) = (if c = CHR ''?'' then 1 else 0) + qmarks s"
  by (simp_all add: qmarks_def)

lemma qmarks_join: "qmarks sep = 0 \<Longrightarrow> qmarks (join sep ss) = sum_list (map qmarks ss)"
  by (induction sep ss rule: join.induct) auto

lemma qmarks_column [simp]: "qmarks (column_name f) = 0"
  by (cases f) simp_all

lemma qmarks_op [simp]: "qmarks (op_sql oper) = 0"
  by (cases oper) simp_all

lemma length_tag_params: "length (tag_params ts) = 2 * length ts"
  by (simp add: tag_params_def length_concat comp_def sum_list_triv)

lemma build_qmarks:
  "length (snd (build p params)) = length params + qmarks (fst (build p params))"
  "length (snd (build_all ps params)) = length params + sum_list (map qmarks (fst (build_all ps params)))"
proof (induction p params and ps params rule: build_build_all.induct)
  case (11 children params)
  then show ?case by (auto simp: qmarks_join split: prod.splits)
next
  case (12 children params)
  then show ?case by (auto simp: qmarks_join split: prod.splits)
next
  case (14 match_tags params)
  then show ?case
    by (cases match_tags) (auto simp: Let_def tag_part_def length_tag_params qmarks_join comp_def sum_list_triv)
qed (auto simp: qmarks_join comp_def sum_list_triv split: prod.splits)

text \<open>The same predicate with all data that users supply blanked out.\<close>

fun erase :: "Predicate \<Rightarrow> Predicate" where
  "erase (PAnd cs) = PAnd (map erase cs)"
| "erase (POr cs) = POr (map erase cs)"
| "erase (PNot p) = PNot (erase p)"
| "erase (Cmp f c v) = Cmp f c (Num 0)"
| "erase (NameLike s) = NameLike []"
| "erase (InameLike s) = InameLike []"
| "erase (NameRegex s) = NameRegex []"
| "erase (Xattr k c v) = Xattr [] c (Num 0)"
| "erase (InPool s) = InPool []"
| "erase (OnOst os) = OnOst (map (\<lambda>_. 0) os)"
| "erase (HsmStateEq s) = HsmStateEq []"
| "erase (Tags ts) = Tags (map (\<lambda>_. ([], [])) ts)"
| "erase PTrue = PTrue"
| "erase PFalse = PFalse"

lemma build_erase:
  "fst (build (erase p) q1) = fst (build p params)"
  "fst (build_all (map erase ps) q2) = fst (build_all ps params)"
proof (induction p params and ps params arbitrary: q1 and q2 rule: build_build_all.induct)
  case (14 match_tags params)
  then show ?case by (auto simp: Let_def comp_def)
next
  case (16 c cs params)
  show ?case
    using "16.IH"(1) [of q2] "16.IH"(2) [OF prod.collapse, of "snd (build (erase c) q2)"]
    by (simp add: case_prod_beta)
qed (auto simp: case_prod_beta Let_def comp_def)

lemma tags_as_xattrs:
  "matches regex (Tags ts) e \<longleftrightarrow> matches regex (PAnd (map (\<lambda>(k, v). Xattr k OpEq (Str v)) ts)) e"
proof -
  have "xattr_matches x OpEq (Str v) \<longleftrightarrow> Option.bind x as_str = Some v" for x v
    by (cases x; cases "the x") (auto simp: xattr_matches_def)
  then show ?thesis by (auto simp: split_beta)
qed

lemma build_all_xattrs:
  "build_all (map (\<lambda>k. Xattr k OpEq (Str (h k))) ks) params =
     (map (\<lambda>_. tag_part) ks, params @ concat (map (\<lambda>k. [PStr (xattr_path k), PStr (h k)]) ks))"
  by (induction ks arbitrary: params) (simp_all add: tag_part_def)

lemma map_const_sort: "map (\<lambda>_. c) (sort xs) = map (\<lambda>_. c) xs"
  by (simp add: map_replicate_const)

text \<open>The \<open>LIKE\<close> of SQL, in which a backslash makes the next character stand for itself.\<close>

inductive sql_likes :: "bytes \<Rightarrow> string \<Rightarrow> bool" where
  sql_nil: "sql_likes [] []"
| sql_any: "sql_likes t p \<Longrightarrow> sql_likes (s @ t) (CHR ''%'' # p)"
| sql_one: "sql_likes t p \<Longrightarrow> sql_likes (c # t) (CHR ''_'' # p)"
| sql_escape: "sql_likes t p \<Longrightarrow> sql_likes (c # t) (CHR 0x5C # c # p)"
| sql_char: "sql_likes t p \<Longrightarrow> c \<notin> {CHR ''%'', CHR ''_'', CHR 0x5C} \<Longrightarrow> sql_likes (c # t) (c # p)"

lemma likes_sql_likes:
  assumes "CHR 0x5C \<notin> set p"
  shows "likes t p \<longleftrightarrow> sql_likes t p"
proof
  show "sql_likes t p" if "likes t p"
    using that assms by (induction rule: likes.induct) (auto intro: sql_likes.intros)
  show "likes t p" if "sql_likes t p"
    using that assms by (induction rule: sql_likes.induct) (auto intro: likes.intros)
qed

section \<open>Properties\<close>

text \<open>
  C28: the in-memory matcher is total and decides, for patterns of up to 256 bytes, the \<open>LIKE\<close>
  relation in which \<open>%\<close> stands for any text, \<open>_\<close> for one byte and every other byte, the
  backslash included, for itself; longer patterns match nothing. On patterns without a
  backslash this relation is that of SQL. The documented escaping of \<open>%\<close> and \<open>_\<close> is that of
  SQL only: the matcher does not know it.
\<close>

theorem like_match_correct:
  "(like_match t p \<longleftrightarrow> length p \<le> 256 \<and> likes t p) \<and>
   (CHR 0x5C \<notin> set p \<longrightarrow> (likes t p \<longleftrightarrow> sql_likes t p)) \<and>
   sql_likes ''a%'' [CHR ''a'', CHR 0x5C, CHR ''%''] \<and> \<not> like_match ''a%'' [CHR ''a'', CHR 0x5C, CHR ''%'']"
proof (intro conjI impI)
  show "like_match t p \<longleftrightarrow> length p \<le> 256 \<and> likes t p"
  proof (cases "length p \<le> 256")
    case True
    then show ?thesis by (simp add: like_match_likes MAX_LIKE_PATTERN_LEN_def)
  next
    case False
    then show ?thesis by (subst like_match.simps) (simp add: MAX_LIKE_PATTERN_LEN_def)
  qed
  show "likes t p \<longleftrightarrow> sql_likes t p" if "CHR 0x5C \<notin> set p" using that by (rule likes_sql_likes)
  show "sql_likes ''a%'' [CHR ''a'', CHR 0x5C, CHR ''%'']" by (auto intro!: sql_likes.intros)
  show "\<not> like_match ''a%'' [CHR ''a'', CHR 0x5C, CHR ''%'']"
    by (simp add: like_match_Cons MAX_LIKE_PATTERN_LEN_def)
qed

theorem like_match_correct_witness:
  "like_match ''core.12'' ''core.%'' \<and> sql_likes ''core.12'' ''core.%''"
proof -
  have "likes (''12'' @ []) ''%''" by (rule likes_any) (rule likes_nil)
  then have "likes ''core.12'' ''core.%''" by (auto intro!: likes_char)
  with like_match_correct [of "''core.12''" "''core.%''"] show ?thesis by simp
qed

text \<open>
  Every SQL fragment has exactly as many placeholders as parameters, so that the
  positional binding of the caller is complete.
\<close>

theorem to_sql_placeholders: "length (snd (to_sql p)) = qmarks (fst (to_sql p))"
  using build_qmarks(1) [of p "[]"] by (simp add: to_sql_def)

text \<open>
  C29: no user data reaches the SQL text: the text is the same when every pattern, key,
  value, pool, state, tag and OST index is blanked out.
\<close>

theorem to_sql_injection_free: "fst (to_sql p) = fst (to_sql (erase p))"
  unfolding to_sql_def by (rule build_erase(1) [symmetric])

text \<open>
  \<open>Tags\<close> is the shorthand it is documented to be: in memory it is the conjunction of
  the xattr equalities, and for two or more tags its SQL is that of the conjunction in key
  order.
\<close>

theorem tags_shorthand:
  "matches regex (Tags ts) e =
     matches regex (PAnd (map (\<lambda>(k, v). Xattr k OpEq (Str v)) ts)) e \<and>
   (2 \<le> length ts \<longrightarrow>
      to_sql (Tags ts) =
        to_sql (PAnd (map (\<lambda>k. Xattr k OpEq (Str (the (map_of ts k)))) (sort (map fst ts)))))"
proof -
  have "to_sql (Tags ts) =
      to_sql (PAnd (map (\<lambda>k. Xattr k OpEq (Str (the (map_of ts k)))) (sort (map fst ts))))"
    if "2 \<le> length ts"
  proof -
    have "sort (map fst ts) \<noteq> []" using that by (metis length_0_conv length_map length_sort not_numeral_le_zero)
    with that show ?thesis
      by (auto simp: to_sql_def build_all_xattrs Let_def map_const_sort comp_def tag_params_def)
  qed
  with tags_as_xattrs show ?thesis by blast
qed

theorem tags_shorthand_witness:
  "to_sql (Tags [(''user.tier'', ''hot''), (''user.a'', ''1'')]) =
     to_sql (PAnd [Xattr ''user.a'' OpEq (Str ''1''), Xattr ''user.tier'' OpEq (Str ''hot'')])"
proof -
  have "sort (map fst [(''user.tier'', ''hot''), (''user.a'', ''1'')]) = [''user.a'', ''user.tier'']"
    by (simp add: less_char_def)
  with tags_shorthand [of "\<lambda>_ _. None" "[(''user.tier'', ''hot''), (''user.a'', ''1'')]" sample_attrs]
  show ?thesis by (simp add: to_sql_def)
qed

end
