(* ===== verification/Rbh_Trigger.thy ===== *)
theory Rbh_Trigger
  imports Rbh_Model
begin

text \<open>
  Trigger specifications (\<open>crates/rbh-policy/src/model.rs\<close>) and the parser of human-readable
  trigger strings (\<open>trigger_parser.rs\<close>).

  Multiplications of 64-bit values wrap around, as in a release build. Times of day and
  instants are seconds.
\<close>

section \<open>Specifications\<close>

datatype ThresholdTarget = TFs | TOst "u32 list" | TPool string | TUser u32 | TGroup u32

datatype WindowModeSpec = WindowOnce | WindowRepeat u64

datatype TriggerSpec =
    Interval u64
  | Cron string
  | Once i64
  | Immediate
  | Window nat nat WindowModeSpec
  | ThresholdCount (tc_check: u64) (tc_high: u64) (tc_low: u64) (tc_wait: u64) ThresholdTarget
  | ThresholdVolume (tv_check: u64) (tv_high: u64) (tv_low: u64) (tv_wait: u64) ThresholdTarget
  | ThresholdOstPct (to_check: u64) (to_high: u32) (to_low: u32) (to_wait: u64) ThresholdTarget
  | ThresholdFsPct (tf_check: u64) (tf_high: u32) (tf_low: u32) (tf_wait: u64)

datatype TriggerParseError = TEmpty | TUnknown string | BadNumber string | BadCron string

section \<open>Parser\<close>

definition DEFAULT_CHECK_SECS :: u64 where
  "DEFAULT_CHECK_SECS = 300"

definition number_or :: "'e \<Rightarrow> 'a option \<Rightarrow> 'e + 'a" where
  "number_or e r = (case r of None \<Rightarrow> Inl e | Some n \<Rightarrow> Inr n)"

fun strip_suffixes :: "(string \<times> 'a) list \<Rightarrow> string \<Rightarrow> (string \<times> 'a) option" where
  "strip_suffixes [] s = None"
| "strip_suffixes ((p, m) # ps) s =
     (case strip_suffix p s of Some n \<Rightarrow> Some (n, m) | None \<Rightarrow> strip_suffixes ps s)"

definition interval_units :: "(string \<times> u64) list" where
  "interval_units = [(''h'', 3600), (''m'', 60), (''s'', 1)]"

definition try_parse_interval :: "string \<Rightarrow> TriggerParseError + TriggerSpec option" where
  "try_parse_interval s =
     (case strip_suffixes interval_units (to_lowercase s) of
        None \<Rightarrow> Inr None
      | Some (num_str, multiplier) \<Rightarrow>
          map_sum id (\<lambda>n. Some (Interval (n * multiplier)))
            (number_or (BadNumber s) (parse_u64 (trim num_str))))"

definition trim_end_pct :: "string \<Rightarrow> string" where
  "trim_end_pct s = rev (dropWhile (\<lambda>c. c = CHR ''%'') (rev s))"

definition parse_pct :: "string \<Rightarrow> string \<Rightarrow> TriggerParseError + u32" where
  "parse_pct s orig =
     (case parse_u32 (trim (trim_end_pct (trim s))) of
        None \<Rightarrow> Inl (BadNumber orig)
      | Some pct \<Rightarrow>
          if pct = 0 \<or> pct > 100
          then Inl (BadNumber (orig @ '': percentage must be 1..=100, got '' @ dec_str (unat pct)))
          else Inr pct)"

definition size_units :: "(string \<times> nat) list" where
  "size_units = [(''TB'', 2 ^ 40), (''GB'', 2 ^ 30), (''MB'', 2 ^ 20), (''KB'', 2 ^ 10)]"

definition size_split :: "string \<Rightarrow> string \<times> nat" where
  "size_split s =
     (case strip_suffixes size_units s of None \<Rightarrow> (s, 1) | Some r \<Rightarrow> r)"

definition parse_size :: "string \<Rightarrow> string \<Rightarrow> TriggerParseError + u64" where
  "parse_size s orig =
     (let (num_str, mult) = size_split (to_uppercase (trim s))
      in map_sum id (\<lambda>n. n * word_of_nat mult)
           (number_or (BadNumber orig) (parse_u64 (trim num_str))))"

definition try_parse_threshold :: "string \<Rightarrow> TriggerParseError + TriggerSpec option" where
  "try_parse_threshold s =
     (case split_once (CHR ''>'') s of
        None \<Rightarrow> Inr None
      | Some (l, r) \<Rightarrow>
        (let lhs = to_lowercase (trim l); rhs = trim r in
         if lhs = ''fs'' then
           map_sum id (\<lambda>pct. Some (ThresholdFsPct DEFAULT_CHECK_SECS pct 0 0)) (parse_pct rhs s)
         else if lhs = ''ost'' then
           map_sum id (\<lambda>pct. Some (ThresholdOstPct DEFAULT_CHECK_SECS pct 0 0 TFs)) (parse_pct rhs s)
         else if lhs = ''count'' then
           map_sum id (\<lambda>n. Some (ThresholdCount DEFAULT_CHECK_SECS n 0 0 TFs))
             (number_or (BadNumber s) (parse_u64 (trim rhs)))
         else if lhs = ''volume'' then
           map_sum id (\<lambda>n. Some (ThresholdVolume DEFAULT_CHECK_SECS n 0 0 TFs)) (parse_size rhs s)
         else Inr None))"

fun words_acc :: "string \<Rightarrow> string \<Rightarrow> string list" where
  "words_acc acc [] = (if acc = [] then [] else [rev acc])"
| "words_acc acc (c # cs) =
     (if is_ws c then (if acc = [] then words_acc [] cs else rev acc # words_acc [] cs)
      else words_acc (c # acc) cs)"

definition split_whitespace :: "string \<Rightarrow> string list" where
  "split_whitespace s = words_acc [] s"

definition cron_expression :: "string \<Rightarrow> string" where
  "cron_expression expr = (if length (split_whitespace expr) = 5 then ''0 '' @ expr else expr)"

definition parse_trigger :: "string \<Rightarrow> TriggerParseError + TriggerSpec" where
  "parse_trigger str =
     (let s = trim str in
      if s = [] then Inl TEmpty
      else (case try_parse_interval s of
              Inl e \<Rightarrow> Inl e
            | Inr (Some spec) \<Rightarrow> Inr spec
            | Inr None \<Rightarrow>
              (case strip_prefix ''cron:'' s of
                 Some rest \<Rightarrow>
                   (let expr = trim rest in
                    if expr = [] then Inl (BadCron s) else Inr (Cron (cron_expression expr)))
               | None \<Rightarrow>
                 (case try_parse_threshold s of
                    Inl e \<Rightarrow> Inl e
                  | Inr (Some spec) \<Rightarrow> Inr spec
                  | Inr None \<Rightarrow> Inl (TUnknown s)))))"

section \<open>Lemmas\<close>

text \<open>What the parser can produce.\<close>

fun parsed_ok :: "TriggerSpec \<Rightarrow> bool" where
  "parsed_ok (Interval _) = True"
| "parsed_ok (Cron e) = (e \<noteq> [])"
| "parsed_ok (ThresholdCount k h l w t) = (k = 300 \<and> l = 0 \<and> w = 0 \<and> t = TFs)"
| "parsed_ok (ThresholdVolume k h l w t) = (k = 300 \<and> l = 0 \<and> w = 0 \<and> t = TFs)"
| "parsed_ok (ThresholdOstPct k h l w t) =
     (k = 300 \<and> 1 \<le> h \<and> h \<le> 100 \<and> l = 0 \<and> w = 0 \<and> t = TFs)"
| "parsed_ok (ThresholdFsPct k h l w) = (k = 300 \<and> 1 \<le> h \<and> h \<le> 100 \<and> l = 0 \<and> w = 0)"
| "parsed_ok _ = False"

lemma parse_pct_range:
  assumes "parse_pct s orig = Inr p"
  shows "1 \<le> p" "p \<le> 100"
proof -
  from assms have "p \<noteq> 0" and "\<not> p > 100"
    by (auto simp: parse_pct_def split: option.splits if_splits)
  then show "1 \<le> p" "p \<le> 100" by (simp_all add: word_le_nat_alt [of 1] unat_eq_0 Suc_le_eq unat_gt_0)
qed

lemma map_sum_Inr: "map_sum id f r = Inr y \<longleftrightarrow> (\<exists>x. r = Inr x \<and> y = f x)"
  by (cases r) auto

lemma interval_parsed_ok: "try_parse_interval s = Inr (Some spec) \<Longrightarrow> parsed_ok spec"
  by (auto simp: try_parse_interval_def map_sum_Inr split: option.splits)

lemma threshold_parsed_ok: "try_parse_threshold s = Inr (Some spec) \<Longrightarrow> parsed_ok spec"
  by (auto simp: try_parse_threshold_def Let_def map_sum_Inr DEFAULT_CHECK_SECS_def
      split: option.splits if_splits) (erule parse_pct_range)+

lemma parse_trigger_ok: "parse_trigger s = Inr spec \<Longrightarrow> parsed_ok spec"
  by (auto simp: parse_trigger_def Let_def cron_expression_def intro: interval_parsed_ok threshold_parsed_ok
      split: if_splits sum.splits option.splits)


lemma dec_str_trim [simp]: "trim (dec_str n) = dec_str n"
proof (rule trim_id)
  have "\<not> is_ws c" if "c \<in> set (dec_str n)" for c
    using radix_str_chars [OF _ _ that] by (auto simp: is_ws_def of_char_digit_char)
  then show "dec_str n = [] \<or> \<not> is_ws (hd (dec_str n)) \<and> \<not> is_ws (last (dec_str n))"
    by (meson hd_in_set last_in_set radix_str_nonempty)
qed

lemma dec_str_lower [simp]: "to_lowercase (dec_str n) = dec_str n"
  "to_uppercase (dec_str n) = dec_str n"
proof -
  have "lower_char c = c \<and> upper_char c = c" if "c \<in> set (dec_str n)" for c
    using radix_str_chars [OF _ _ that]
    by (auto simp: lower_char_def upper_char_def of_char_digit_char Let_def)
  then show "to_lowercase (dec_str n) = dec_str n" "to_uppercase (dec_str n) = dec_str n"
    by (simp_all add: map_idI)
qed

lemma parse_u64_dec_str [simp]: "parse_u64 (dec_str (unat w)) = Some w"
proof -
  have "parse_radix 10 (2 ^ 64) (dec_str (unat w)) = Some (unat w)"
    using unat_bounds(4) [of w] by (intro parse_radix_str) simp_all
  then show ?thesis by (simp add: parse_u64_def)
qed


lemma strip_suffix_last_neq: "last s \<noteq> c \<Longrightarrow> s \<noteq> [] \<Longrightarrow> strip_suffix [c] s = None"
  by (cases s rule: rev_cases) (auto simp: strip_suffix_def)

lemma trim_ends:
  "s \<noteq> [] \<Longrightarrow> \<not> is_ws (hd s) \<Longrightarrow> \<not> is_ws (last s) \<Longrightarrow> trim s = s"
  by (rule trim_id) simp

lemma digit_not_ws: "c \<in> set (dec_str n) \<Longrightarrow> \<not> is_ws c \<and> c \<notin> {CHR ''h'', CHR ''m'', CHR ''s'', CHR ''%''}"
  using radix_str_chars [of 10 c n] by (auto simp: is_ws_def of_char_digit_char dest: arg_cong [where f = "of_char :: char \<Rightarrow> nat"])

lemma parse_interval:
  assumes "unit = CHR ''h'' \<and> mult = 3600 \<or> unit = CHR ''m'' \<and> mult = 60 \<or> unit = CHR ''s'' \<and> mult = 1"
  shows "parse_trigger (dec_str (unat n) @ [unit]) = Inr (Interval (n * mult))"
proof -
  have unit: "\<not> is_ws unit" "lower_char unit = unit"
    using assms by (auto simp: is_ws_def lower_char_def)
  have ends: "trim (dec_str (unat n) @ [unit]) = dec_str (unat n) @ [unit]"
    using digit_not_ws [of _ "unat n"] unit(1) hd_in_set [of "dec_str (unat n)"] by (intro trim_ends) auto
  have "strip_suffixes interval_units (dec_str (unat n) @ [unit]) = Some (dec_str (unat n), mult)"
    using assms by (auto simp: interval_units_def strip_suffix_def)
  then show ?thesis
    by (simp add: parse_trigger_def ends try_parse_interval_def unit(2) number_or_def Let_def)
qed


lemma trim_space: "trim (CHR '' '' # s) = trim s"
  by (simp add: trim_def is_ws_def)

lemma parse_trigger_threshold:
  "trim s = s \<Longrightarrow> s \<noteq> [] \<Longrightarrow> strip_suffixes interval_units (to_lowercase s) = None \<Longrightarrow>
   strip_prefix ''cron:'' s = None \<Longrightarrow> parse_trigger s =
    (case try_parse_threshold s of
       Inl e \<Rightarrow> Inl e | Inr (Some spec) \<Rightarrow> Inr spec | Inr None \<Rightarrow> Inl (TUnknown s))"
  by (simp add: parse_trigger_def try_parse_interval_def)

text \<open>A trigger of the form \<open>key > value\<close>, where the value ends in a digit, \<open>%\<close> or \<open>B\<close>.\<close>

lemma parse_threshold_form:
  assumes "key \<in> {''fs'', ''ost'', ''count'', ''volume''}"
    and "v \<noteq> []" "\<not> is_ws (last v)" "lower_char (last v) \<notin> {CHR ''h'', CHR ''m'', CHR ''s''}"
  shows "parse_trigger (key @ '' > '' @ v) =
    (case try_parse_threshold (key @ '' > '' @ v) of
       Inl e \<Rightarrow> Inl e | Inr (Some spec) \<Rightarrow> Inr spec | Inr None \<Rightarrow> Inl (TUnknown (key @ '' > '' @ v)))"
proof -
  let ?s = "key @ '' > '' @ v"
  have a: "trim ?s = ?s"
    using assms by (intro trim_ends) (auto simp: is_ws_def)
  have b: "strip_suffixes interval_units (to_lowercase ?s) = None"
    using assms(2,4) unfolding interval_units_def
    by (simp add: strip_suffix_last_neq last_map)
  have c: "strip_prefix ''cron:'' ?s = None" using assms(1) by auto
  have d: "?s \<noteq> []" by simp
  from a d b c show ?thesis by (rule parse_trigger_threshold)
qed

lemma try_threshold_split:
  assumes "key \<in> {''fs'', ''ost'', ''count'', ''volume''}"
  shows "split_once (CHR ''>'') (key @ '' > '' @ v) = Some (key @ '' '', CHR '' '' # v)"
    and "to_lowercase (trim (key @ '' '')) = key"
  using assms by (auto simp: trim_def is_ws_def lower_char_def)

lemma digit_last:
  "\<not> is_ws (last (dec_str n))" "lower_char (last (dec_str n)) \<notin> {CHR ''h'', CHR ''m'', CHR ''s''}"
  "last (dec_str n) \<noteq> CHR ''%''"
proof -
  have "last (dec_str n) \<in> set (dec_str n)" by (simp add: last_in_set)
  note digit = digit_not_ws [OF this]
  have "lower_char (last (dec_str n)) = last (dec_str n)"
    using dec_str_lower(1) [of n] last_map [of "dec_str n" lower_char] by simp
  with digit show "\<not> is_ws (last (dec_str n))"
    "lower_char (last (dec_str n)) \<notin> {CHR ''h'', CHR ''m'', CHR ''s''}" "last (dec_str n) \<noteq> CHR ''%''"
    by simp_all
qed

lemma try_threshold:
  assumes "key \<in> {''fs'', ''ost'', ''count'', ''volume''}"
  shows "try_parse_threshold (key @ '' > '' @ v) =
    (let s = key @ '' > '' @ v in
     if key = ''fs'' then map_sum id (\<lambda>pct. Some (ThresholdFsPct 300 pct 0 0)) (parse_pct (trim v) s)
     else if key = ''ost'' then map_sum id (\<lambda>pct. Some (ThresholdOstPct 300 pct 0 0 TFs)) (parse_pct (trim v) s)
     else if key = ''count'' then map_sum id (\<lambda>n. Some (ThresholdCount 300 n 0 0 TFs))
       (number_or (BadNumber s) (parse_u64 (trim (trim v))))
     else map_sum id (\<lambda>n. Some (ThresholdVolume 300 n 0 0 TFs)) (parse_size (trim v) s))"
  unfolding try_parse_threshold_def try_threshold_split(1) [OF assms] Let_def option.case prod.case
    try_threshold_split(2) [OF assms] trim_space DEFAULT_CHECK_SECS_def
  using assms by auto

lemma parse_count: "parse_trigger (''count'' @ '' > '' @ dec_str (unat n)) = Inr (ThresholdCount 300 n 0 0 TFs)"
  using parse_threshold_form [of "''count''" "dec_str (unat n)"] digit_last [of "unat n"]
    try_threshold [of "''count''" "dec_str (unat n)"]
  by (simp add: number_or_def)

lemma trim_digits_append: "v \<noteq> [] \<Longrightarrow> \<not> is_ws (last v) \<Longrightarrow> trim (dec_str n @ v) = dec_str n @ v"
  using digit_not_ws [of "hd (dec_str n)" n] by (intro trim_ends) auto

lemma parse_pct_dec_str:
  assumes "1 \<le> p" "p \<le> 100"
  shows "parse_pct (dec_str (unat p) @ ''%'') orig = Inr p"
proof -
  have "trim_end_pct (dec_str (unat p) @ ''%'') = dec_str (unat p)"
    using digit_last(3) [of "unat p"] by (cases "dec_str (unat p)" rule: rev_cases) (auto simp: trim_end_pct_def)
  moreover have "parse_radix 10 (2 ^ 32) (dec_str (unat p)) = Some (unat p)"
    using unat_bounds(3) [of p] by (intro parse_radix_str) simp_all
  moreover have "p \<noteq> 0" "\<not> p > 100" using assms by auto
  ultimately show ?thesis
    by (simp add: parse_pct_def parse_u32_def trim_digits_append is_ws_def)
qed

lemma parse_pcts:
  assumes "1 \<le> p" "p \<le> 100"
  shows "parse_trigger (''fs'' @ '' > '' @ dec_str (unat p) @ ''%'') = Inr (ThresholdFsPct 300 p 0 0)"
    and "parse_trigger (''ost'' @ '' > '' @ dec_str (unat p) @ ''%'') = Inr (ThresholdOstPct 300 p 0 0 TFs)"
proof -
  have pct: "trim (dec_str (unat p) @ ''%'') = dec_str (unat p) @ ''%''"
    by (simp add: trim_digits_append is_ws_def)
  have "\<not> is_ws (CHR ''%'')" "lower_char (CHR ''%'') = CHR ''%''"
    by (simp_all add: is_ws_def lower_char_def)
  show "parse_trigger (''fs'' @ '' > '' @ dec_str (unat p) @ ''%'') = Inr (ThresholdFsPct 300 p 0 0)"
    using try_threshold [of "''fs''" "dec_str (unat p) @ ''%''"] parse_pct_dec_str [OF assms]
      parse_threshold_form [of "''fs''" "dec_str (unat p) @ ''%''"]
      \<open>\<not> is_ws (CHR ''%'')\<close> \<open>lower_char (CHR ''%'') = CHR ''%''\<close> by (simp add: pct)
  show "parse_trigger (''ost'' @ '' > '' @ dec_str (unat p) @ ''%'') = Inr (ThresholdOstPct 300 p 0 0 TFs)"
    using try_threshold [of "''ost''" "dec_str (unat p) @ ''%''"] parse_pct_dec_str [OF assms]
      parse_threshold_form [of "''ost''" "dec_str (unat p) @ ''%''"]
      \<open>\<not> is_ws (CHR ''%'')\<close> \<open>lower_char (CHR ''%'') = CHR ''%''\<close> by (simp add: pct)
qed

lemma lower_B: "lower_char (CHR ''B'') = CHR ''b''"
  by code_simp

lemma parse_volume:
  assumes "(u, k) \<in> set size_units"
  shows "parse_trigger (''volume'' @ '' > '' @ dec_str (unat n) @ u) =
    Inr (ThresholdVolume 300 (n * word_of_nat k) 0 0 TFs)"
proof -
  let ?v = "dec_str (unat n) @ u"
  have u: "u \<noteq> []" "\<not> is_ws (last u)" "lower_char (last u) \<notin> {CHR ''h'', CHR ''m'', CHR ''s''}"
    "to_uppercase u = u"
    using assms by (auto simp: size_units_def is_ws_def lower_B upper_char_def)
  have split: "size_split ?v = (dec_str (unat n), k)"
    using assms by (auto simp: size_split_def size_units_def strip_suffix_def)
  have "parse_size ?v orig = Inr (n * word_of_nat k)" for orig
    using u split by (simp add: parse_size_def trim_digits_append number_or_def)
  moreover have "trim ?v = ?v" using u by (simp add: trim_digits_append)
  ultimately show ?thesis
    using try_threshold [of "''volume''" ?v] parse_threshold_form [of "''volume''" ?v] u by simp
qed


section \<open>Properties\<close>

text \<open>
  The trigger strings of the documentation mean what it says, for every number: hours,
  minutes and seconds give the interval in seconds, a count gives the count threshold, a
  volume with each unit the threshold in bytes, and a percentage from 1 to 100 the
  filesystem and the OST thresholds, all checked every 300 seconds.
\<close>

theorem parse_trigger_documented:
  assumes "1 \<le> p" "p \<le> 100"
  shows "parse_trigger (dec_str (unat n) @ ''h'') = Inr (Interval (n * 3600))
    \<and> parse_trigger (dec_str (unat n) @ ''m'') = Inr (Interval (n * 60))
    \<and> parse_trigger (dec_str (unat n) @ ''s'') = Inr (Interval n)
    \<and> parse_trigger (''count'' @ '' > '' @ dec_str (unat n)) = Inr (ThresholdCount 300 n 0 0 TFs)
    \<and> list_all (\<lambda>(u, k). parse_trigger (''volume'' @ '' > '' @ dec_str (unat n) @ u) =
        Inr (ThresholdVolume 300 (n * word_of_nat k) 0 0 TFs)) size_units
    \<and> parse_trigger (''fs'' @ '' > '' @ dec_str (unat p) @ ''%'') = Inr (ThresholdFsPct 300 p 0 0)
    \<and> parse_trigger (''ost'' @ '' > '' @ dec_str (unat p) @ ''%'') = Inr (ThresholdOstPct 300 p 0 0 TFs)"
proof (intro conjI)
  show "list_all (\<lambda>(u, k). parse_trigger (''volume'' @ '' > '' @ dec_str (unat n) @ u) =
        Inr (ThresholdVolume 300 (n * word_of_nat k) 0 0 TFs)) size_units"
    unfolding list_all_iff using parse_volume by blast
qed (use parse_interval [of "CHR ''h''" 3600 n] parse_interval [of "CHR ''m''" 60 n]
    parse_interval [of "CHR ''s''" 1 n] parse_count parse_pcts [OF assms] in simp_all)

theorem parse_trigger_documented_witness:
  "parse_trigger (''fs'' @ '' > '' @ dec_str (unat (85 :: u32)) @ ''%'') = Inr (ThresholdFsPct 300 85 0 0)
   \<and> dec_str (unat (85 :: u32)) = ''85''"
proof
  have "(1 :: u32) \<le> 85" "(85 :: u32) \<le> 100" by (simp_all add: word_le_nat_alt)
  from parse_trigger_documented [OF this]
  show "parse_trigger (''fs'' @ '' > '' @ dec_str (unat (85 :: u32)) @ ''%'') = Inr (ThresholdFsPct 300 85 0 0)"
    by blast
  show "dec_str (unat (85 :: u32)) = ''85''"
    by (simp add: radix_str.simps, code_simp)
qed

text \<open>
  Whatever string is accepted, the specification it gives is an interval, a cron
  expression or a threshold; the percentages of a threshold lie between 1 and 100, and
  every threshold has low watermark 0, no waiting time and the whole filesystem as its
  target, so that the low-watermark monitor of a policy run is never started.
\<close>

theorem parse_trigger_shape:
  assumes "parse_trigger s = Inr spec"
  shows "(case spec of
      Interval _ \<Rightarrow> True | Cron e \<Rightarrow> e \<noteq> [] | Once _ \<Rightarrow> False | Immediate \<Rightarrow> False | Window _ _ _ \<Rightarrow> False
    | ThresholdCount k h l w t \<Rightarrow> k = 300 \<and> l = 0 \<and> w = 0 \<and> t = TFs
    | ThresholdVolume k h l w t \<Rightarrow> k = 300 \<and> l = 0 \<and> w = 0 \<and> t = TFs
    | ThresholdOstPct k h l w t \<Rightarrow> k = 300 \<and> 1 \<le> h \<and> h \<le> 100 \<and> l = 0 \<and> w = 0 \<and> t = TFs
    | ThresholdFsPct k h l w \<Rightarrow> k = 300 \<and> 1 \<le> h \<and> h \<le> 100 \<and> l = 0 \<and> w = 0)"
  using parse_trigger_ok [OF assms] by (cases spec) auto

theorem parse_trigger_shape_witness:
  "parse_trigger ''count > 7'' = Inr (ThresholdCount 300 7 0 0 TFs)
   \<and> tc_low (ThresholdCount 300 7 0 0 TFs) = 0"
proof
  show "parse_trigger ''count > 7'' = Inr (ThresholdCount 300 7 0 0 TFs)"
  proof -
    have "digit_char 7 = CHR ''7''" by code_simp
    with parse_count [of 7] show ?thesis by (simp add: radix_str.simps)
  qed
  from parse_trigger_shape [OF this] show "tc_low (ThresholdCount 300 7 0 0 TFs) = 0" by simp
qed

end
