(* ===== verification/Rbh_Classifier.thy ===== *)
theory Rbh_Classifier
  imports Rbh_Predicate Rbh_Trigger
begin

text \<open>
  Classifiers (\<open>crates/rbh-policy/src/classifier.rs\<close>): definitions and their validation, the
  table of classifiers, the parser of \<open>when\<close> expressions and the evaluation of the rules on
  an entry. The errors of the policy layer are those of \<open>lib.rs\<close>.

  The clock is an argument. Products and differences of 64-bit values wrap around, as in a
  release build. A database that fails for reasons of its own is outside the model.
\<close>

section \<open>Definitions\<close>

record ClassifierRule =
  cr_when :: "string option"
  cr_set :: "(string \<times> string) list"

record ClassifierDef =
  cd_name :: string
  manages :: "string list"
  rules :: "ClassifierRule list"
  schedule :: string
  cd_enabled :: bool

record ClassifierRow =
  cw_id :: u64
  cw_name :: string
  cw_definition :: ClassifierDef
  cw_enabled :: bool
  cw_created_at :: i64
  cw_updated_at :: i64

datatype PolicyError =
    PNotFound u64
  | PNotFoundByName string
  | PDb string
  | PMigration string
  | PJson string
  | PStore string
  | InvalidTrigger string
  | InvalidAction string
  | PScheduler string
  | FilesystemMismatch string string
  | UnsupportedCapability string string string

section \<open>The parser of conditions\<close>

datatype WhenParseError = WEmpty | UnknownField string | UnknownOp string | BadValue string

fun find_sub :: "string \<Rightarrow> string \<Rightarrow> nat option" where
  "find_sub p [] = (if p = [] then Some 0 else None)"
| "find_sub p (c # cs) =
     (if strip_prefix p (c # cs) \<noteq> None then Some 0 else map_option Suc (find_sub p cs))"

fun split_at_ops :: "string list \<Rightarrow> string \<Rightarrow> (string \<times> string \<times> string) option" where
  "split_at_ops [] term = None"
| "split_at_ops (p # ps) term =
     (case find_sub p term of
        Some pos \<Rightarrow> Some (trim (take pos term), p, trim (drop (pos + length p) term))
      | None \<Rightarrow> split_at_ops ps term)"

definition split_term :: "string \<Rightarrow> WhenParseError + string \<times> string \<times> string" where
  "split_term term =
     (case split_at_ops [''>='', ''<='', ''=='', ''!=''] term of
        Some r \<Rightarrow> Inr r
      | None \<Rightarrow>
        (case split_at_ops [''>'', ''<''] term of
           Some r \<Rightarrow> Inr r
         | None \<Rightarrow> Inl (BadValue term)))"

definition time_units :: "(string \<times> int) list" where
  "time_units = [(''d'', 86400), (''h'', 3600), (''m'', 60)]"

definition parse_time_value :: "i64 \<Rightarrow> string \<Rightarrow> string \<Rightarrow> WhenParseError + i64" where
  "parse_time_value now str orig =
     (let s = trim str in
      case strip_prefix ''-'' s of
        Some rel \<Rightarrow>
          (case strip_suffixes time_units (to_lowercase rel) of
             None \<Rightarrow> Inl (BadValue orig)
           | Some (num_str, mult) \<Rightarrow>
               map_sum id (\<lambda>n. wrap_i64 (now - wrap_i64 (n * mult)))
                 (number_or (BadValue orig) (parse_i64 num_str)))
      | None \<Rightarrow> number_or (BadValue orig) (parse_i64 s))"

definition parse_numeric_value :: "string \<Rightarrow> string \<Rightarrow> WhenParseError + i64" where
  "parse_numeric_value s orig =
     (let (num_str, mult) = size_split (to_uppercase (trim s))
      in map_sum id (\<lambda>n. wrap_i64 (n * int mult))
           (number_or (BadValue orig) (parse_i64 (trim num_str))))"

definition when_fields :: "(string \<times> Field \<times> bool) list" where
  "when_fields =
     [(''atime'', Atime, True), (''mtime'', Mtime, True), (''ctime'', Ctime, True),
      (''size'', Size, False), (''uid'', Uid, False), (''gid'', Gid, False),
      (''depth'', Depth, False), (''nlink'', Nlink, False)]"

definition when_ops :: "(string \<times> CmpOp) list" where
  "when_ops =
     [(''>'', OpGt), (''>='', OpGe), (''<'', OpLt), (''<='', OpLe), (''=='', OpEq), (''!='', OpNe)]"

definition parse_term :: "i64 \<Rightarrow> string \<Rightarrow> WhenParseError + Predicate" where
  "parse_term now term =
     (case split_term term of
        Inl e \<Rightarrow> Inl e
      | Inr (field_str, op_str, val_str) \<Rightarrow>
        (case map_of when_fields field_str of
           None \<Rightarrow> Inl (UnknownField field_str)
         | Some (field, is_time_field) \<Rightarrow>
           (case map_of when_ops op_str of
              None \<Rightarrow> Inl (UnknownOp op_str)
            | Some cmp \<Rightarrow>
                map_sum id (\<lambda>n. Cmp field cmp (Num n))
                  (if is_time_field then parse_time_value now val_str term
                   else parse_numeric_value val_str term))))"

fun collect_results :: "('e + 'a) list \<Rightarrow> 'e + 'a list" where
  "collect_results [] = Inr []"
| "collect_results (Inl e # rs) = Inl e"
| "collect_results (Inr a # rs) = map_sum id (Cons a) (collect_results rs)"

definition parse_when :: "i64 \<Rightarrow> string \<Rightarrow> WhenParseError + Predicate" where
  "parse_when now expr =
     (let terms = split_on (CHR '','') expr in
      if terms = [] \<or> trim expr = [] then Inl WEmpty
      else map_sum id (\<lambda>ps. case ps of [p] \<Rightarrow> p | _ \<Rightarrow> PAnd ps)
             (collect_results (map (\<lambda>t. parse_term now (trim t)) terms)))"

section \<open>Evaluation\<close>

definition rule_matches ::
  "(string \<Rightarrow> string \<Rightarrow> bool option) \<Rightarrow> i64 \<Rightarrow> ClassifierRule \<Rightarrow> 'a EntryView_scheme \<Rightarrow> bool" where
  "rule_matches regex now rule entry =
     (case cr_when rule of
        None \<Rightarrow> True
      | Some expr \<Rightarrow>
        (case parse_when now expr of
           Inl _ \<Rightarrow> False
         | Inr pred \<Rightarrow> matches regex pred entry))"

fun evaluate_rules ::
  "(string \<Rightarrow> string \<Rightarrow> bool option) \<Rightarrow> i64 \<Rightarrow> ClassifierRule list \<Rightarrow> 'a EntryView_scheme \<Rightarrow>
   (string \<times> string) list option" where
  "evaluate_rules regex now [] entry = None"
| "evaluate_rules regex now (rule # rs) entry =
     (if rule_matches regex now rule entry then Some (cr_set rule)
      else evaluate_rules regex now rs entry)"

definition evaluate_classifier ::
  "(string \<Rightarrow> string \<Rightarrow> bool option) \<Rightarrow> i64 \<Rightarrow> ClassifierDef \<Rightarrow> 'a EntryView_scheme \<Rightarrow>
   (string \<times> string) list option" where
  "evaluate_classifier regex now def entry = evaluate_rules regex now (rules def) entry"


section \<open>Validation\<close>

fun debug_char :: "char \<Rightarrow> string" where
  "debug_char c =
     (if c = CHR ''\"'' \<or> c = CHR 0x5C then [CHR 0x5C, c]
      else if c = CHR 0x0A then [CHR 0x5C, CHR ''n'']
      else if c = CHR 0x0D then [CHR 0x5C, CHR ''r'']
      else if c = CHR 0x09 then [CHR 0x5C, CHR ''t'']
      else [c])"

definition debug_str :: "string \<Rightarrow> string" where
  "debug_str s = CHR ''\"'' # concat (map debug_char s) @ [CHR ''\"'']"

fun trigger_error_display :: "TriggerParseError \<Rightarrow> string" where
  "trigger_error_display TEmpty = ''empty trigger string''"
| "trigger_error_display (TUnknown s) = ''unknown trigger format: '' @ debug_str s"
| "trigger_error_display (BadNumber s) = ''invalid number in trigger: '' @ s"
| "trigger_error_display (BadCron s) = ''invalid cron expression: '' @ s"

fun when_error_display :: "WhenParseError \<Rightarrow> string" where
  "when_error_display WEmpty = ''empty expression''"
| "when_error_display (UnknownField s) = ''unknown field: '' @ s"
| "when_error_display (UnknownOp s) = ''unknown operator: '' @ s"
| "when_error_display (BadValue s) = ''invalid value in '' @ [CHR 0x27] @ s @ [CHR 0x27]"

fun validate_rules :: "i64 \<Rightarrow> ClassifierRule list \<Rightarrow> PolicyError option" where
  "validate_rules now [] = None"
| "validate_rules now (rule # rs) =
     (case cr_when rule of
        None \<Rightarrow> validate_rules now rs
      | Some expr \<Rightarrow>
        (case parse_when now expr of
           Inl e \<Rightarrow> Some (InvalidTrigger (''invalid when '' @ [CHR 0x27] @ expr @ [CHR 0x27] @ '': '' @
                      when_error_display e))
         | Inr _ \<Rightarrow> validate_rules now rs))"

definition validate_classifier :: "i64 \<Rightarrow> ClassifierDef \<Rightarrow> PolicyError option" where
  "validate_classifier now d =
     (if cd_name d = [] then Some (InvalidTrigger ''classifier name must not be empty'')
      else if manages d = []
      then Some (InvalidTrigger ''classifier must declare at least one managed tag key'')
      else if rules d = [] then Some (InvalidTrigger ''classifier must have at least one rule'')
      else (case parse_trigger (schedule d) of
              Inl e \<Rightarrow> Some (InvalidTrigger (''invalid schedule: '' @ trigger_error_display e))
            | Inr _ \<Rightarrow> validate_rules now (rules d)))"

section \<open>The table of classifiers\<close>

record ClassifierStore =
  cs_next :: u64
  cs_rows :: "ClassifierRow list"

definition duplicate_name :: PolicyError where
  "duplicate_name = PStore ''duplicate entry for key name''"

definition classifier_create ::
  "i64 \<Rightarrow> ClassifierStore \<Rightarrow> ClassifierDef \<Rightarrow> (PolicyError + u64) \<times> ClassifierStore" where
  "classifier_create now t d =
     (case validate_classifier now d of
        Some e \<Rightarrow> (Inl e, t)
      | None \<Rightarrow>
          if cs_next t = - 1 then (Inl (PStore ''auto-increment exhausted''), t)
          else if cd_name d \<in> cw_name ` set (cs_rows t)
          then (Inl duplicate_name, t\<lparr>cs_next := cs_next t + 1\<rparr>)
          else (Inr (cs_next t),
                t\<lparr>cs_rows := cs_rows t @ [\<lparr>cw_id = cs_next t, cw_name = cd_name d, cw_definition = d,
                    cw_enabled = cd_enabled d, cw_created_at = now, cw_updated_at = now\<rparr>],
                  cs_next := cs_next t + 1\<rparr>))"

definition classifier_get :: "ClassifierStore \<Rightarrow> u64 \<Rightarrow> PolicyError + ClassifierRow" where
  "classifier_get t i =
     (case find (\<lambda>r. cw_id r = i) (cs_rows t) of None \<Rightarrow> Inl (PNotFound i) | Some r \<Rightarrow> Inr r)"

definition classifier_list :: "ClassifierStore \<Rightarrow> ClassifierRow list" where
  "classifier_list t = sort_key cw_id (cs_rows t)"

definition classifier_update ::
  "i64 \<Rightarrow> ClassifierStore \<Rightarrow> u64 \<Rightarrow> ClassifierDef \<Rightarrow> PolicyError option \<times> ClassifierStore" where
  "classifier_update now t i d =
     (case validate_classifier now d of
        Some e \<Rightarrow> (Some e, t)
      | None \<Rightarrow>
          if i \<notin> cw_id ` set (cs_rows t) then (Some (PNotFound i), t)
          else if \<exists>r \<in> set (cs_rows t). cw_id r \<noteq> i \<and> cw_name r = cd_name d then (Some duplicate_name, t)
          else (None, t\<lparr>cs_rows := map (\<lambda>r. if cw_id r = i
                  then r\<lparr>cw_name := cd_name d, cw_definition := d, cw_enabled := cd_enabled d,
                         cw_updated_at := now\<rparr>
                  else r) (cs_rows t)\<rparr>))"

definition classifier_delete :: "ClassifierStore \<Rightarrow> u64 \<Rightarrow> PolicyError option \<times> ClassifierStore" where
  "classifier_delete t i =
     (if i \<notin> cw_id ` set (cs_rows t) then (Some (PNotFound i), t)
      else (None, t\<lparr>cs_rows := filter (\<lambda>r. cw_id r \<noteq> i) (cs_rows t)\<rparr>))"

text \<open>Histories of the table, each call at its own time.\<close>

datatype classifier_call =
    CCreate i64 ClassifierDef
  | CUpdate i64 u64 ClassifierDef
  | CDelete u64

fun classifier_step :: "ClassifierStore \<Rightarrow> classifier_call \<Rightarrow> ClassifierStore" where
  "classifier_step t (CCreate now d) = snd (classifier_create now t d)"
| "classifier_step t (CUpdate now i d) = snd (classifier_update now t i d)"
| "classifier_step t (CDelete i) = snd (classifier_delete t i)"

section \<open>Lemmas\<close>

definition is_ok :: "'e + 'a \<Rightarrow> bool" where
  "is_ok r = (case r of Inl _ \<Rightarrow> False | Inr _ \<Rightarrow> True)"

lemma is_ok_simps [simp]: "is_ok (Inl e) = False" "is_ok (Inr a) = True" "is_ok (map_sum id f r) = is_ok r"
  by (simp_all add: is_ok_def split: sum.splits)

lemma time_value_now: "is_ok (parse_time_value now s orig) = is_ok (parse_time_value now' s orig)"
  by (simp add: parse_time_value_def Let_def split: option.splits prod.splits)

lemma parse_term_now: "is_ok (parse_term now t) = is_ok (parse_term now' t)"
  using time_value_now [of now _ t now']
  by (auto simp: parse_term_def split: sum.splits option.splits prod.splits)

lemma collect_ok: "is_ok (collect_results rs) \<longleftrightarrow> (\<forall>r \<in> set rs. is_ok r)"
  by (induction rs rule: collect_results.induct) auto

text \<open>Whether a condition parses does not depend on the time.\<close>

lemma parse_when_now: "is_ok (parse_when now e) = is_ok (parse_when now' e)"
  using parse_term_now [of now _ now'] by (auto simp: parse_when_def Let_def collect_ok)

lemma validate_rules_ok:
  "validate_rules now rs = None \<longleftrightarrow> (\<forall>r \<in> set rs. \<forall>e. cr_when r = Some e \<longrightarrow> is_ok (parse_when now e))"
  by (induction rs) (auto simp: is_ok_def split: option.splits sum.splits)

definition row_ok :: "ClassifierRow \<Rightarrow> bool" where
  "row_ok r \<longleftrightarrow> cw_name r = cd_name (cw_definition r) \<and> cw_enabled r = cd_enabled (cw_definition r) \<and>
     (\<forall>now. validate_classifier now (cw_definition r) = None)"

definition classifiers_ok :: "ClassifierStore \<Rightarrow> bool" where
  "classifiers_ok t \<longleftrightarrow>
     distinct (map cw_id (cs_rows t)) \<and> distinct (map cw_name (cs_rows t)) \<and>
     (\<forall>r \<in> set (cs_rows t). cw_id r < cs_next t \<and> row_ok r)"

lemma validate_now:
  "validate_classifier now d = None \<Longrightarrow> validate_classifier now' d = None"
  using parse_when_now [of now _ now']
  by (auto simp: validate_classifier_def validate_rules_ok split: if_splits sum.splits)

lemma less_next: "(n :: u64) \<noteq> - 1 \<Longrightarrow> n < n + 1"
proof -
  assume "n \<noteq> - 1"
  then have "unat n \<noteq> unat (- 1 :: u64)" by (metis word_unat_eq_iff)
  moreover have "unat (- 1 :: u64) = 2 ^ 64 - 1" by (simp add: unsigned_minus_1_eq_mask mask_eq_exp_minus_1)
  ultimately have "unat n + 1 < 2 ^ 64" using unat_bounds(4) [of n] by simp
  then show "n < n + 1" by (simp add: word_less_nat_alt unat_word_ariths)
qed


lemma ok_create: "classifiers_ok t \<Longrightarrow> classifiers_ok (snd (classifier_create now t d))"
proof (cases "validate_classifier now d = None \<and> cs_next t \<noteq> - 1")
  case True
  assume ok: "classifiers_ok t"
  have nx: "cs_next t < cs_next t + 1" using True less_next by blast
  then have old: "cw_id r < cs_next t + 1 \<and> cw_id r \<noteq> cs_next t \<and> row_ok r" if "r \<in> set (cs_rows t)" for r
    using ok that by (auto simp: classifiers_ok_def intro: less_trans)
  have d: "\<forall>now'. validate_classifier now' d = None" using True validate_now by blast
  from ok old nx d True show ?thesis
    by (auto simp: classifier_create_def classifiers_ok_def row_ok_def)
qed (auto simp: classifier_create_def split: option.splits)

lemma ok_update: "classifiers_ok t \<Longrightarrow> classifiers_ok (snd (classifier_update now t i d))"
proof (cases "fst (classifier_update now t i d)")
  case None
  assume ok: "classifiers_ok t"
  let ?f = "\<lambda>r. if cw_id r = i then r\<lparr>cw_name := cd_name d, cw_definition := d,
    cw_enabled := cd_enabled d, cw_updated_at := now\<rparr> else r"
  from None have v: "validate_classifier now d = None"
    and other: "\<And>r. r \<in> set (cs_rows t) \<Longrightarrow> cw_id r \<noteq> i \<Longrightarrow> cw_name r \<noteq> cd_name d"
    and res: "snd (classifier_update now t i d) = t\<lparr>cs_rows := map ?f (cs_rows t)\<rparr>"
    by (auto simp: classifier_update_def split: option.splits if_splits)
  have eq: "map cw_id (map ?f (cs_rows t)) = map cw_id (cs_rows t)" by simp
  have ids: "distinct (map cw_id (map ?f (cs_rows t)))"
    unfolding eq using ok by (simp add: classifiers_ok_def)
  have "distinct (map cw_name (map ?f (cs_rows t)))"
  proof -
    have inj: "inj_on cw_id (set (cs_rows t))" "distinct (cs_rows t)" and
      names: "inj_on cw_name (set (cs_rows t))"
      using ok by (auto simp: classifiers_ok_def distinct_map)
    have "inj_on (cw_name \<circ> ?f) (set (cs_rows t))"
    proof (rule inj_onI)
      fix x y
      assume "x \<in> set (cs_rows t)" "y \<in> set (cs_rows t)" and eq: "(cw_name \<circ> ?f) x = (cw_name \<circ> ?f) y"
      then show "x = y"
        using other [of x] other [of y] inj_onD [OF inj(1), of x y] inj_onD [OF names, of x y]
        by (auto split: if_splits)
    qed
    with inj(2) show ?thesis by (simp add: distinct_map comp_def)
  qed
  moreover have "\<forall>now'. validate_classifier now' d = None" using v validate_now by blast
  ultimately show ?thesis
    using ok ids unfolding res classifiers_ok_def by (auto simp: row_ok_def simp del: map_map)
qed (auto simp: classifier_update_def split: option.splits if_splits)

lemma ok_delete: "classifiers_ok t \<Longrightarrow> classifiers_ok (snd (classifier_delete t i))"
  by (auto simp: classifier_delete_def classifiers_ok_def distinct_map_filter)

lemma ok_steps: "classifiers_ok t \<Longrightarrow> classifiers_ok (foldl classifier_step t calls)"
proof (induction calls arbitrary: t)
  case (Cons c calls)
  have "classifiers_ok (classifier_step t c)"
    using Cons.prems by (cases c) (simp_all add: ok_create ok_update ok_delete)
  from Cons.IH [OF this] show ?case by simp
qed simp

definition empty_classifiers :: ClassifierStore where
  "empty_classifiers = \<lparr>cs_next = 1, cs_rows = []\<rparr>"

lemma ok_empty: "classifiers_ok empty_classifiers"
  by (simp add: classifiers_ok_def empty_classifiers_def)


text \<open>Conditions in their canonical spelling.\<close>

datatype when_value = VNum nat | VAgo nat string

record when_term =
  wt_field :: string
  wt_op :: string
  wt_value :: when_value

fun print_value :: "when_value \<Rightarrow> string" where
  "print_value (VNum n) = dec_str n"
| "print_value (VAgo n u) = ''-'' @ dec_str n @ u"

definition print_term :: "when_term \<Rightarrow> string" where
  "print_term t = wt_field t @ '' '' @ wt_op t @ '' '' @ print_value (wt_value t)"

definition print_when :: "when_term list \<Rightarrow> string" where
  "print_when ts = join '', '' (map print_term ts)"

fun value_of :: "i64 \<Rightarrow> when_value \<Rightarrow> i64" where
  "value_of now (VNum n) = int n"
| "value_of now (VAgo n u) = now - int n * the (map_of time_units u)"

definition term_ok :: "i64 \<Rightarrow> when_term \<Rightarrow> bool" where
  "term_ok now t \<longleftrightarrow>
     map_of when_fields (wt_field t) \<noteq> None \<and> map_of when_ops (wt_op t) \<noteq> None \<and>
     (case wt_value t of
        VNum n \<Rightarrow> int n \<le> i64_max
      | VAgo n u \<Rightarrow> snd (the (map_of when_fields (wt_field t))) \<and> map_of time_units u \<noteq> None \<and>
          int n * the (map_of time_units u) \<le> i64_max \<and> i64_min \<le> now - int n * the (map_of time_units u) \<and>
          now \<le> i64_max)"

definition term_pred :: "i64 \<Rightarrow> when_term \<Rightarrow> Predicate" where
  "term_pred now t =
     Cmp (fst (the (map_of when_fields (wt_field t)))) (the (map_of when_ops (wt_op t)))
       (Num (value_of now (wt_value t)))"

lemma find_sub_absent: "c \<in> set p \<Longrightarrow> c \<notin> set s \<Longrightarrow> find_sub p s = None"
proof (induction s)
  case (Cons x s)
  have "strip_prefix p (x # s) = None"
  proof (cases "strip_prefix p (x # s)")
    case (Some r)
    then have "x # s = p @ r" by (simp add: strip_prefix_Some)
    then have "set p \<subseteq> set (x # s)" by (metis Un_upper1 set_append)
    with Cons.prems show ?thesis by auto
  qed
  with Cons show ?case by simp
qed auto

lemma find_sub_append:
  assumes "p \<noteq> []" "hd p \<notin> set f"
  shows "find_sub p (f @ p @ v) = Some (length f)"
  using assms(2)
proof (induction f)
  case Nil
  then show ?case using assms(1) by (cases p) (auto simp: strip_prefix_Some)
next
  case (Cons x f)
  have "strip_prefix p ((x # f) @ p @ v) = None"
  proof (cases "strip_prefix p ((x # f) @ p @ v)")
    case (Some r)
    then have "(x # f) @ p @ v = p @ r" by (simp only: strip_prefix_Some)
    then have "hd p = x" using assms(1) by (metis append_Cons hd_append2 list.sel(1))
    with Cons.prems show ?thesis by simp
  qed
  with Cons show ?case by simp
qed

lemma find_sub_skip:
  "p \<noteq> [] \<Longrightarrow> hd p \<notin> set f \<Longrightarrow> find_sub p (f @ s) = map_option ((+) (length f)) (find_sub p s)"
proof (induction f)
  case (Cons x f)
  have "strip_prefix p (x # f @ s) = None" using Cons.prems by (cases p) auto
  with Cons show ?case by (simp add: option.map_comp comp_def)
qed (cases "find_sub p s"; simp)

definition op_chars :: "char set" where
  "op_chars = {CHR ''<'', CHR ''>'', CHR ''='', CHR ''!''}"

lemma split_term_ops:
  assumes "q \<in> set (map fst when_ops)" "set f \<inter> op_chars = {}" "set v \<inter> op_chars = {}"
  shows "split_term (f @ '' '' @ q @ '' '' @ v) = Inr (trim (f @ '' ''), q, trim ('' '' @ v))"
proof -
  let ?f = "f @ '' ''" and ?v = "'' '' @ v"
  have clean: "c \<notin> set ?f" "c \<notin> set ?v" if "c \<in> op_chars" for c
    using assms(2,3) that by (auto simp: op_chars_def)
  have found: "find_sub q (?f @ q @ ?v) = Some (length ?f)"
  proof (rule find_sub_append)
    show "q \<noteq> []" using assms(1) by (auto simp: when_ops_def)
    have "hd q \<in> op_chars" using assms(1) by (auto simp: when_ops_def op_chars_def)
    then show "hd q \<notin> set ?f" by (rule clean(1))
  qed
  have absent: "find_sub p (?f @ q @ ?v) = None" if "c \<in> set p" "c \<in> op_chars" "c \<notin> set q" for p c
    using clean [OF that(2)] that(1,3) by (intro find_sub_absent [of c]) auto
  have eqeq: "find_sub ''=='' (?f @ ''!='' @ ?v) = None"
  proof -
    have f: "CHR ''='' \<notin> set ?f" and v: "CHR ''='' \<notin> set ?v" using clean by (auto simp: op_chars_def)
    have none: "find_sub ''=='' ?v = None"
      by (rule find_sub_absent [of "CHR ''=''"]) (use v in simp_all)
    have skip: "find_sub ''=='' (?f @ s) = map_option ((+) (length ?f)) (find_sub ''=='' s)" for s
      by (rule find_sub_skip) (use f in simp_all)
    show ?thesis unfolding skip using none by simp
  qed
  note ge = absent [of "CHR ''>''" "''>=''"] and le = absent [of "CHR ''<''" "''<=''"]
    and ge' = absent [of "CHR ''=''" "''>=''"] and le' = absent [of "CHR ''=''" "''<=''"]
    and eq' = absent [of "CHR ''=''" "''==''"] and ne' = absent [of "CHR ''=''" "''!=''"]
    and gt = absent [of "CHR ''>''" "''>''"]
  have drop: "take (length ?f) (?f @ q @ ?v) = ?f" "drop (length ?f + length q) (?f @ q @ ?v) = ?v"
    by simp_all
  consider "q = ''>''" | "q = ''>=''" | "q = ''<''" | "q = ''<=''" | "q = ''==''" | "q = ''!=''"
    using assms(1) by (auto simp: when_ops_def)
  then have "split_term (?f @ q @ ?v) = Inr (trim ?f, q, trim ?v)"
  proof cases
    case 1
    with found ge' le' eq' ne' drop show ?thesis by (simp add: split_term_def op_chars_def)
  next
    case 2
    with found drop show ?thesis by (simp add: split_term_def)
  next
    case 3
    with found ge le' eq' ne' gt drop show ?thesis by (simp add: split_term_def op_chars_def)
  next
    case 4
    with found ge drop show ?thesis by (simp add: split_term_def op_chars_def)
  next
    case 5
    with found ge le drop show ?thesis by (simp add: split_term_def op_chars_def)
  next
    case 6
    with found ge le eqeq drop show ?thesis by (simp add: split_term_def op_chars_def)
  qed
  then show ?thesis by simp
qed


lemma when_field_facts:
  assumes "map_of when_fields f \<noteq> None"
  shows "trim f = f" "trim (f @ '' '') = f" "set f \<inter> op_chars = {}" "CHR '','' \<notin> set f" "f \<noteq> []"
    "\<not> is_ws (hd f)"
  using assms by (auto simp: when_fields_def trim_def is_ws_def op_chars_def split: if_splits)

lemma dec_str_op_chars: "set (dec_str n) \<inter> op_chars = {}"
  using not_in_radix_str [of 10 _ n] by (auto simp: op_chars_def)

lemma time_unit_facts:
  assumes "map_of time_units u \<noteq> None"
  shows "set u \<inter> op_chars = {}" "CHR '','' \<notin> set u" "u \<noteq> []" "\<not> is_ws (last u)" "to_lowercase u = u"
  using assms by (auto simp: time_units_def op_chars_def is_ws_def lower_char_def split: if_splits)

lemma print_value_facts:
  assumes "term_ok now t"
  shows "set (print_value (wt_value t)) \<inter> op_chars = {}" "CHR '','' \<notin> set (print_value (wt_value t))"
    "print_value (wt_value t) \<noteq> []" "trim (print_value (wt_value t)) = print_value (wt_value t)"
    "\<not> is_ws (last (print_value (wt_value t)))"
proof -
  have comma: "CHR '','' \<notin> set (dec_str n)" for n by (rule not_in_radix_str) simp_all
  have all: "set (print_value (wt_value t)) \<inter> op_chars = {} \<and> CHR '','' \<notin> set (print_value (wt_value t)) \<and>
    print_value (wt_value t) \<noteq> [] \<and> trim (print_value (wt_value t)) = print_value (wt_value t) \<and>
    \<not> is_ws (last (print_value (wt_value t)))"
  proof (cases "wt_value t")
    case (VNum n)
    then show ?thesis using dec_str_op_chars comma digit_last(1) by simp
  next
    case (VAgo n u)
    with assms have u: "map_of time_units u \<noteq> None" by (auto simp: term_ok_def)
    note uf = time_unit_facts [OF u]
    have "trim (''-'' @ dec_str n @ u) = ''-'' @ dec_str n @ u"
      using uf(3,4) by (intro trim_ends) (auto simp: is_ws_def)
    with VAgo uf dec_str_op_chars [of n] comma show ?thesis by (auto simp: op_chars_def)
  qed
  then show "set (print_value (wt_value t)) \<inter> op_chars = {}" "CHR '','' \<notin> set (print_value (wt_value t))"
    "print_value (wt_value t) \<noteq> []" "trim (print_value (wt_value t)) = print_value (wt_value t)"
    "\<not> is_ws (last (print_value (wt_value t)))" by blast+
qed


lemma strip_suffix_pair:
  "last s \<noteq> b \<Longrightarrow> strip_suffix [a, b] s = None"
  by (cases s rule: rev_cases) (auto simp: strip_suffix_def)

lemma parse_num_value:
  assumes "int n \<le> i64_max"
  shows "parse_numeric_value (dec_str n) orig = Inr (int n)" "parse_time_value now (dec_str n) orig = Inr (int n)"
proof -
  have "last (dec_str n) \<in> set (dec_str n)" by simp
  moreover have "CHR ''B'' \<notin> set (dec_str n)" by (rule not_in_radix_str) simp_all
  ultimately have "last (dec_str n) \<noteq> CHR ''B''" by metis
  then have "size_split (dec_str n) = (dec_str n, 1)"
    by (simp add: size_split_def size_units_def strip_suffix_pair)
  moreover have "wrap_i64 (int n) = int n"
    using assms by (intro wrap_i64_id) (simp_all add: i64_min_def)
  ultimately show "parse_numeric_value (dec_str n) orig = Inr (int n)"
    using parse_i64_dec_str [OF assms] by (simp add: parse_numeric_value_def number_or_def)
  have "strip_prefix ''-'' (dec_str n) = None"
    using dec_str_clean(6) [of n] by (cases "dec_str n") auto
  then show "parse_time_value now (dec_str n) orig = Inr (int n)"
    using parse_i64_dec_str [OF assms] by (simp add: parse_time_value_def number_or_def)
qed

lemma strip_time_unit:
  assumes "map_of time_units u = Some k"
  shows "strip_suffixes time_units (dec_str n @ u) = Some (dec_str n, k)"
  using assms by (auto simp: time_units_def strip_suffix_def split: if_splits)

lemma parse_ago_value:
  assumes "map_of time_units u = Some k" "int n * k \<le> i64_max" "i64_min \<le> now - int n * k" "now \<le> i64_max"
  shows "parse_time_value now (''-'' @ dec_str n @ u) orig = Inr (now - int n * k)"
proof -
  have k: "1 \<le> k" using assms(1) by (auto simp: time_units_def split: if_splits)
  then have nk: "int n \<le> int n * k" by (simp add: mult_le_cancel_left1)
  have u: "map_of time_units u \<noteq> None" using assms(1) by simp
  have "trim (''-'' @ dec_str n @ u) = ''-'' @ dec_str n @ u"
    using time_unit_facts(3,4) [OF u] by (intro trim_ends) (auto simp: is_ws_def)
  moreover have "to_lowercase (dec_str n @ u) = dec_str n @ u"
    using time_unit_facts(5) [OF u] by simp
  moreover have "parse_i64 (dec_str n) = Some (int n)"
    using assms(2) nk by (intro parse_i64_dec_str) simp
  moreover have "wrap_i64 (int n * k) = int n * k"
    using assms(2) k by (intro wrap_i64_id) (simp_all add: i64_min_def order_trans [OF _ nk])
  moreover have "wrap_i64 (now - int n * k) = now - int n * k"
    using assms(3,4) k nk by (intro wrap_i64_id) simp_all
  ultimately show ?thesis
    using strip_time_unit [OF assms(1), of n] by (simp add: parse_time_value_def number_or_def)
qed

lemma parse_term_print:
  assumes "term_ok now t"
  shows "parse_term now (print_term t) = Inr (term_pred now t)"
proof -
  obtain f time where f: "map_of when_fields (wt_field t) = Some (f, time)"
    using assms by (auto simp: term_ok_def)
  obtain q where q: "map_of when_ops (wt_op t) = Some q"
    using assms by (auto simp: term_ok_def)
  have field: "map_of when_fields (wt_field t) \<noteq> None" using f by simp
  have "wt_op t \<in> set (map fst when_ops)" using q by (auto dest: map_of_SomeD intro: rev_image_eqI)
  then have split: "split_term (print_term t) =
      Inr (wt_field t, wt_op t, print_value (wt_value t))"
    using split_term_ops [OF _ when_field_facts(3) [OF field] print_value_facts(1) [OF assms]]
      when_field_facts(2) [OF field] print_value_facts(4) [OF assms]
    by (simp add: print_term_def trim_space)
  show ?thesis
  proof (cases "wt_value t")
    case (VNum n)
    with assms have "int n \<le> i64_max" by (simp add: term_ok_def)
    with VNum show ?thesis
      using parse_num_value [of n]
      by (simp add: parse_term_def split f q term_pred_def)
  next
    case (VAgo n u)
    with assms f obtain k where "time" and "map_of time_units u = Some k"
      and "int n * k \<le> i64_max" "i64_min \<le> now - int n * k" "now \<le> i64_max"
      by (auto simp: term_ok_def)
    with VAgo show ?thesis
      using parse_ago_value [of u k n now]
      by (simp add: parse_term_def split f q term_pred_def)
  qed
qed

lemma split_on_join:
  "ts \<noteq> [] \<Longrightarrow> \<forall>t \<in> set ts. CHR '','' \<notin> set t \<Longrightarrow>
   split_on (CHR '','') (join '', '' ts) = hd ts # map (Cons (CHR '' '')) (tl ts)"
proof (induction ts rule: induct_list012)
  case (3 x y zs)
  then have "split_on (CHR '','') (join '', '' (x # y # zs)) =
      x # split_on (CHR '','') (CHR '' '' # join '', '' (y # zs))"
    by (simp add: split_on_append)
  also have "\<dots> = x # (CHR '' '' # y) # map (Cons (CHR '' '')) zs" using 3 by simp
  finally show ?case by simp
qed (auto simp: split_on_none)

lemma collect_Inr: "collect_results (map (\<lambda>x. Inr (f x)) xs) = Inr (map f xs)"
  by (induction xs) auto

lemma print_term_facts:
  assumes "term_ok now t"
  shows "CHR '','' \<notin> set (print_term t)" "trim (print_term t) = print_term t" "print_term t \<noteq> []"
proof -
  have f: "map_of when_fields (wt_field t) \<noteq> None" and q: "map_of when_ops (wt_op t) \<noteq> None"
    using assms by (auto simp: term_ok_def)
  have "CHR '','' \<notin> set (wt_op t)" using q by (auto simp: when_ops_def split: if_splits)
  then show "CHR '','' \<notin> set (print_term t)"
    using when_field_facts(4) [OF f] print_value_facts(2) [OF assms] by (simp add: print_term_def)
  show "trim (print_term t) = print_term t" "print_term t \<noteq> []"
    using when_field_facts(5,6) [OF f] print_value_facts(3,5) [OF assms]
    by (auto simp: print_term_def intro!: trim_ends)
qed


lemma trim_nonempty: "s \<noteq> [] \<Longrightarrow> \<not> is_ws (hd s) \<Longrightarrow> trim s \<noteq> []"
  by (cases s) (auto simp: trim_def)

lemma print_when_nonempty:
  assumes "ts \<noteq> []" "term_ok now (hd ts)"
  shows "trim (print_when ts) \<noteq> []"
proof -
  obtain t rest where ts: "ts = t # rest" using assms(1) by (cases ts) auto
  with assms have f: "map_of when_fields (wt_field t) \<noteq> None" by (simp add: term_ok_def)
  obtain tail where "print_when ts = wt_field t @ tail"
    unfolding print_when_def print_term_def ts by (cases rest) auto
  with when_field_facts(5,6) [OF f] show ?thesis by (simp add: trim_nonempty)
qed

lemma parse_terms_print:
  assumes "ts \<noteq> []" "\<forall>t \<in> set ts. term_ok now t"
  shows "map (\<lambda>t. parse_term now (trim t)) (split_on (CHR '','') (print_when ts)) =
    map (\<lambda>t. Inr (term_pred now t)) ts"
proof -
  have split: "split_on (CHR '','') (print_when ts) =
      print_term (hd ts) # map (Cons (CHR '' '') \<circ> print_term) (tl ts)"
    unfolding print_when_def using assms print_term_facts(1)
    by (subst split_on_join) (auto simp: hd_map map_tl [symmetric])
  have each: "parse_term now (trim (print_term t)) = Inr (term_pred now t)"
    "parse_term now (trim (CHR '' '' # print_term t)) = Inr (term_pred now t)" if "t \<in> set ts" for t
  proof -
    have ok: "term_ok now t" using assms(2) that by blast
    show "parse_term now (trim (print_term t)) = Inr (term_pred now t)"
      "parse_term now (trim (CHR '' '' # print_term t)) = Inr (term_pred now t)"
      by (simp_all add: trim_space print_term_facts(2) [OF ok] parse_term_print [OF ok])
  qed
  show ?thesis
    unfolding split using assms(1) each by (cases ts) auto
qed

section \<open>Properties\<close>

text \<open>
  C32: A condition in its canonical spelling, a comma-separated list of comparisons of any
  of the eight fields by any of the six operators with a number or, for times, with an
  age in days, hours or minutes, is parsed into exactly the conjunction of these
  comparisons, an age being subtracted from the current time; a single comparison is not
  wrapped.
\<close>

theorem parse_when_print:
  assumes "ts \<noteq> []" "\<forall>t \<in> set ts. term_ok now t"
  shows "parse_when now (print_when ts) =
    Inr (case map (term_pred now) ts of [p] \<Rightarrow> p | ps \<Rightarrow> PAnd ps)"
proof -
  have "trim (print_when ts) \<noteq> []" using assms by (intro print_when_nonempty) auto
  then show ?thesis
    unfolding parse_when_def Let_def parse_terms_print [OF assms] collect_Inr by (simp split: list.splits)
qed

theorem parse_when_print_witness:
  "parse_when 1700000000 (print_when
     [\<lparr>wt_field = ''atime'', wt_op = ''<'', wt_value = VAgo 90 ''d''\<rparr>,
      \<lparr>wt_field = ''size'', wt_op = ''>='', wt_value = VNum 4096\<rparr>]) =
   Inr (PAnd [Cmp Atime OpLt (Num (1700000000 - 90 * 86400)), Cmp Size OpGe (Num 4096)])"
  using parse_when_print [of "[\<lparr>wt_field = ''atime'', wt_op = ''<'', wt_value = VAgo 90 ''d''\<rparr>,
      \<lparr>wt_field = ''size'', wt_op = ''>='', wt_value = VNum 4096\<rparr>]" 1700000000]
  by (simp add: term_ok_def term_pred_def when_fields_def when_ops_def time_units_def i64_max_def i64_min_def ex_bool_eq)

text \<open>
  C31: Whatever sequence of creations, updates and deletions the table of classifiers goes
  through, at whatever times, its identifiers and names stay unique, the columns agree with
  the stored definitions, and every stored definition is valid at every later time: in
  particular all its conditions parse, so that evaluation never falls back to "no match"
  because of a malformed condition.
\<close>

theorem classifier_table_valid:
  "classifiers_ok (foldl classifier_step empty_classifiers calls) \<and>
   list_all (\<lambda>r. list_all (\<lambda>rule. case cr_when rule of None \<Rightarrow> True | Some e \<Rightarrow> is_ok (parse_when now e))
       (rules (cw_definition r)))
     (cs_rows (foldl classifier_step empty_classifiers calls))"
proof
  let ?t = "foldl classifier_step empty_classifiers calls"
  show ok: "classifiers_ok ?t" by (rule ok_steps [OF ok_empty])
  have "is_ok (parse_when now e)"
    if "r \<in> set (cs_rows ?t)" "rule \<in> set (rules (cw_definition r))" "cr_when rule = Some e" for r rule e
  proof -
    have "validate_classifier now (cw_definition r) = None"
      using ok that(1) by (simp add: classifiers_ok_def row_ok_def)
    then have "validate_rules now (rules (cw_definition r)) = None"
      by (auto simp: validate_classifier_def split: if_splits sum.splits)
    with that(2,3) show ?thesis by (simp add: validate_rules_ok)
  qed
  then show "list_all (\<lambda>r. list_all (\<lambda>rule. case cr_when rule of None \<Rightarrow> True
       | Some e \<Rightarrow> is_ok (parse_when now e)) (rules (cw_definition r))) (cs_rows ?t)"
    by (auto simp: list_all_iff split: option.splits)
qed

end
