(* ===== verification/Rbh_Apply.thy ===== *)
theory Rbh_Apply
  imports Rbh_Scan Rbh_Change_Source Rbh_Classifier
begin

text \<open>
  Applying changes to the catalog (\<open>crates/rbh-daemon/src/changelog.rs\<close>): JuiceFS changes,
  Lustre events, HSM states and incremental classification.

  The environment of an operation holds what the kernel, the Lustre library and the clock
  answer while it runs. Functions give the result and the catalog after them; a failure
  keeps what was written before it. The HSM state bits, whose values are in generated
  bindings, are a set of flags.
\<close>

section \<open>Environment and errors\<close>

datatype HsmState = EXISTS | DIRTY | RELEASED | ARCHIVED | NORELEASE | NOARCHIVE | LOST

record ApplyEnv =
  ap_lustre :: LustreEnv
  hsm_state_get :: "path \<Rightarrow> HsmState set option"
  ap_now :: i64
  ap_regex :: "string \<Rightarrow> string \<Rightarrow> bool option"

abbreviation ap_fs :: "ApplyEnv \<Rightarrow> FsEnv" where
  "ap_fs env \<equiv> le_fs (ap_lustre env)"

datatype ApplyError = AStore StoreError | ANamespace NamespaceError | AMsg string

type_synonym 'a applied = "(ApplyError + 'a) \<times> Catalog"

definition lift_store :: "'a result \<Rightarrow> 'a applied" where
  "lift_store r = (case r of (Inl e, c) \<Rightarrow> (Inl (AStore e), c) | (Inr x, c) \<Rightarrow> (Inr x, c))"

text \<open>\<open>store.op().await?; rest\<close>.\<close>

definition and_then :: "'a applied \<Rightarrow> ('a \<Rightarrow> Catalog \<Rightarrow> 'b applied) \<Rightarrow> 'b applied" where
  "and_then r f = (case r of (Inl e, c) \<Rightarrow> (Inl e, c) | (Inr x, c) \<Rightarrow> f x c)"

section \<open>Changes and events\<close>

fun change_object :: "Change \<Rightarrow> ObjectId" where
  "change_object (Created x _ _ _ _ _) = x"
| "change_object (Hardlinked x _ _ _) = x"
| "change_object (Removed x _ _ _ _ _) = x"
| "change_object (Renamed x _ _ _ _ _) = x"
| "change_object (MetadataChanged x _ _) = x"
| "change_object (ContentChanged x _ _ _ _) = x"
| "change_object (BackendC (LustreHsm x _ _ _ _)) = x"
| "change_object (BackendC (LustreLayout x _)) = x"

definition change_backend_label :: "Change list \<Rightarrow> string" where
  "change_backend_label chs =
     (case chs of [] \<Rightarrow> ''unknown'' | ch # _ \<Rightarrow> backend_as_str (object_backend (change_object ch)))"

fun object_inode :: "ObjectId \<Rightarrow> ApplyError + u64" where
  "object_inode (OJuiceFs inode) = Inr inode"
| "object_inode (OLustre _) = Inl (AMsg ''expected JuiceFS inode'')"

fun lustre_fid :: "ObjectId \<Rightarrow> ApplyError + LuFid" where
  "lustre_fid (OLustre f) = Inr f"
| "lustre_fid (OJuiceFs inode) =
     Inl (AMsg (''JuiceFS inode '' @ dec_str (unat inode) @ '' received by Lustre runtime''))"

fun lustre_event :: "Change \<Rightarrow> ApplyError + ChangelogEvent" where
  "lustre_event (Created x p n k m t) =
     try_in (lustre_fid x) (\<lambda>f. try_in (lustre_fid p) (\<lambda>g.
       Inr (if k = Directory then Mkdir f g n None None None
            else if k = Symlink then Softlink f g n
            else Create f g n None None None)))"
| "lustre_event (Hardlinked x p n t) =
     try_in (lustre_fid x) (\<lambda>f. try_in (lustre_fid p) (\<lambda>g. Inr (Hardlink f g n)))"
| "lustre_event (Removed x p n ll d t) =
     try_in (lustre_fid x) (\<lambda>f. try_in (lustre_fid p) (\<lambda>g.
       Inr (if d then Rmdir f g n else Unlink f g n ll False)))"
| "lustre_event (Renamed x sp sn p n t) =
     try_in (lustre_fid x) (\<lambda>f. try_in (lustre_fid p) (\<lambda>g. try_in (lustre_fid sp) (\<lambda>h.
       Inr (Rename f g n h sn))))"
| "lustre_event (MetadataChanged x k t) =
     try_in (lustre_fid x) (\<lambda>f. Inr (case k of MetaAttributes \<Rightarrow> SetAttr f | MetaXattr \<Rightarrow> XAttr f []))"
| "lustre_event (ContentChanged x p n k t) =
     (case k of
        ContentData \<Rightarrow>
          try_in (lustre_fid x) (\<lambda>f.
            try_in (case p of None \<Rightarrow> Inr ZERO | Some q \<Rightarrow> lustre_fid q) (\<lambda>g. Inr (Close f g n)))
      | ContentTruncate \<Rightarrow> try_in (lustre_fid x) (\<lambda>f. Inr (Truncate f)))"
| "lustre_event (BackendC (LustreHsm x ev fl er t)) =
     try_in (lustre_fid x) (\<lambda>f. Inr (Hsm f ev fl er))"
| "lustre_event (BackendC (LustreLayout x t)) = try_in (lustre_fid x) (\<lambda>f. Inr (Layout f))"

section \<open>Lustre events\<close>

definition fid_path :: "ApplyEnv \<Rightarrow> path \<Rightarrow> LuFid \<Rightarrow> path option" where
  "fid_path env mount f = map_option (path_join mount) (fid_to_path (ap_fs env) f)"

definition fid_still_live :: "ApplyEnv \<Rightarrow> LuFid \<Rightarrow> bool" where
  "fid_still_live env f = (fid_to_path (ap_fs env) f \<noteq> None)"

definition stat_entry_by_fid ::
  "ApplyEnv \<Rightarrow> path \<Rightarrow> LuFid \<Rightarrow> LuFid option \<Rightarrow> bytes \<Rightarrow> EntryKind \<Rightarrow> ApplyError + EntryRow" where
  "stat_entry_by_fid env mount f parent_fid nm expected_kind =
     (case fid_path env mount f of
        None \<Rightarrow> Inl (AMsg ''fid_to_path'')
      | Some p \<Rightarrow>
        (case symlink_metadata (ap_fs env) p of
           None \<Rightarrow> Inl (AMsg ''stat'')
         | Some md \<Rightarrow>
           (let (sc, ss, si, pl) = stripe_columns (ap_lustre env) p (md_kind md);
                safe_parent = (case parent_fid of
                                 Some g \<Rightarrow> if is_zero g then None else Some g | None \<Rightarrow> None)
            in Inr \<lparr>e_name = nm, e_kind = md_kind md, e_size = md_size md,
                 e_blocks = md_blocks md, e_uid = md_uid md, e_gid = md_gid md,
                 e_projid = 0, e_mode = md_mode md, e_nlink = ucast (md_nlink md),
                 e_atime = md_atime md, e_mtime = md_mtime md, e_ctime = md_ctime md,
                 e_stripe_count = sc, e_stripe_size = ss, e_stripe_items = si, e_pool_name = pl,
                 e_sm_status = JObj [], e_last_seen = ap_now env, e_depth = 0,
                 er_fid = f, er_parent_fid = safe_parent\<rparr>)))"

definition restat_entry ::
  "ApplyEnv \<Rightarrow> string \<Rightarrow> path \<Rightarrow> LuFid \<Rightarrow> LuFid option \<Rightarrow> bytes \<Rightarrow> Catalog \<Rightarrow> bool applied" where
  "restat_entry env fs mount f parent_fid nm c =
     (case get_lustre_entry c fs f of
        Inl e \<Rightarrow> (Inl (AStore e), c)
      | Inr None \<Rightarrow> (Inr False, c)
      | Inr (Some entry) \<Rightarrow>
        (case Option.bind (fid_path env mount f) (symlink_metadata (ap_fs env)) of
           None \<Rightarrow> (Inr False, c)
         | Some md \<Rightarrow>
           (let entry1 = entry\<lparr>e_size := md_size md, e_blocks := md_blocks md, e_uid := md_uid md,
                  e_gid := md_gid md, e_mode := md_mode md, e_nlink := ucast (md_nlink md),
                  e_atime := md_atime md, e_mtime := md_mtime md, e_ctime := md_ctime md,
                  e_last_seen := ap_now env\<rparr>;
                entry2 = (if nm \<noteq> [] then entry1\<lparr>e_name := nm\<rparr> else entry1);
                entry3 = (case parent_fid of
                            Some p \<Rightarrow> if is_zero p then entry2 else entry2\<lparr>er_parent_fid := Some p\<rparr>
                          | None \<Rightarrow> entry2)
            in and_then (lift_store (upsert_lustre_entry c fs entry3)) (\<lambda>_ c. (Inr True, c)))))"

definition hsm_op :: "u8 \<Rightarrow> string" where
  "hsm_op ev =
     (if ev = 0 then ''archive'' else if ev = 1 then ''restore'' else if ev = 2 then ''cancel''
      else if ev = 3 then ''release'' else if ev = 4 then ''remove'' else if ev = 5 then ''state''
      else ''unknown'')"

definition hsm_event_state :: "u8 \<Rightarrow> string option" where
  "hsm_event_state ev =
     (if ev = 0 \<or> ev = 1 then Some ''archived'' else if ev = 3 then Some ''released''
      else if ev = 4 then Some ''none'' else None)"

definition build_hsm_patch :: "u8 \<Rightarrow> u8 \<Rightarrow> u8 \<Rightarrow> i64 \<Rightarrow> json" where
  "build_hsm_patch ev flags err now =
     (let patch = json_insert ''hsm_last_op'' (JStr (hsm_op ev))
            (json_insert ''hsm_last_event_ts'' (JNum now)
              (json_insert ''hsm_dirty'' (JBool (Bit_Operations.and flags 1 \<noteq> 0)) []))
      in JObj (if err \<noteq> 0 then json_insert ''hsm_last_error'' (JNum (uint err)) patch
               else (case hsm_event_state ev of
                       Some s \<Rightarrow> json_insert ''hsm_state'' (JStr s) patch
                     | None \<Rightarrow> patch)))"

definition apply_hsm_event ::
  "ApplyEnv \<Rightarrow> string \<Rightarrow> LuFid \<Rightarrow> u8 \<Rightarrow> u8 \<Rightarrow> u8 \<Rightarrow> Catalog \<Rightarrow> bool applied" where
  "apply_hsm_event env fs f ev flags err c =
     lift_store (patch_scoped_sm_status c (ap_now env) (EntryKey fs (OLustre f))
       (build_hsm_patch ev flags err (ap_now env)))"

definition live_hsm_state :: "HsmState set \<Rightarrow> string option" where
  "live_hsm_state states =
     (if RELEASED \<in> states then Some ''released''
      else if ARCHIVED \<in> states \<and> DIRTY \<notin> states then Some ''archived''
      else if states = {} then Some ''none''
      else None)"

definition refresh_hsm_state_if_managed ::
  "ApplyEnv \<Rightarrow> string \<Rightarrow> path \<Rightarrow> LuFid \<Rightarrow> Catalog \<Rightarrow> unit applied" where
  "refresh_hsm_state_if_managed env fs mount f c =
     (case get_lustre_entry c fs f of
        Inl e \<Rightarrow> (Inl (AStore e), c)
      | Inr None \<Rightarrow> (Inr (), c)
      | Inr (Some entry) \<Rightarrow>
        (let current = (case Option.bind (json_get ''hsm_state'' (e_sm_status entry)) as_str of
                          Some s \<Rightarrow> s | None \<Rightarrow> [])
         in if current = [] \<or> current = ''none'' then (Inr (), c)
            else (case Option.bind (Option.bind (fid_path env mount f) (hsm_state_get env)) live_hsm_state of
                    None \<Rightarrow> (Inr (), c)
                  | Some new_state \<Rightarrow>
                      if new_state \<noteq> current then
                        and_then (lift_store (patch_scoped_sm_status c (ap_now env) (EntryKey fs (OLustre f))
                            (JObj [(''hsm_state'', JStr new_state)]))) (\<lambda>_ c. (Inr (), c))
                      else (Inr (), c))))"

text \<open>A creation: the new object is stat and stored; one that is gone already is skipped.\<close>

definition apply_creation ::
  "ApplyEnv \<Rightarrow> string \<Rightarrow> path \<Rightarrow> LuFid \<Rightarrow> LuFid \<Rightarrow> bytes \<Rightarrow> EntryKind \<Rightarrow> Catalog \<Rightarrow> bool applied" where
  "apply_creation env fs mount f p n kind c =
     (case stat_entry_by_fid env mount f (Some p) n kind of
        Inl _ \<Rightarrow> (Inr False, c)
      | Inr entry \<Rightarrow>
          and_then (lift_store (upsert_lustre_entry c fs entry)) (\<lambda>_ c. (Inr True, c)))"

definition apply_hardlink ::
  "ApplyEnv \<Rightarrow> string \<Rightarrow> path \<Rightarrow> LuFid \<Rightarrow> LuFid \<Rightarrow> bytes \<Rightarrow> Catalog \<Rightarrow> bool applied" where
  "apply_hardlink env fs mount f p n c =
     (case get_lustre_entry c fs f of
        Inl e \<Rightarrow> (Inl (AStore e), c)
      | Inr (Some entry) \<Rightarrow>
          and_then (lift_store (upsert_lustre_entry c fs
              (entry\<lparr>er_parent_fid := Some p, e_name := n,
                     e_nlink := saturating_add (e_nlink entry) 1, e_last_seen := ap_now env\<rparr>)))
            (\<lambda>_ c. (Inr True, c))
      | Inr None \<Rightarrow> apply_creation env fs mount f p n File c)"

definition apply_unlink ::
  "ApplyEnv \<Rightarrow> string \<Rightarrow> LuFid \<Rightarrow> LuFid \<Rightarrow> bytes \<Rightarrow> bool \<Rightarrow> i64 \<Rightarrow> Catalog \<Rightarrow> bool applied" where
  "apply_unlink env fs f p n ll t c =
     (if ll then
        (if fid_still_live env f then (Inr False, c)
         else and_then (lift_store (remove_lustre_entry c fs f t)) (\<lambda>_ c. (Inr True, c)))
      else
        (let c1 = snd (remove_scoped_namespace_edge c fs (OLustre p) n)
         in case get_lustre_entry c1 fs f of
              Inl e \<Rightarrow> (Inl (AStore e), c1)
            | Inr None \<Rightarrow> (Inr False, c1)
            | Inr (Some entry) \<Rightarrow>
                and_then (lift_store (upsert_lustre_entry c1 fs
                    (entry\<lparr>e_nlink := saturating_sub (e_nlink entry) 1, e_last_seen := ap_now env\<rparr>)))
                  (\<lambda>_ c. (Inr True, c))))"

definition apply_rename ::
  "ApplyEnv \<Rightarrow> string \<Rightarrow> path \<Rightarrow> LuFid \<Rightarrow> LuFid \<Rightarrow> bytes \<Rightarrow> i64 \<Rightarrow> Catalog \<Rightarrow> bool applied" where
  "apply_rename env fs mount f p n t c =
     (case get_lustre_entry c fs f of
        Inl e \<Rightarrow> (Inl (AStore e), c)
      | Inr (Some entry) \<Rightarrow>
          and_then (lift_store (rename_lustre_entry c fs
              (entry\<lparr>er_parent_fid := Some p, e_name := n, e_last_seen := ap_now env\<rparr>) t))
            (\<lambda>_ c. (Inr True, c))
      | Inr None \<Rightarrow>
        (case stat_entry_by_fid env mount f (Some p) n File of
           Inl _ \<Rightarrow> (Inr False, c)
         | Inr entry \<Rightarrow>
             and_then (lift_store (rename_lustre_entry c fs entry t)) (\<lambda>_ c. (Inr True, c))))"

definition apply_truncate ::
  "ApplyEnv \<Rightarrow> string \<Rightarrow> path \<Rightarrow> LuFid \<Rightarrow> Catalog \<Rightarrow> bool applied" where
  "apply_truncate env fs mount f c =
     and_then (restat_entry env fs mount f None [] c) (\<lambda>touched c1.
       (Inr touched,
        if touched then snd (refresh_hsm_state_if_managed env fs mount f c1) else c1))"

fun apply_event ::
  "ApplyEnv \<Rightarrow> string \<Rightarrow> path \<Rightarrow> ChangelogEvent \<Rightarrow> i64 \<Rightarrow> Catalog \<Rightarrow> bool applied" where
  "apply_event env fs mount (Create f p n _ _ _) t c = apply_creation env fs mount f p n File c"
| "apply_event env fs mount (Mkdir f p n _ _ _) t c = apply_creation env fs mount f p n Directory c"
| "apply_event env fs mount (Mknod f p n _ _ _) t c = apply_creation env fs mount f p n File c"
| "apply_event env fs mount (Softlink f p n) t c = apply_creation env fs mount f p n Symlink c"
| "apply_event env fs mount (Hardlink f p n) t c = apply_hardlink env fs mount f p n c"
| "apply_event env fs mount (Unlink f p n ll _) t c = apply_unlink env fs f p n ll t c"
| "apply_event env fs mount (Rmdir f _ _) t c =
     and_then (lift_store (remove_lustre_entry c fs f t)) (\<lambda>_ c. (Inr True, c))"
| "apply_event env fs mount (Rename f p n _ _) t c = apply_rename env fs mount f p n t c"
| "apply_event env fs mount (Close f p n) t c =
     restat_entry env fs mount f (if is_zero p then None else Some p) n c"
| "apply_event env fs mount (Truncate f) t c = apply_truncate env fs mount f c"
| "apply_event env fs mount (SetAttr f) t c = restat_entry env fs mount f None [] c"
| "apply_event env fs mount (MTime f) t c = restat_entry env fs mount f None [] c"
| "apply_event env fs mount (CTime f) t c = restat_entry env fs mount f None [] c"
| "apply_event env fs mount (Hsm f ev fl er) t c = apply_hsm_event env fs f ev fl er c"
| "apply_event env fs mount (XAttr _ _) t c = (Inr False, c)"
| "apply_event env fs mount (Layout _) t c = (Inr False, c)"

fun apply_classifiers ::
  "ApplyEnv \<Rightarrow> ClassifierRow list \<Rightarrow> EntryRow \<Rightarrow> string \<Rightarrow> Catalog \<Rightarrow> unit applied" where
  "apply_classifiers env [] entry fs c = (Inr (), c)"
| "apply_classifiers env (cl # cls) entry fs c =
     (if \<not> cw_enabled cl then apply_classifiers env cls entry fs c
      else (case evaluate_classifier (ap_regex env) (ap_now env) (cw_definition cl) entry of
              None \<Rightarrow> apply_classifiers env cls entry fs c
            | Some tags \<Rightarrow>
                and_then (lift_store (update_scoped_xattr c (EntryKey fs (OLustre (er_fid entry))) tags
                    (manages (cw_definition cl))))
                  (\<lambda>_ c. apply_classifiers env cls entry fs c)))"

section \<open>JuiceFS changes\<close>

text \<open>Resolving an object through a fresh adapter.\<close>

definition resolve_path :: "ApplyEnv \<Rightarrow> string \<Rightarrow> EntryKey \<Rightarrow> Catalog \<Rightarrow> ApplyError + path" where
  "resolve_path env fs key c =
     (case adapter_new c fs of
        Inl e \<Rightarrow> Inl (ANamespace e)
      | Inr a \<Rightarrow>
        (case resolve a (ap_fs env) (TObject key) of
           Inl e \<Rightarrow> Inl (ANamespace e)
         | Inr r \<Rightarrow> Inr (rn_path r)))"

text \<open>
  The row of a created object: the live attributes if its path can be stat, the recorded
  ones otherwise.
\<close>

definition created_row ::
  "string \<Rightarrow> path \<Rightarrow> path \<Rightarrow> Metadata option \<Rightarrow> ObjectId \<Rightarrow> ObjectId \<Rightarrow> bytes \<Rightarrow> EntryKind \<Rightarrow>
   CreatedMetadata option \<Rightarrow> i64 \<Rightarrow> ScopedEntryRow option" where
  "created_row fs mount p live x par n kind meta t =
     map_option (\<lambda>(u, g, mode).
       \<lparr>e_name = n, e_kind = kind,
        e_size = (case live of Some m \<Rightarrow> md_size m | None \<Rightarrow> 0),
        e_blocks = (case live of Some m \<Rightarrow> md_blocks m | None \<Rightarrow> 0),
        e_uid = u, e_gid = g, e_projid = 0, e_mode = mode,
        e_nlink = (case live of Some m \<Rightarrow> ucast (md_nlink m) | None \<Rightarrow> 1),
        e_atime = (case live of Some m \<Rightarrow> md_atime m | None \<Rightarrow> t),
        e_mtime = (case live of Some m \<Rightarrow> md_mtime m | None \<Rightarrow> t),
        e_ctime = (case live of Some m \<Rightarrow> md_ctime m | None \<Rightarrow> t),
        e_stripe_count = None, e_stripe_size = None, e_stripe_items = [], e_pool_name = None,
        e_sm_status = JNull, e_last_seen = t,
        e_depth = (case path_strip_prefix mount p of Some q \<Rightarrow> word_of_nat (length q) | None \<Rightarrow> 0),
        se_key = EntryKey fs x, se_parent = Some (EntryKey fs par)\<rparr>)
       (case live of
          Some m \<Rightarrow> Some (md_uid m, md_gid m, md_mode m)
        | None \<Rightarrow> map_option (\<lambda>r. (cm_uid r, cm_gid r, cm_mode r)) meta)"

definition juice_created ::
  "ApplyEnv \<Rightarrow> string \<Rightarrow> path \<Rightarrow> ObjectId \<Rightarrow> ObjectId \<Rightarrow> bytes \<Rightarrow> EntryKind \<Rightarrow> CreatedMetadata option \<Rightarrow>
   i64 \<Rightarrow> Catalog \<Rightarrow> unit applied" where
  "juice_created env fs mount x par n kind meta t c =
     (case resolve_path env fs (EntryKey fs par) c of
        Inl e \<Rightarrow> (Inl e, c)
      | Inr parent_path \<Rightarrow>
        (let p = path_push parent_path n;
             live = symlink_metadata (ap_fs env) p
         in case (case live of None \<Rightarrow> Inr () | Some m \<Rightarrow>
                    try_in (object_inode x) (\<lambda>inode.
                      if md_ino m \<noteq> inode
                      then Inl (AMsg ''JuiceFS inode changed before CREATE apply'') else Inr ())) of
              Inl e \<Rightarrow> (Inl e, c)
            | Inr _ \<Rightarrow>
              (case created_row fs mount p live x par n kind meta t of
                 None \<Rightarrow> (Inl (AMsg ''CREATE has neither live nor recorded metadata''), c)
               | Some row \<Rightarrow>
                   and_then (lift_store (upsert_scoped_entry c row)) (\<lambda>_ c1.
                     lift_store (upsert_scoped_namespace_edge c1
                       \<lparr>ed_filesystem = fs, ed_parent = par, ed_name = n, ed_object = x\<rparr>)))))"

definition juice_renamed ::
  "string \<Rightarrow> ObjectId \<Rightarrow> ObjectId \<Rightarrow> bytes \<Rightarrow> ObjectId \<Rightarrow> bytes \<Rightarrow> i64 \<Rightarrow> Catalog \<Rightarrow> unit applied" where
  "juice_renamed fs x src sname par n t c =
     (case get_scoped_entry c (EntryKey fs x) of
        Inl e \<Rightarrow> (Inl (AStore e), c)
      | Inr None \<Rightarrow> (Inl (AMsg ''MOVE references an uncataloged inode''), c)
      | Inr (Some entry) \<Rightarrow>
          and_then (lift_store (upsert_scoped_entry c
              (entry\<lparr>se_parent := Some (EntryKey fs par), e_name := n, e_ctime := t,
                     e_last_seen := t\<rparr>))) (\<lambda>_ c1.
            lift_store (upsert_scoped_namespace_edge
              (snd (remove_scoped_namespace_edge c1 fs src sname))
              \<lparr>ed_filesystem = fs, ed_parent = par, ed_name = n, ed_object = x\<rparr>)))"

definition juice_restat ::
  "ApplyEnv \<Rightarrow> string \<Rightarrow> ObjectId \<Rightarrow> i64 \<Rightarrow> Catalog \<Rightarrow> unit applied" where
  "juice_restat env fs x t c =
     (case get_scoped_entry c (EntryKey fs x) of
        Inl e \<Rightarrow> (Inl (AStore e), c)
      | Inr None \<Rightarrow> (Inl (AMsg ''change references an uncataloged inode''), c)
      | Inr (Some entry) \<Rightarrow>
        (case resolve_path env fs (EntryKey fs x) c of
           Inl e \<Rightarrow> (Inl e, c)
         | Inr p \<Rightarrow>
           (case symlink_metadata (ap_fs env) p of
              None \<Rightarrow> (Inl (AMsg ''stat''), c)
            | Some md \<Rightarrow>
              (case object_inode x of
                 Inl e \<Rightarrow> (Inl e, c)
               | Inr inode \<Rightarrow>
                   if md_ino md \<noteq> inode
                   then (Inl (AMsg ''JuiceFS inode changed before metadata apply''), c)
                   else lift_store (upsert_scoped_entry c
                     (entry\<lparr>e_size := md_size md, e_blocks := md_blocks md, e_uid := md_uid md,
                        e_gid := md_gid md, e_mode := md_mode md, e_nlink := ucast (md_nlink md),
                        e_atime := md_atime md, e_mtime := md_mtime md, e_ctime := md_ctime md,
                        e_last_seen := t\<rparr>))))))"

fun apply_juicefs_change ::
  "ApplyEnv \<Rightarrow> string \<Rightarrow> path \<Rightarrow> Change \<Rightarrow> Catalog \<Rightarrow> unit applied" where
  "apply_juicefs_change env fs mount (Created x p n k m t) c = juice_created env fs mount x p n k m t c"
| "apply_juicefs_change env fs mount (Renamed x sp sn p n t) c = juice_renamed fs x sp sn p n t c"
| "apply_juicefs_change env fs mount (Removed x p n ll d t) c =
     lift_store (apply_scoped_unlink c (EntryKey fs x) p n t d)"
| "apply_juicefs_change env fs mount (MetadataChanged x k t) c = juice_restat env fs x t c"
| "apply_juicefs_change env fs mount (ContentChanged x p n k t) c = juice_restat env fs x t c"
| "apply_juicefs_change env fs mount (Hardlinked x p n t) c =
     lift_store (apply_scoped_hardlink c
       \<lparr>ed_filesystem = fs, ed_parent = p, ed_name = n, ed_object = x\<rparr> t)"
| "apply_juicefs_change env fs mount (BackendC b) c =
     (Inl (AMsg ''backend event cannot belong to JuiceFS''), c)"

section \<open>Ingest is a sequence of catalog operations\<close>

text \<open>
  \<open>writes fs c c'\<close>: \<open>c'\<close> comes from \<open>c\<close> by operations of the store on rows of \<open>fs\<close>.
\<close>

inductive writes :: "string \<Rightarrow> Catalog \<Rightarrow> Catalog \<Rightarrow> bool" for fs where
  idle: "writes fs c c"
| operation: "writes fs c c1 \<Longrightarrow> op_scope oper \<subseteq> {fs} \<Longrightarrow> writes fs c (run_op oper c1)"

lemma writes_trans: "writes fs c1 c2 \<Longrightarrow> writes fs c c1 \<Longrightarrow> writes fs c c2"
  by (induction rule: writes.induct) (auto intro: writes.intros)

lemma writes_view: "writes fs c c' \<Longrightarrow> g \<noteq> fs \<Longrightarrow> fs_view g c' = fs_view g c"
  by (induction rule: writes.induct) (auto intro!: trans [OF run_op_view])

lemma writes_ok: "writes fs c c' \<Longrightarrow> catalog_ok c \<Longrightarrow> catalog_ok c'"
  by (induction rule: writes.induct) (auto intro: run_op_ok)

lemma writes_op: "op_scope oper \<subseteq> {fs} \<Longrightarrow> writes fs c (run_op oper c)"
  using operation idle by blast

lemma writes_lift: "writes fs c (snd r) \<Longrightarrow> writes fs c (snd (lift_store r))"
  by (auto simp: lift_store_def split: prod.splits sum.splits)

lemma writes_and_then:
  assumes "writes fs c (snd r)" and "\<And>x c1. r = (Inr x, c1) \<Longrightarrow> writes fs c1 (snd (f x c1))"
  shows "writes fs c (snd (and_then r f))"
  using assms by (auto simp: and_then_def split: prod.splits sum.splits intro: writes_trans)

lemma and_then_state [simp]: "snd (and_then r (\<lambda>x c. (g x, c))) = snd r"
  by (auto simp: and_then_def split: prod.splits sum.splits)

lemma lift_state [simp]: "snd (lift_store r) = snd r"
  by (auto simp: lift_store_def split: prod.splits sum.splits)

lemma writes_store:
  "key_filesystem (se_key e) = fs \<Longrightarrow> writes fs c (snd (upsert_scoped_entry c e))"
  "ed_filesystem edge = fs \<Longrightarrow> writes fs c (snd (upsert_scoped_namespace_edge c edge))"
  "writes fs c (snd (remove_scoped_namespace_edge c fs p n))"
  "writes fs c (snd (upsert_lustre_entry c fs row))"
  "writes fs c (snd (remove_lustre_entry c fs f t))"
  "writes fs c (snd (rename_lustre_entry c fs row t))"
  "key_filesystem k = fs \<Longrightarrow> writes fs c (snd (patch_scoped_sm_status c now k patch))"
  "key_filesystem k = fs \<Longrightarrow> writes fs c (snd (update_scoped_xattr c k tags ks))"
  "key_filesystem k = fs \<Longrightarrow> writes fs c (snd (apply_scoped_unlink c k p n t d))"
  "ed_filesystem edge = fs \<Longrightarrow> writes fs c (snd (apply_scoped_hardlink c edge t))"
  "writes fs c (snd (set_baseline_state c now fs state v r))"
  using writes_op [of "Op_upsert e" fs c] writes_op [of "Op_edge edge" fs c]
    writes_op [of "Op_unedge fs p n" fs c] writes_op [of "Op_lustre_batch fs [row]" fs c]
    writes_op [of "Op_lustre_remove fs f t" fs c] writes_op [of "Op_lustre_rename fs row t" fs c]
    writes_op [of "Op_patch now k patch" fs c] writes_op [of "Op_xattr k tags ks" fs c]
    writes_op [of "Op_unlink k p n t d" fs c] writes_op [of "Op_hardlink edge t" fs c]
    writes_op [of "Op_baseline now fs state v r" fs c]
  by (simp_all add: upsert_lustre_entry_def)

lemmas writes_rules = idle writes_lift writes_and_then writes_store
  writes_trans [OF _ writes_store(3)]

lemma writes_creation: "writes fs c (snd (apply_creation env fs mount f p n k c))"
  by (auto simp: apply_creation_def split: sum.splits intro: writes_rules)

lemma writes_restat: "writes fs c (snd (restat_entry env fs mount f p n c))"
  by (auto simp: restat_entry_def Let_def split: sum.splits option.splits intro: writes_rules)

lemma writes_refresh: "writes fs c (snd (refresh_hsm_state_if_managed env fs mount f c))"
  by (auto simp: refresh_hsm_state_if_managed_def Let_def split: sum.splits option.splits
      intro: writes_rules)

lemma writes_truncate: "writes fs c (snd (apply_truncate env fs mount f c))"
  unfolding apply_truncate_def
  by (rule writes_and_then) (auto intro: writes_restat writes_refresh idle)

lemma writes_event: "writes fs c (snd (apply_event env fs mount ev t c))"
proof (cases ev)
  case (Hardlink f p n)
  then show ?thesis
    by (auto simp: apply_hardlink_def split: sum.splits option.splits
        intro: writes_rules writes_creation)
next
  case (Unlink f p n ll he)
  then show ?thesis
    by (auto simp: apply_unlink_def Let_def split: sum.splits option.splits intro: writes_rules)
next
  case (Rename f p n sp sn)
  then show ?thesis
    by (auto simp: apply_rename_def split: sum.splits option.splits intro: writes_rules)
qed (auto simp: apply_hsm_event_def intro: writes_rules writes_creation writes_restat writes_truncate)

lemma writes_classifiers: "writes fs c (snd (apply_classifiers env cls entry fs c))"
  by (induction cls arbitrary: c) (auto split: option.splits intro!: idle writes_lift writes_and_then writes_store)

lemma writes_juicefs: "writes fs c (snd (apply_juicefs_change env fs mount ch c))"
proof (cases ch)
  case (Created x p n k m t)
  then show ?thesis
    by (auto simp: juice_created_def Let_def created_row_def split: sum.splits option.splits
        intro!: idle writes_lift writes_and_then writes_store)
next
  case (Renamed x sp sn p n t)
  then show ?thesis
    by (auto simp: juice_renamed_def split: sum.splits option.splits
        intro!: writes_and_then writes_lift idle writes_store(1) dest: view_get
        intro: writes_trans [OF writes_store(2) writes_store(3)])
next
  case (MetadataChanged x k t)
  then show ?thesis
    by (auto simp: juice_restat_def split: sum.splits option.splits dest: view_get intro!: idle writes_lift writes_and_then writes_store)
next
  case (ContentChanged x p n k t)
  then show ?thesis
    by (auto simp: juice_restat_def split: sum.splits option.splits dest: view_get intro!: idle writes_lift writes_and_then writes_store)
qed (auto intro: writes_rules)

section \<open>HSM patches\<close>

lemma merge_lookup:
  "distinct (map fst delta) \<Longrightarrow>
   map_of (foldl (\<lambda>m (k, v). json_insert k v m) cur delta) k =
     (case map_of delta k of Some v \<Rightarrow> Some v | None \<Rightarrow> map_of cur k)"
proof (induction delta arbitrary: cur)
  case (Cons d delta)
  then have "k = fst d \<Longrightarrow> map_of delta k = None" by (auto simp: map_of_eq_None_iff)
  with Cons show ?case by (cases d) (auto split: option.splits)
qed simp

lemma sorted_keys_distinct: "sorted_wrt (<) (map fst kvs) \<Longrightarrow> distinct (map fst kvs)"
  for kvs :: "(string \<times> json) list"
  using strict_sorted_iff by blast

lemma patch_distinct:
  assumes "build_hsm_patch ev flags err now = JObj delta" shows "distinct (map fst delta)"
proof -
  have "sorted_wrt (<) (map fst delta)"
    using assms by (auto simp: build_hsm_patch_def Let_def intro!: sorted_json_insert split: option.splits)
  then show ?thesis by (rule sorted_keys_distinct)
qed

definition hsm_fields :: "u8 \<Rightarrow> u8 \<Rightarrow> u8 \<Rightarrow> i64 \<Rightarrow> string \<Rightarrow> json option" where
  "hsm_fields ev flags err now k =
     (if k = ''hsm_state'' then (if err = 0 then map_option JStr (hsm_event_state ev) else None)
      else if k = ''hsm_last_error'' then (if err = 0 then None else Some (JNum (uint err)))
      else if k = ''hsm_last_op'' then Some (JStr (hsm_op ev))
      else if k = ''hsm_last_event_ts'' then Some (JNum now)
      else if k = ''hsm_dirty'' then Some (JBool (bit flags 0))
      else None)"

lemma patch_lookup: "json_get k (build_hsm_patch ev flags err now) = hsm_fields ev flags err now k"
  by (auto simp: build_hsm_patch_def hsm_fields_def Let_def and_one_eq odd_iff_mod_2_eq_one bit_0
      split: option.splits)

section \<open>Properties\<close>

text \<open>
  C19: nothing that the Lustre runtime uses is lost when the listener's events pass through
  the backend-neutral changes: every normalized event is translated back to an event that
  has the same effect on every catalog, with the time and the object of the original.
\<close>

theorem normalized_events_equivalent:
  "\<exists>ev'. lustre_event (normalize_lustre ev t) = Inr ev' \<and> fid ev' = fid ev \<and>
     change_time (normalize_lustre ev t) = t \<and>
     (\<forall>env fs mount c. apply_event env fs mount ev' t c = apply_event env fs mount ev t c)"
  by (cases ev) (auto simp: try_in_def is_zero_iff apply_creation_def stat_entry_by_fid_def)

text \<open>
  An HSM event of a cataloged Lustre object updates exactly the fields it reports: a
  success sets the state that the operation leads to, a failure records the error code
  and keeps the state, and every other status field stays what it was.
\<close>

theorem hsm_event_effect:
  assumes "map_of (filesystems c) fs = Some config" and "fs_backend config = Lustre"
    and "map_of (scoped_entries c) (EntryKey fs (OLustre (er_fid row))) = Some (from_lustre fs row)"
    and "e_sm_status row = JObj kvs"
  shows "\<exists>c' row'. apply_hsm_event env fs (er_fid row) ev flags err c = (Inr True, c') \<and>
    get_lustre_entry c' fs (er_fid row) = Inr (Some row') \<and>
    json_get k (e_sm_status row') =
      (case hsm_fields ev flags err (ap_now env) k of Some v \<Rightarrow> Some v | None \<Rightarrow> map_of kvs k)"
proof -
  obtain delta where d: "build_hsm_patch ev flags err (ap_now env) = JObj delta"
    by (simp add: build_hsm_patch_def Let_def)
  define row' where "row' = row\<lparr>e_sm_status := JObj (foldl (\<lambda>m (k, v). json_insert k v m) kvs delta),
    e_last_seen := ap_now env\<rparr>"
  let ?key = "EntryKey fs (OLustre (er_fid row))"
  have scoped: "(from_lustre fs row)\<lparr>e_sm_status := merge_status (e_sm_status (from_lustre fs row))
      (JObj delta), e_last_seen := ap_now env\<rparr> = from_lustre fs row'"
    using assms(4) by (simp add: from_lustre_def row'_def merge_status_def)
  have "get_scoped_entry c ?key = Inr (Some (from_lustre fs row))"
    using assms(3) by (simp add: get_scoped_entry_def from_lustre_def)
  with upsert_lustre_ok [OF assms(1,2), of row'] scoped d
  have "apply_hsm_event env fs (er_fid row) ev flags err c = (Inr True,
      c\<lparr>scoped_entries := AList.update ?key (from_lustre fs row') (scoped_entries c)\<rparr>)"
    by (simp add: apply_hsm_event_def patch_scoped_sm_status_def lift_store_def row'_def)
  moreover have "get_lustre_entry (c\<lparr>scoped_entries :=
      AList.update ?key (from_lustre fs row') (scoped_entries c)\<rparr>) fs (er_fid row) = Inr (Some row')"
  proof -
    have "se_key (from_lustre fs row') = ?key" by (simp add: from_lustre_def row'_def)
    then show ?thesis
      by (simp add: get_lustre_entry_def get_scoped_entry_def update_conv' compat_from_lustre)
  qed
  moreover have "json_get k (e_sm_status row') =
      (case hsm_fields ev flags err (ap_now env) k of Some v \<Rightarrow> Some v | None \<Rightarrow> map_of kvs k)"
    using merge_lookup [OF patch_distinct [OF d], of kvs k] patch_lookup [of k ev flags err "ap_now env"] d
    by (simp add: row'_def)
  ultimately show ?thesis by blast
qed

definition apply_demo_env :: ApplyEnv where
  "apply_demo_env = \<lparr>ap_lustre = \<lparr>le_fs = demo_env, get_stripe_info = (\<lambda>_. None)\<rparr>,
     hsm_state_get = (\<lambda>_. None), ap_now = 1775955900, ap_regex = (\<lambda>_ _. None)\<rparr>"

definition hsm_demo_catalog :: Catalog where
  "hsm_demo_catalog = demo_catalog\<lparr>scoped_entries :=
     [(EntryKey ''lustre-a'' (OLustre (er_fid sample_attrs)), from_lustre ''lustre-a'' sample_attrs)]\<rparr>"

theorem hsm_event_effect_witness:
  "\<exists>c' row'. apply_hsm_event apply_demo_env ''lustre-a'' (er_fid sample_attrs) 3 0 0 hsm_demo_catalog =
       (Inr True, c') \<and>
     get_lustre_entry c' ''lustre-a'' (er_fid sample_attrs) = Inr (Some row') \<and>
     json_get ''hsm_state'' (e_sm_status row') = Some (JStr ''released'')"
proof -
  have "e_sm_status sample_attrs = JObj []" by (simp add: sample_attrs_def)
  moreover have "hsm_fields 3 0 0 now ''hsm_state'' = Some (JStr ''released'')" for now
    by (simp add: hsm_fields_def hsm_event_state_def)
  ultimately show ?thesis
    using hsm_event_effect [of hsm_demo_catalog "''lustre-a''" _ sample_attrs "[]" apply_demo_env 3 0 0
        "''hsm_state''"]
    by (simp add: hsm_demo_catalog_def demo_catalog_def)
qed

end
