(* ===== verification/Rbh_Ingest.thy ===== *)
theory Rbh_Ingest
  imports Rbh_Apply
begin

text \<open>
  The ingest loop (\<open>ingest_loop\<close> of \<open>crates/rbh-daemon/src/changelog.rs\<close>) over any change
  source.

  A turn of the loop is one call of \<open>receive\<close> and what follows it. The input of a turn says
  what \<open>receive\<close> meets (the source answers, the quiet period passes, the loop is
  cancelled), what the environment answers while the changes are applied, and whether the
  commit succeeds. \<open>Elsewhere\<close> is an operation of another task on the shared catalog
  between two turns. Counters that are only logged keep their values as natural numbers.
\<close>

section \<open>Verification of a baseline\<close>

fun mounted_edges :: "string \<Rightarrow> PosixWalkEvent list \<Rightarrow> string + ScopedNamespaceEdge list" where
  "mounted_edges fs [] = Inr []"
| "mounted_edges fs (WEntry entry # evs) =
     (case adapt fs entry 0 of
        Inl e \<Rightarrow> Inl e
      | Inr (row, edge) \<Rightarrow>
          map_sum id (\<lambda>es. case edge of Some x \<Rightarrow> x # es | None \<Rightarrow> es) (mounted_edges fs evs))"
| "mounted_edges fs (WError p # evs) = Inl ''namespace verification failed''"

definition verify_juicefs_namespace ::
  "Catalog \<Rightarrow> string \<Rightarrow> PosixWalkEvent list \<Rightarrow> string + unit" where
  "verify_juicefs_namespace c fs evs =
     (case mounted_edges fs evs of
        Inl e \<Rightarrow> Inl e
      | Inr mounted \<Rightarrow>
        (case compare_namespace mounted (list_scoped_namespace_edges c fs) of
           Inl d \<Rightarrow> Inl (''namespace mismatch: '' @ dec_str (missing_from_catalog d) @
                        '' missing from catalog, '' @ dec_str (missing_from_mount d) @
                        '' missing from mount'')
         | Inr _ \<Rightarrow> Inr ()))"

section \<open>A batch\<close>

record BatchResult =
  br_applied :: nat
  br_skipped :: nat
  br_errors :: nat

definition no_result :: BatchResult where
  "no_result = \<lparr>br_applied = 0, br_skipped = 0, br_errors = 0\<rparr>"

definition classify_entry ::
  "ApplyEnv \<Rightarrow> ClassifierRow list \<Rightarrow> string \<Rightarrow> LuFid \<Rightarrow> Catalog \<Rightarrow> unit applied" where
  "classify_entry env cls fs f c =
     (if cls = [] then (Inr (), c)
      else (case get_lustre_entry c fs f of
              Inl e \<Rightarrow> (Inl (AStore e), c)
            | Inr None \<Rightarrow> (Inr (), c)
            | Inr (Some row) \<Rightarrow> apply_classifiers env cls row fs c))"

text \<open>
  The changes of a batch in order, numbered from \<open>k\<close>. A JuiceFS change that fails, a change
  of the wrong backend and a failed classification end the batch; a Lustre event that
  fails does not.
\<close>

fun apply_changes ::
  "(nat \<Rightarrow> ApplyEnv) \<Rightarrow> (nat \<Rightarrow> ClassifierRow list) \<Rightarrow> string \<Rightarrow> path \<Rightarrow> nat \<Rightarrow> Change list \<Rightarrow>
   BatchResult \<Rightarrow> Catalog \<Rightarrow> BatchResult \<times> Catalog" where
  "apply_changes envs cls fs mount k [] r c = (r, c)"
| "apply_changes envs cls fs mount k (ch # chs) r c =
     (if object_backend (change_object ch) = JuiceFs then
        (case apply_juicefs_change (envs k) fs mount ch c of
           (Inl _, c1) \<Rightarrow> (r\<lparr>br_errors := br_errors r + 1\<rparr>, c1)
         | (Inr _, c1) \<Rightarrow>
             apply_changes envs cls fs mount (k + 1) chs (r\<lparr>br_applied := br_applied r + 1\<rparr>) c1)
      else (case lustre_event ch of
              Inl _ \<Rightarrow> (r\<lparr>br_errors := br_errors r + 1\<rparr>, c)
            | Inr ev \<Rightarrow>
              (case apply_event (envs k) fs mount ev (change_time ch) c of
                 (Inl _, c1) \<Rightarrow>
                   apply_changes envs cls fs mount (k + 1) chs (r\<lparr>br_errors := br_errors r + 1\<rparr>) c1
               | (Inr False, c1) \<Rightarrow>
                   apply_changes envs cls fs mount (k + 1) chs (r\<lparr>br_skipped := br_skipped r + 1\<rparr>) c1
               | (Inr True, c1) \<Rightarrow>
                   (let r1 = r\<lparr>br_applied := br_applied r + 1\<rparr>
                    in case classify_entry (envs k) (cls k) fs (fid ev) c1 of
                         (Inl _, c2) \<Rightarrow> (r1\<lparr>br_errors := br_errors r + 1\<rparr>, c2)
                       | (Inr _, c2) \<Rightarrow> apply_changes envs cls fs mount (k + 1) chs r1 c2))))"

section \<open>The loop\<close>

datatype IngestExit = Stopped | ExitRetentionGap string | BaselineInvalid string

record 's Ingest =
  ig_source :: 's
  ig_catalog :: Catalog
  ig_catching_up :: bool
  ig_last_committed :: "u64 option"
  ig_verified_quiescent :: bool
  ig_exit :: "IngestExit option"

datatype ('i, 'a) Turn =
    Ask 'i "nat \<Rightarrow> ApplyEnv" "nat \<Rightarrow> ClassifierRow list" 'a
  | Quiet "PosixWalkEvent list" i64
  | Cancel
  | Elsewhere store_op

text \<open>What a turn does, for the statements about histories.\<close>

datatype outcome =
    OIdle
  | OCommitted ChangeBatch BatchResult
  | OUncommitted ChangeBatch
  | OFailed ChangeBatch
  | OMisrouted ChangeBatch
  | OVerified
  | OReady
  | OExit

definition ingest_start :: "'s \<Rightarrow> Catalog \<Rightarrow> string \<Rightarrow> 's Ingest" where
  "ingest_start s c fs =
     \<lparr>ig_source = s, ig_catalog = c,
      ig_catching_up = (case get_baseline c fs of Some b \<Rightarrow> bl_state b = CatchingUp | None \<Rightarrow> False),
      ig_last_committed = None, ig_verified_quiescent = False, ig_exit = None\<rparr>"

definition ingest_batch ::
  "('s \<Rightarrow> 'a \<Rightarrow> Checkpoint \<Rightarrow> ChangeSourceError option \<times> 's) \<Rightarrow> string \<Rightarrow> path \<Rightarrow> ChangeBatch \<Rightarrow>
   (nat \<Rightarrow> ApplyEnv) \<Rightarrow> (nat \<Rightarrow> ClassifierRow list) \<Rightarrow> 'a \<Rightarrow> 's Ingest \<Rightarrow> outcome \<times> 's Ingest" where
  "ingest_batch cmt fs mount batch envs cls a st =
     (if cb_filesystem batch \<noteq> fs then (OMisrouted batch, st\<lparr>ig_exit := Some Stopped\<rparr>)
      else
        (let (r, c1) = apply_changes envs cls fs mount 0 (changes batch) no_result (ig_catalog st);
             st1 = st\<lparr>ig_catalog := c1\<rparr>
         in if br_errors r > 0 then (OFailed batch, st1\<lparr>ig_exit := Some Stopped\<rparr>)
            else (case cmt (ig_source st1) a (checkpoint batch) of
                    (Some _, s2) \<Rightarrow>
                      (OUncommitted batch, st1\<lparr>ig_source := s2, ig_exit := Some Stopped\<rparr>)
                  | (None, s2) \<Rightarrow>
                      (OCommitted batch r,
                       st1\<lparr>ig_source := s2,
                           ig_last_committed := Some (cp_position (checkpoint batch))\<rparr>))))"

definition ingest_quiet :: "string \<Rightarrow> PosixWalkEvent list \<Rightarrow> i64 \<Rightarrow> 's Ingest \<Rightarrow> outcome \<times> 's Ingest" where
  "ingest_quiet fs evs now st =
     (if \<not> ig_catching_up st then (OIdle, st)
      else if \<not> ig_verified_quiescent st then
        (case verify_juicefs_namespace (ig_catalog st) fs evs of
           Inl reason \<Rightarrow>
             (OExit, st\<lparr>ig_catalog := snd (set_baseline_state (ig_catalog st) now fs Invalid
                          (ig_last_committed st) (Some reason)),
                        ig_exit := Some (BaselineInvalid reason)\<rparr>)
         | Inr _ \<Rightarrow> (OVerified, st\<lparr>ig_verified_quiescent := True\<rparr>))
      else
        (case set_baseline_state (ig_catalog st) now fs Ready (ig_last_committed st) None of
           (Inl _, c1) \<Rightarrow> (OExit, st\<lparr>ig_catalog := c1, ig_exit := Some Stopped\<rparr>)
         | (Inr _, c1) \<Rightarrow> (OReady, st\<lparr>ig_catalog := c1, ig_catching_up := False\<rparr>)))"

fun ingest_turn ::
  "('s \<Rightarrow> 'i \<Rightarrow> (ChangeSourceError + ChangeBatch option) option \<times> 's) \<Rightarrow>
   ('s \<Rightarrow> 'a \<Rightarrow> Checkpoint \<Rightarrow> ChangeSourceError option \<times> 's) \<Rightarrow> string \<Rightarrow> path \<Rightarrow>
   ('i, 'a) Turn \<Rightarrow> 's Ingest \<Rightarrow> outcome \<times> 's Ingest" where
  "ingest_turn nxt cmt fs mount (Elsewhere oper) st =
     (OIdle, st\<lparr>ig_catalog := run_op oper (ig_catalog st)\<rparr>)"
| "ingest_turn nxt cmt fs mount Cancel st =
     (if ig_exit st \<noteq> None then (OIdle, st) else (OExit, st\<lparr>ig_exit := Some Stopped\<rparr>))"
| "ingest_turn nxt cmt fs mount (Quiet evs now) st =
     (if ig_exit st \<noteq> None then (OIdle, st) else ingest_quiet fs evs now st)"
| "ingest_turn nxt cmt fs mount (Ask i envs cls a) st =
     (if ig_exit st \<noteq> None then (OIdle, st)
      else (case nxt (ig_source st) i of
              (None, s1) \<Rightarrow> (OIdle, st\<lparr>ig_source := s1\<rparr>)
            | (Some (Inl (RetentionGap reason)), s1) \<Rightarrow>
                (OExit, st\<lparr>ig_source := s1, ig_exit := Some (ExitRetentionGap reason)\<rparr>)
            | (Some (Inl _), s1) \<Rightarrow> (OExit, st\<lparr>ig_source := s1, ig_exit := Some Stopped\<rparr>)
            | (Some (Inr None), s1) \<Rightarrow> (OExit, st\<lparr>ig_source := s1, ig_exit := Some Stopped\<rparr>)
            | (Some (Inr (Some batch)), s1) \<Rightarrow>
                ingest_batch cmt fs mount batch envs cls a
                  (st\<lparr>ig_source := s1, ig_verified_quiescent := False\<rparr>)))"

fun run_ingest ::
  "('s \<Rightarrow> 'i \<Rightarrow> (ChangeSourceError + ChangeBatch option) option \<times> 's) \<Rightarrow>
   ('s \<Rightarrow> 'a \<Rightarrow> Checkpoint \<Rightarrow> ChangeSourceError option \<times> 's) \<Rightarrow> string \<Rightarrow> path \<Rightarrow>
   ('i, 'a) Turn list \<Rightarrow> 's Ingest \<Rightarrow> outcome list \<times> 's Ingest" where
  "run_ingest nxt cmt fs mount [] st = ([], st)"
| "run_ingest nxt cmt fs mount (turn # turns) st =
     (let (out, st1) = ingest_turn nxt cmt fs mount turn st;
          (outs, st2) = run_ingest nxt cmt fs mount turns st1
      in (out # outs, st2))"

section \<open>Histories\<close>

fun delivered_by :: "outcome \<Rightarrow> ChangeBatch list" where
  "delivered_by (OCommitted b r) = [b]"
| "delivered_by (OUncommitted b) = [b]"
| "delivered_by (OFailed b) = [b]"
| "delivered_by (OMisrouted b) = [b]"
| "delivered_by _ = []"

fun committed_by :: "outcome \<Rightarrow> ChangeBatch list" where
  "committed_by (OCommitted b r) = [b]"
| "committed_by _ = []"

definition delivered :: "outcome list \<Rightarrow> ChangeBatch list" where
  "delivered outs = concat (map delivered_by outs)"

definition committed :: "outcome list \<Rightarrow> ChangeBatch list" where
  "committed outs = concat (map committed_by outs)"

text \<open>The position of the last of some batches.\<close>

definition latest :: "u64 option \<Rightarrow> ChangeBatch list \<Rightarrow> u64 option" where
  "latest v bs = foldl (\<lambda>_ b. Some (cp_position (checkpoint b))) v bs"

text \<open>A committed batch belongs to the filesystem, and each of its changes was dealt with.\<close>

fun fully_applied :: "string \<Rightarrow> outcome \<Rightarrow> bool" where
  "fully_applied fs (OCommitted b r) \<longleftrightarrow>
     cb_filesystem b = fs \<and> br_errors r = 0 \<and> br_applied r + br_skipped r = length (changes b)"
| "fully_applied fs _ \<longleftrightarrow> True"

fun elsewhere :: "('i, 'a) Turn list \<Rightarrow> store_op list" where
  "elsewhere [] = []"
| "elsewhere (Elsewhere oper # turns) = oper # elsewhere turns"
| "elsewhere (_ # turns) = elsewhere turns"

section \<open>Lemmas\<close>

lemma writes_classify: "writes fs c (snd (classify_entry env cls fs f c))"
  by (auto simp: classify_entry_def split: sum.splits option.splits intro: idle writes_classifiers)

text \<open>One change: the batch ends with an error, or goes on with the change counted.\<close>

lemma apply_changes_Cons:
  obtains (stop) r1 c1 where "apply_changes envs cls fs mount k (ch # chs) r c = (r1, c1)"
      "br_errors r1 = Suc (br_errors r)" "writes fs c c1"
  | (go) r1 c1 where
      "apply_changes envs cls fs mount k (ch # chs) r c = apply_changes envs cls fs mount (k + 1) chs r1 c1"
      "br_errors r \<le> br_errors r1" "writes fs c c1"
      "br_applied r1 + br_skipped r1 + br_errors r1 = Suc (br_applied r + br_skipped r + br_errors r)"
proof (cases "object_backend (change_object ch) = JuiceFs")
  case True
  obtain res c1 where "apply_juicefs_change (envs k) fs mount ch c = (res, c1)" by fastforce
  with writes_juicefs [of fs c "envs k" mount ch] True that show thesis
    by (cases res) auto
next
  case lustre: False
  show thesis
  proof (cases "lustre_event ch")
    case (Inl e)
    with lustre that idle [of fs c] show thesis by auto
  next
    case (Inr ev)
    obtain res c1 where ev: "apply_event (envs k) fs mount ev (change_time ch) c = (res, c1)"
      by fastforce
    with writes_event [of fs c "envs k" mount ev "change_time ch"] have w1: "writes fs c c1" by simp
    obtain res2 c2 where cl: "classify_entry (envs k) (cls k) fs (fid ev) c1 = (res2, c2)" by fastforce
    with writes_classify [of fs c1 "envs k" "cls k" "fid ev"] w1 have "writes fs c c2"
      by (auto intro: writes_trans)
    with lustre Inr ev cl w1 that show thesis
      by (cases res; cases "projr res"; cases res2) (auto simp: Let_def)
  qed
qed

lemma apply_changes_counts:
  "apply_changes envs cls fs mount k chs r c = (r', c') \<Longrightarrow>
   br_errors r \<le> br_errors r' \<and> writes fs c c' \<and>
   (br_errors r' = 0 \<longrightarrow> br_applied r' + br_skipped r' = br_applied r + br_skipped r + length chs)"
proof (induction chs arbitrary: k r c)
  case (Cons ch chs)
  show ?case
  proof (cases rule: apply_changes_Cons [of envs cls fs mount k ch chs r c])
    case (stop r1 c1)
    with Cons.prems show ?thesis by auto
  next
    case (go r1 c1)
    with Cons.IH [of "k + 1" r1 c1] Cons.prems show ?thesis by (auto intro: writes_trans)
  qed
qed (auto intro: idle)

lemma histories [simp]:
  "delivered [] = []" "delivered (out # outs) = delivered_by out @ delivered outs"
  "committed [] = []" "committed (out # outs) = committed_by out @ committed outs"
  "latest v [] = v" "latest v (bs @ cs) = latest (latest v bs) cs"
  "latest v [b] = Some (cp_position (checkpoint b))"
  by (simp_all add: delivered_def committed_def latest_def)

context change_source
begin

text \<open>What a turn does to the source and to the count of committed batches.\<close>

definition turn_ok :: "string \<Rightarrow> 's Ingest \<Rightarrow> outcome \<Rightarrow> 's Ingest \<Rightarrow> bool" where
  "turn_ok fs st out st' \<longleftrightarrow>
     acked (ig_source st') = acked (ig_source st) @ map (ack_of (ig_source st) \<circ> checkpoint) (committed_by out) \<and>
     ack_of (ig_source st') = ack_of (ig_source st) \<and>
     (ig_exit st' = None \<longrightarrow> pending (ig_source st') = None) \<and>
     fully_applied fs out \<and>
     (committed_by out = delivered_by out \<or>
      committed_by out = [] \<and> length (delivered_by out) = 1 \<and> ig_exit st' \<noteq> None) \<and>
     (ig_exit st \<noteq> None \<longrightarrow> delivered_by out = [] \<and> ig_exit st' \<noteq> None) \<and>
     ig_last_committed st' = latest (ig_last_committed st) (committed_by out)"

lemma turn_ok_batch:
  assumes "pending (ig_source st) = Some (checkpoint batch)" and "ig_exit st = None"
    and "ingest_batch cmt fs mount batch envs cls a st = (out, st')"
  shows "turn_ok fs st out st'"
proof (cases "cb_filesystem batch = fs")
  case False
  with assms show ?thesis by (auto simp: ingest_batch_def turn_ok_def)
next
  case fs: True
  obtain r c1 where r: "apply_changes envs cls fs mount 0 (changes batch) no_result (ig_catalog st) = (r, c1)"
    by fastforce
  note counts = apply_changes_counts [OF r]
  obtain e s2 where cm: "cmt (ig_source st) a (checkpoint batch) = (e, s2)" by fastforce
  show ?thesis
  proof (cases "br_errors r > 0")
    case True
    with assms fs r show ?thesis by (auto simp: ingest_batch_def turn_ok_def)
  next
    case False
    show ?thesis
    proof (cases e)
      case None
      with commit_ok [of "ig_source st" a "checkpoint batch" s2] cm assms fs r False counts
      show ?thesis by (auto simp: ingest_batch_def turn_ok_def no_result_def)
    next
      case (Some x)
      with commit_error [of "ig_source st" a "checkpoint batch" x s2] cm assms fs r False
      show ?thesis by (auto simp: ingest_batch_def turn_ok_def)
    qed
  qed
qed

lemma turn_ok_quiet:
  assumes "pending (ig_source st) = None" and "ig_exit st = None"
    and "ingest_quiet fs evs now st = (out, st')"
  shows "turn_ok fs st out st'"
  using assms by (auto simp: ingest_quiet_def turn_ok_def split: if_splits sum.splits prod.splits)

lemma turn_ok_step:
  assumes idle: "ig_exit st = None \<Longrightarrow> pending (ig_source st) = None"
    and step: "ingest_turn nxt cmt fs mount turn st = (out, st')"
  shows "turn_ok fs st out st'"
proof (cases "ig_exit st")
  case (Some x)
  with step show ?thesis by (cases turn) (auto simp: turn_ok_def)
next
  case None
  show ?thesis
  proof (cases turn)
    case (Ask i envs cls a)
    obtain res s1 where nx: "nxt (ig_source st) i = (res, s1)" by fastforce
    show ?thesis
    proof (cases "\<exists>b. res = Some (Inr (Some b))")
      case True
      then obtain b where b: "res = Some (Inr (Some b))" by blast
      let ?st1 = "st\<lparr>ig_source := s1, ig_verified_quiescent := False\<rparr>"
      have "turn_ok fs ?st1 out st'"
        by (rule turn_ok_batch [of _ b _ mount envs cls a])
          (use next_delivers [of "ig_source st" i b s1] nx b None step Ask in auto)
      with next_acked [OF nx] next_ack_of [OF nx] None show ?thesis
        by (simp add: turn_ok_def)
    next
      case False
      from next_other [OF nx False] next_acked [OF nx] next_ack_of [OF nx] idle None
      have "pending s1 = None \<and> acked s1 = acked (ig_source st) \<and> ack_of s1 = ack_of (ig_source st)"
        by simp
      with False nx None step Ask show ?thesis
        by (auto simp: turn_ok_def split: option.splits sum.splits ChangeSourceError.splits)
    qed
  qed (use turn_ok_quiet idle None step in \<open>auto simp: turn_ok_def\<close>)
qed

lemma run_stopped:
  "ig_exit st \<noteq> None \<Longrightarrow> run_ingest nxt cmt fs mount turns st = (outs, st') \<Longrightarrow>
   delivered outs = [] \<and> ig_exit st' \<noteq> None"
proof (induction turns arbitrary: st outs)
  case (Cons turn turns)
  obtain out st1 where step: "ingest_turn nxt cmt fs mount turn st = (out, st1)" by fastforce
  obtain outs1 where rest: "run_ingest nxt cmt fs mount turns st1 = (outs1, st')" and "outs = out # outs1"
    using Cons.prems step by (auto simp: Let_def split: prod.splits)
  moreover have "delivered_by out = [] \<and> ig_exit st1 \<noteq> None"
    using step Cons.prems(1) by (cases turn) auto
  ultimately show ?case using Cons.IH [OF _ rest] by simp
qed simp

text \<open>
  Histories: acknowledgements are the committed batches in order; all batches but at most
  one last one are committed, and then the loop has ended.
\<close>

definition history_ok :: "string \<Rightarrow> 's Ingest \<Rightarrow> outcome list \<Rightarrow> 's Ingest \<Rightarrow> bool" where
  "history_ok fs st outs st' \<longleftrightarrow>
     acked (ig_source st') =
       acked (ig_source st) @ map (ack_of (ig_source st) \<circ> checkpoint) (committed outs) \<and>
     (\<exists>rest. delivered outs = committed outs @ rest \<and>
        length rest \<le> 1 \<and> (rest \<noteq> [] \<longrightarrow> ig_exit st' \<noteq> None)) \<and>
     list_all (fully_applied fs) outs \<and>
     ig_last_committed st' = latest (ig_last_committed st) (committed outs)"

lemma run_history:
  assumes "ig_exit st = None \<Longrightarrow> pending (ig_source st) = None"
    and "run_ingest nxt cmt fs mount turns st = (outs, st')"
  shows "history_ok fs st outs st'"
  using assms
proof (induction turns arbitrary: st outs)
  case Nil
  then show ?case by (simp add: history_ok_def)
next
  case (Cons turn turns)
  obtain out st1 where step: "ingest_turn nxt cmt fs mount turn st = (out, st1)" by fastforce
  obtain outs1 where rest: "run_ingest nxt cmt fs mount turns st1 = (outs1, st')" and outs: "outs = out # outs1"
    using Cons.prems step by (auto simp: Let_def split: prod.splits)
  from turn_ok_step [OF Cons.prems(1) step] have t: "turn_ok fs st out st1" .
  then have h: "history_ok fs st1 outs1 st'"
    by (intro Cons.IH rest) (simp add: turn_ok_def)
  show ?case
  proof (cases "committed_by out = delivered_by out")
    case True
    with t h outs show ?thesis by (auto simp: turn_ok_def history_ok_def)
  next
    case False
    with t have "ig_exit st1 \<noteq> None" "committed_by out = []" "length (delivered_by out) = 1"
      by (auto simp: turn_ok_def)
    moreover from run_stopped [OF this(1) rest] have "delivered outs1 = []" "ig_exit st' \<noteq> None"
      by auto
    ultimately show ?thesis using t h outs by (auto simp: turn_ok_def history_ok_def)
  qed
qed

end

section \<open>The catalog\<close>

lemma turn_writes:
  assumes "ingest_turn nxt cmt fs mount turn st = (out, st')" "\<nexists>oper. turn = Elsewhere oper"
  shows "writes fs (ig_catalog st) (ig_catalog st')"
proof (cases turn)
  case (Quiet evs now)
  with assms(1) writes_store(11) [of fs "ig_catalog st"] show ?thesis
    by (auto simp: ingest_quiet_def split: if_splits sum.splits prod.splits intro: idle)
      (metis snd_conv)+
next
  case (Ask i envs cls a)
  have "writes fs (ig_catalog s1) (ig_catalog st')"
    if "ingest_batch cmt fs mount b envs cls a s1 = (out, st')" for b s1
    using that apply_changes_counts [of envs cls fs mount 0 "changes b" no_result "ig_catalog s1"]
    by (auto simp: ingest_batch_def Let_def split: if_splits prod.splits option.splits intro: idle)
  with Ask assms(1) show ?thesis
    by (auto split: if_splits prod.splits option.splits sum.splits ChangeSourceError.splits intro: idle)
      fastforce
qed (use assms in \<open>auto intro: idle split: if_splits\<close>)

lemma run_ingest_Cons:
  assumes "run_ingest nxt cmt fs mount (turn # turns) st = (outs, st')"
  obtains out st1 outs1 where "ingest_turn nxt cmt fs mount turn st = (out, st1)"
    "run_ingest nxt cmt fs mount turns st1 = (outs1, st')" "outs = out # outs1"
  using assms by (auto simp: Let_def split: prod.splits)

lemma run_ingest_view:
  assumes "run_ingest nxt cmt fs mount turns st = (outs, st')" "g \<noteq> fs"
    "\<forall>oper \<in> set (elsewhere turns). g \<notin> op_scope oper"
  shows "fs_view g (ig_catalog st') = fs_view g (ig_catalog st)"
  using assms
proof (induction turns arbitrary: st outs)
  case (Cons turn turns)
  from Cons.prems(1) obtain out st1 outs1 where step: "ingest_turn nxt cmt fs mount turn st = (out, st1)"
    and rest: "run_ingest nxt cmt fs mount turns st1 = (outs1, st')" by (rule run_ingest_Cons)
  have "fs_view g (ig_catalog st1) = fs_view g (ig_catalog st)"
  proof (cases "\<exists>oper. turn = Elsewhere oper")
    case True
    with step Cons.prems(3) show ?thesis by (auto simp: run_op_view)
  next
    case False
    from writes_view [OF turn_writes [OF step False] Cons.prems(2)] show ?thesis .
  qed
  with Cons.IH [OF rest] Cons.prems(2,3) show ?case by (cases turn) auto
qed simp

lemma run_ingest_ok:
  assumes "run_ingest nxt cmt fs mount turns st = (outs, st')" "catalog_ok (ig_catalog st)"
  shows "catalog_ok (ig_catalog st')"
  using assms
proof (induction turns arbitrary: st outs)
  case (Cons turn turns)
  from Cons.prems(1) obtain out st1 outs1 where step: "ingest_turn nxt cmt fs mount turn st = (out, st1)"
    and rest: "run_ingest nxt cmt fs mount turns st1 = (outs1, st')" by (rule run_ingest_Cons)
  have "catalog_ok (ig_catalog st1)"
  proof (cases "\<exists>oper. turn = Elsewhere oper")
    case True
    with step Cons.prems(2) show ?thesis by (auto simp: run_op_ok)
  next
    case False
    from writes_ok [OF turn_writes [OF step False] Cons.prems(2)] show ?thesis .
  qed
  with Cons.IH [OF rest] show ?case by simp
qed simp

section \<open>Publication of a baseline\<close>

lemma edges_view:
  "fs_view fs c' = fs_view fs c \<Longrightarrow> list_scoped_namespace_edges c' fs = list_scoped_namespace_edges c fs"
  by (simp add: fs_view_def list_scoped_namespace_edges_def edges_of_def)

lemma verify_cong:
  "list_scoped_namespace_edges c' fs = list_scoped_namespace_edges c fs \<Longrightarrow>
   verify_juicefs_namespace c' fs evs = verify_juicefs_namespace c fs evs"
  by (simp add: verify_juicefs_namespace_def cong: sum.case_cong)

lemma baseline_edges:
  "list_scoped_namespace_edges (snd (set_baseline_state c now g state v r)) fs =
   list_scoped_namespace_edges c fs"
  by (simp add: set_baseline_state_def Let_def list_scoped_namespace_edges_def edges_of_def)

lemma verify_iff:
  "verify_juicefs_namespace c fs evs = Inr () \<longleftrightarrow>
     (\<exists>m. mounted_edges fs evs = Inr m \<and> set m = set (list_scoped_namespace_edges c fs))"
  by (auto simp: verify_juicefs_namespace_def compare_namespace_def Let_def split: sum.splits if_splits)

lemma run_ingest_snoc:
  assumes "run_ingest nxt cmt fs mount (turns @ [turn]) st = (outs, st')"
  obtains outs1 st1 out where "run_ingest nxt cmt fs mount turns st = (outs1, st1)"
    "ingest_turn nxt cmt fs mount turn st1 = (out, st')" "outs = outs1 @ [out]"
  using assms
proof (induction turns arbitrary: st outs thesis)
  case Nil
  then show ?case by (auto simp: Let_def split: prod.splits)
next
  case (Cons t turns)
  from Cons.prems(2) obtain out2 st2 outs2 where t: "ingest_turn nxt cmt fs mount t st = (out2, st2)"
    "run_ingest nxt cmt fs mount (turns @ [turn]) st2 = (outs2, st')" "outs = out2 # outs2"
    by (auto elim: run_ingest_Cons simp del: run_ingest.simps)
  from Cons.IH [OF _ t(2)] obtain outs1 st1 out where
    "run_ingest nxt cmt fs mount turns st2 = (outs1, st1)"
    "ingest_turn nxt cmt fs mount turn st1 = (out, st')" "outs2 = outs1 @ [out]" by blast
  with t show ?case by (intro Cons.prems(1) [of "out2 # outs1" st1 out]) auto
qed

lemma elsewhere_append [simp]: "elsewhere (xs @ ys) = elsewhere xs @ elsewhere ys"
  by (induction xs rule: elsewhere.induct) auto

text \<open>The loop remembers a walk since which no batch came.\<close>

definition verified_by ::
  "string \<Rightarrow> ('i, 'a) Turn list \<Rightarrow> outcome list \<Rightarrow> PosixWalkEvent list \<Rightarrow> bool" where
  "verified_by fs turns outs evs \<longleftrightarrow>
     (\<exists>before now after obefore oafter. turns = before @ Quiet evs now # after \<and>
        outs = obefore @ OVerified # oafter \<and> length obefore = length before \<and> delivered oafter = [])"

lemma verified_by_snoc:
  "verified_by fs turns outs evs \<Longrightarrow> delivered_by out = [] \<Longrightarrow>
   verified_by fs (turns @ [turn]) (outs @ [out]) evs"
  unfolding verified_by_def by (fastforce simp: delivered_def)

lemma turn_verified:
  assumes step: "ingest_turn nxt cmt fs mount turn st = (out, st')" and "ig_verified_quiescent st'"
    and "\<forall>oper \<in> set (elsewhere [turn]). fs \<notin> op_scope oper"
  shows "(ig_verified_quiescent st \<and> delivered_by out = [] \<and>
      list_scoped_namespace_edges (ig_catalog st') fs = list_scoped_namespace_edges (ig_catalog st) fs) \<or>
    (\<exists>evs now. turn = Quiet evs now \<and> out = OVerified \<and>
      verify_juicefs_namespace (ig_catalog st') fs evs = Inr ())"
proof (cases turn)
  case (Elsewhere oper)
  with assms edges_view [OF run_op_view, of fs oper "ig_catalog st"] show ?thesis by auto
next
  case (Quiet evs now)
  with assms(1,2) baseline_edges [of "ig_catalog st" now fs] show ?thesis
    by (auto simp: ingest_quiet_def split: if_splits sum.splits prod.splits) (metis snd_conv)+
next
  case (Ask i envs cls a)
  have batch: "\<not> ig_verified_quiescent st'"
    if "ingest_batch cmt fs mount b envs cls a s1 = (out, st')" "\<not> ig_verified_quiescent s1" for b s1
    using that by (auto simp: ingest_batch_def Let_def split: if_splits prod.splits option.splits)
  from Ask step assms(2) show ?thesis
    by (auto split: if_splits prod.splits option.splits sum.splits ChangeSourceError.splits
        dest!: batch)
qed (use assms in \<open>auto split: if_splits\<close>)

lemma run_verified:
  assumes "run_ingest nxt cmt fs mount turns st = (outs, st')" "\<not> ig_verified_quiescent st"
    "\<forall>oper \<in> set (elsewhere turns). fs \<notin> op_scope oper" "ig_verified_quiescent st'"
  shows "\<exists>evs. verified_by fs turns outs evs \<and> verify_juicefs_namespace (ig_catalog st') fs evs = Inr ()"
  using assms
proof (induction turns arbitrary: outs st' rule: rev_induct)
  case (snoc turn turns)
  from snoc.prems(1) obtain outs1 st1 out where run: "run_ingest nxt cmt fs mount turns st = (outs1, st1)"
    and step: "ingest_turn nxt cmt fs mount turn st1 = (out, st')" and outs: "outs = outs1 @ [out]"
    by (rule run_ingest_snoc)
  have len: "length outs1 = length turns" using run
    by (induction turns arbitrary: st outs1) (auto simp: Let_def split: prod.splits)
  from snoc.prems(3) have "\<forall>oper \<in> set (elsewhere [turn]). fs \<notin> op_scope oper" by simp
  from turn_verified [OF step snoc.prems(4) this] show ?case
  proof
    assume old: "ig_verified_quiescent st1 \<and> delivered_by out = [] \<and>
      list_scoped_namespace_edges (ig_catalog st') fs = list_scoped_namespace_edges (ig_catalog st1) fs"
    from snoc.IH [OF run snoc.prems(2)] snoc.prems(3) old obtain evs where
      "verified_by fs turns outs1 evs" "verify_juicefs_namespace (ig_catalog st1) fs evs = Inr ()" by auto
    with old verified_by_snoc [of fs turns outs1 evs out turn] verify_cong [of "ig_catalog st'" fs "ig_catalog st1" evs]
    show ?thesis unfolding outs by metis
  next
    assume "\<exists>evs now. turn = Quiet evs now \<and> out = OVerified \<and>
      verify_juicefs_namespace (ig_catalog st') fs evs = Inr ()"
    then obtain evs now where q: "turn = Quiet evs now" "out = OVerified"
      "verify_juicefs_namespace (ig_catalog st') fs evs = Inr ()" by blast
    have "verified_by fs (turns @ [turn]) outs evs"
      unfolding verified_by_def outs q
      by (intro exI [of _ turns] exI [of _ now] exI [of _ "[]"] exI [of _ outs1]) (simp add: len)
    with q(3) show ?thesis by blast
  qed
qed simp

lemma turn_ready:
  assumes "ingest_turn nxt cmt fs mount turn st = (OReady, st')"
  shows "ig_verified_quiescent st \<and> ig_catching_up st \<and>
    list_scoped_namespace_edges (ig_catalog st') fs = list_scoped_namespace_edges (ig_catalog st) fs \<and>
    (\<exists>b. get_baseline (ig_catalog st') fs = Some b \<and> bl_state b = Ready \<and>
      last_version b = ig_last_committed st)"
proof -
  have no_batch: "fst (ingest_batch cmt fs mount b envs cls a s1) \<noteq> OReady" for b envs cls a s1
    by (auto simp: ingest_batch_def Let_def split: prod.splits option.splits)
  obtain evs now where q: "ingest_quiet fs evs now st = (OReady, st')"
  proof (cases turn)
    case (Ask i envs cls a)
    with assms no_batch [THEN notE] that show ?thesis
      by (auto split: if_splits prod.splits option.splits sum.splits ChangeSourceError.splits)
        (metis fst_conv)+
  qed (use assms that in \<open>auto split: if_splits\<close>)
  then obtain c1 where c1: "set_baseline_state (ig_catalog st) now fs Ready (ig_last_committed st) None = (Inr (), c1)"
    and st': "st' = st\<lparr>ig_catalog := c1, ig_catching_up := False\<rparr>"
    and v: "ig_verified_quiescent st" "ig_catching_up st"
    by (auto simp: ingest_quiet_def split: if_splits sum.splits prod.splits)
  have "list_scoped_namespace_edges c1 fs = list_scoped_namespace_edges (ig_catalog st) fs"
    using baseline_edges [of "ig_catalog st" now fs Ready "ig_last_committed st" None fs] c1 by simp
  moreover have "\<exists>b. get_baseline c1 fs = Some b \<and> bl_state b = Ready \<and> last_version b = ig_last_committed st"
    using c1 by (auto simp: set_baseline_state_def Let_def get_baseline_def update_conv' split: if_splits)
  ultimately show ?thesis using st' v by simp
qed

lemma turn_latest:
  assumes "ingest_turn nxt cmt fs mount turn st = (out, st')"
  shows "ig_last_committed st' = latest (ig_last_committed st) (committed_by out)"
proof (cases turn)
  case (Quiet evs now)
  with assms show ?thesis by (auto simp: ingest_quiet_def split: if_splits sum.splits prod.splits)
next
  case (Ask i envs cls a)
  have "ig_last_committed st' = latest (ig_last_committed s1) (committed_by out)"
    if "ingest_batch cmt fs mount b envs cls a s1 = (out, st')" for b s1
    using that by (auto simp: ingest_batch_def Let_def split: if_splits prod.splits option.splits)
  with Ask assms show ?thesis
    by (auto split: if_splits prod.splits option.splits sum.splits ChangeSourceError.splits)
qed (use assms in \<open>auto split: if_splits\<close>)

lemma run_latest:
  "run_ingest nxt cmt fs mount turns st = (outs, st') \<Longrightarrow>
   ig_last_committed st' = latest (ig_last_committed st) (committed outs)"
proof (induction turns arbitrary: st outs)
  case (Cons turn turns)
  from Cons.prems obtain out st1 outs1 where "ingest_turn nxt cmt fs mount turn st = (out, st1)"
    "run_ingest nxt cmt fs mount turns st1 = (outs1, st')" "outs = out # outs1" by (rule run_ingest_Cons)
  with Cons.IH turn_latest [of nxt cmt fs mount turn st out st1] show ?case by simp
qed simp

section \<open>Properties\<close>

lemma lustre_history:
  "lu_pending s = None \<Longrightarrow>
   run_ingest lustre_turn lustre_commit fs mount turns (ingest_start s c fs) = (outs, st) \<Longrightarrow>
   lustre.history_ok fs (ingest_start s c fs) outs st"
  by (rule lustre.run_history) (simp_all add: ingest_start_def)

text \<open>
  C3: the ingest loop over the JuiceFS source commits what it has applied and nothing else.
  After any sequence of turns the requests acknowledged to the server are those of the
  committed batches, in the order of their arrival; each committed batch belongs to the
  filesystem and every change of it was applied or skipped without an error; and at most
  one batch that arrived is not committed, the last one, after which the loop has ended.
\<close>

theorem ingest_commits:
  assumes "ju_pending s = None"
    and "run_ingest juicefs_next_batch juicefs_commit fs mount turns (ingest_start s c fs) = (outs, st)"
  shows "ju_acks (ig_source st) = ju_acks s @ map (juice_ack s \<circ> checkpoint) (committed outs) \<and>
    (\<exists>rest. delivered outs = committed outs @ rest \<and> length rest \<le> 1 \<and>
       (rest \<noteq> [] \<longrightarrow> ig_exit st \<noteq> None)) \<and>
    list_all (fully_applied fs) outs"
  using juicefs.run_history [OF _ assms(2)] assms(1)
  by (simp add: juicefs.history_ok_def ingest_start_def)

definition ingest_demo_catalog :: Catalog where
  "ingest_demo_catalog = demo_tree\<lparr>baselines := [(''jfs'', \<lparr>bl_state = CatchingUp,
     scan_started_at = Some 0, completed_at = None, last_version = None, invalid_reason = None\<rparr>)]\<rparr>"

definition ingest_demo_record :: ChangelogRecord where
  "ingest_demo_record = \<lparr>cr_volume = ''v'', cr_version = 7, cr_entry = render_record 3 ''0'' ''MOVE''
     (move_args 1 ''d'' 1 ''e'' 0 0 0) (dec_str (unat (2 :: u64))) []\<rparr>"

definition ingest_demo_turns :: "(Polled list, Status option) Turn list" where
  "ingest_demo_turns = [Ask [Msg ingest_demo_record] (\<lambda>_. apply_demo_env) (\<lambda>_. []) None]"

lemma ingest_demo_batch:
  "juicefs_next_batch juice_demo_source [Msg ingest_demo_record] =
     (Some (Inr (Some \<lparr>cb_filesystem = ''jfs'',
        changes = [Renamed (OJuiceFs 2) (OJuiceFs 1) ''d'' (OJuiceFs 1) ''e'' 3],
        checkpoint = Checkpoint ''v'' 7\<rparr>)),
      juice_demo_source\<lparr>ju_pending := Some (Checkpoint ''v'' 7)\<rparr>)"
  using parse_move [of 3 "''0''" 1 "''d''" 1 "''e''" 0 0 0 2 "[]"]
  by (simp add: juicefs_next_batch_def juice_accept_def juice_demo_source_def ingest_demo_record_def
      i64_max_def Let_def)

lemmas ingest_demo_defs = ingest_demo_turns_def ingest_demo_batch ingest_start_def ingest_batch_def
  ingest_demo_catalog_def demo_defs juice_renamed_def get_scoped_entry_def and_then_def
  lift_store_def upsert_scoped_entry_def backend_mismatch_def get_filesystem_def in_tx_def
  upsert_scoped_entry_tx_def fk_ok_def upsert_scoped_namespace_edge_def edge_key_of_def
  remove_scoped_namespace_edge_def no_result_def juicefs_commit_def Let_def

theorem ingest_commits_witness:
  "\<exists>outs st b. run_ingest juicefs_next_batch juicefs_commit ''jfs'' [RootDir, Normal ''jfs''] ingest_demo_turns
       (ingest_start juice_demo_source ingest_demo_catalog ''jfs'') = (outs, st) \<and>
     committed outs = [b] \<and> ju_acks (ig_source st) = [\<lparr>ar_volume = ''v'', ar_version = 7\<rparr>] \<and>
     map_of (scoped_edges (ig_catalog st)) (''jfs'', OJuiceFs 1, ''e'') = Some (OJuiceFs 2)"
proof -
  let ?run = "run_ingest juicefs_next_batch juicefs_commit ''jfs'' [RootDir, Normal ''jfs''] ingest_demo_turns
       (ingest_start juice_demo_source ingest_demo_catalog ''jfs'')"
  obtain outs st where run: "?run = (outs, st)" by fastforce
  then have c: "committed outs = [\<lparr>cb_filesystem = ''jfs'',
        changes = [Renamed (OJuiceFs 2) (OJuiceFs 1) ''d'' (OJuiceFs 1) ''e'' 3],
        checkpoint = Checkpoint ''v'' 7\<rparr>]"
    and e: "map_of (scoped_edges (ig_catalog st)) (''jfs'', OJuiceFs 1, ''e'') = Some (OJuiceFs 2)"
    by (auto simp: ingest_demo_defs)
  have p: "ju_pending juice_demo_source = None" by (simp add: juice_demo_source_def)
  from ingest_commits [OF p run] c e run show ?thesis
    by (auto simp: juice_ack_def juice_demo_source_def)
qed

text \<open>
  C6: a baseline is published as ready only when the catalog agrees with the mounted
  filesystem. If a turn publishes it, then an earlier quiet turn walked the mount without
  an error, no batch arrived since, and the edges of the catalog are exactly the edges of
  that walk; the published version is the position of the last batch committed. Tasks of
  other filesystems may use the shared catalog meanwhile.
\<close>

theorem baseline_ready:
  assumes "run_ingest nxt cmt fs mount (turns @ [turn]) (ingest_start s c fs) = (outs @ [OReady], st)"
    and "\<forall>oper \<in> set (elsewhere turns). fs \<notin> op_scope oper"
  shows "\<exists>evs m b. verified_by fs turns outs evs \<and> mounted_edges fs evs = Inr m \<and>
    set m = set (list_scoped_namespace_edges (ig_catalog st) fs) \<and>
    get_baseline (ig_catalog st) fs = Some b \<and> bl_state b = Ready \<and>
    last_version b = latest None (committed outs)"
proof -
  from assms(1) obtain st1 where run: "run_ingest nxt cmt fs mount turns (ingest_start s c fs) = (outs, st1)"
    and step: "ingest_turn nxt cmt fs mount turn st1 = (OReady, st)"
    by (rule run_ingest_snoc) auto
  from turn_ready [OF step] have ready: "ig_verified_quiescent st1"
    "list_scoped_namespace_edges (ig_catalog st) fs = list_scoped_namespace_edges (ig_catalog st1) fs"
    "\<exists>b. get_baseline (ig_catalog st) fs = Some b \<and> bl_state b = Ready \<and> last_version b = ig_last_committed st1"
    by auto
  have "\<not> ig_verified_quiescent (ingest_start s c fs)" by (simp add: ingest_start_def)
  from run_verified [OF run this assms(2) ready(1)] ready(2) obtain evs m where
    "verified_by fs turns outs evs" "mounted_edges fs evs = Inr m"
    "set m = set (list_scoped_namespace_edges (ig_catalog st) fs)"
    by (auto simp: verify_iff)
  with ready(3) run_latest [OF run] show ?thesis by (auto simp: ingest_start_def)
qed

definition ready_demo_events :: "PosixWalkEvent list" where
  "ready_demo_events = map WEntry [the (stat_entry demo_env [RootDir, Normal ''jfs''] 0),
     the (stat_entry demo_env [RootDir, Normal ''jfs'', Normal ''d''] 1)]"

lemma ready_demo_edges:
  "mounted_edges ''jfs'' ready_demo_events = Inr [\<lparr>ed_filesystem = ''jfs'', ed_parent = OJuiceFs 1,
     ed_name = ''d'', ed_object = OJuiceFs 2\<rparr>]"
  by (simp add: ready_demo_events_def stat_entry_def adapt_def path_parent_def demo_env_def
      demo_metadata_def Let_def)

lemma ready_demo_catalog_edges:
  "list_scoped_namespace_edges ingest_demo_catalog ''jfs'' = [\<lparr>ed_filesystem = ''jfs'',
     ed_parent = OJuiceFs 1, ed_name = ''d'', ed_object = OJuiceFs 2\<rparr>]"
  by (simp add: list_scoped_namespace_edges_def edges_of_def ingest_demo_catalog_def demo_tree_def)

theorem baseline_ready_witness:
  "\<exists>st b. run_ingest juicefs_next_batch juicefs_commit ''jfs'' [RootDir, Normal ''jfs'']
       [Quiet ready_demo_events 5, Quiet [] 6]
       (ingest_start juice_demo_source ingest_demo_catalog ''jfs'') = ([OVerified, OReady], st) \<and>
     get_baseline (ig_catalog st) ''jfs'' = Some b \<and> bl_state b = Ready \<and> last_version b = None"
proof -
  let ?run = "run_ingest juicefs_next_batch juicefs_commit ''jfs'' [RootDir, Normal ''jfs'']
       ([Quiet ready_demo_events 5] @ [Quiet [] 6])
       (ingest_start juice_demo_source ingest_demo_catalog ''jfs'')"
  have start: "ig_catching_up (ingest_start juice_demo_source ingest_demo_catalog ''jfs'')"
    by (simp add: ingest_start_def ingest_demo_catalog_def get_baseline_def)
  have fk: "fk_ok ingest_demo_catalog ''jfs''"
    by (simp add: fk_ok_def ingest_demo_catalog_def demo_tree_def)
  have "verify_juicefs_namespace ingest_demo_catalog ''jfs'' ready_demo_events = Inr ()"
    by (auto simp: verify_iff ready_demo_edges ready_demo_catalog_edges)
  with start fk have "\<exists>st. ?run = ([OVerified] @ [OReady], st)"
    by (simp add: ingest_quiet_def ingest_start_def set_baseline_state_def Let_def)
  then obtain st where run: "?run = ([OVerified] @ [OReady], st)" by blast
  from baseline_ready [OF run] run show ?thesis by (auto simp: committed_def)
qed

text \<open>
  C14: the loop of a filesystem writes to the rows of this filesystem only. Whatever it
  receives, the rows of any other filesystem stay as they are, as long as the other tasks
  leave them alone too, and a well-formed catalog stays well-formed.
\<close>

theorem ingest_isolation:
  assumes "run_ingest nxt cmt fs mount turns st = (outs, st')"
  shows "(g \<noteq> fs \<and> (\<forall>oper \<in> set (elsewhere turns). g \<notin> op_scope oper) \<longrightarrow>
      fs_view g (ig_catalog st') = fs_view g (ig_catalog st)) \<and>
    (catalog_ok (ig_catalog st) \<longrightarrow> catalog_ok (ig_catalog st'))"
  using run_ingest_view [OF assms] run_ingest_ok [OF assms] by blast

lemma ingest_demo_ok: "catalog_ok ingest_demo_catalog"
  by (simp add: catalog_ok_def fk_ok_def ingest_demo_catalog_def demo_defs)

theorem ingest_isolation_witness:
  "\<exists>outs st. run_ingest juicefs_next_batch juicefs_commit ''jfs'' [RootDir, Normal ''jfs''] ingest_demo_turns
       (ingest_start juice_demo_source ingest_demo_catalog ''jfs'') = (outs, st) \<and>
     fs_view ''lustre-a'' (ig_catalog st) = fs_view ''lustre-a'' ingest_demo_catalog \<and>
     catalog_ok (ig_catalog st)"
proof -
  obtain outs st where run: "run_ingest juicefs_next_batch juicefs_commit ''jfs''
      [RootDir, Normal ''jfs''] ingest_demo_turns
      (ingest_start juice_demo_source ingest_demo_catalog ''jfs'') = (outs, st)" by fastforce
  from ingest_isolation [OF run, of "''lustre-a''"] run ingest_demo_ok show ?thesis
    by (auto simp: ingest_demo_turns_def ingest_start_def)
qed

end
