(* ===== verification/Rbh_Actions.thy ===== *)
theory Rbh_Actions
  imports Rbh_Namespace Rbh_Apply
begin

text \<open>
  The filesystem-bound actions (\<open>crates/rbh-actions/src/backend.rs\<close>): purge, alert and
  backup of one entry, with the result recorded in the catalog.

  The live filesystem of a purge is an explicit store: which object each path names. Each
  system call acts on it atomically and may fail; between two calls other processes may
  change it in any way. What a system call deletes for good is recorded beside the result.
  The texts of errors and paths, the webhook and the backup tool are inputs.
\<close>

section \<open>Outcomes and errors\<close>

datatype BackendActionOutcome = AoSuccess | AlreadyMissing | AoFailed (ao_error: string) (ao_retryable: bool)

datatype ErrorKind =
    EkNotFound | EkInterrupted | EkWouldBlock | EkTimedOut | EkOutOfMemory | EkAlreadyExists
  | EkInvalidInput | EkOther

text \<open>The texts of system errors follow from their numbers and are left out.\<close>

datatype HsmOp = StateGet | StateSet | Request

datatype LustreApiError =
    LaFfi string int | LaHsm HsmOp int | NotALustreMount path | InactiveMdt string | RecordParse string
  | PathContainsNul | InvalidUtf8 | LaIo ErrorKind | IntegerOverflow string

datatype BackupError = BkIo ErrorKind | ToolFailed int string | ToolSignaled | BkConfig string

datatype ActionError =
    AeIo ErrorKind | AeHsm LustreApiError | AeStore StoreError | AeBackup BackupError
  | AeNotImplemented string | AeNoPath | AeCapability string | AeNamespace NamespaceError

definition retryable_io :: "ErrorKind \<Rightarrow> bool" where
  "retryable_io k = (k \<in> {EkInterrupted, EkWouldBlock, EkTimedOut, EkOutOfMemory})"

text \<open>\<open>io_kind\<close>: the kind of the input/output error met at a path.\<close>

fun namespace_retryable :: "(path \<Rightarrow> ErrorKind) \<Rightarrow> NamespaceError \<Rightarrow> bool" where
  "namespace_retryable io_kind (NsIo p) = retryable_io (io_kind p)"
| "namespace_retryable io_kind (NsStore _) = True"
| "namespace_retryable io_kind (MissingParent _) = True"
| "namespace_retryable io_kind (NsLustre _) = True"
| "namespace_retryable io_kind (WrongFilesystem _ _) = False"
| "namespace_retryable io_kind (OutsideFilesystem _ _) = False"
| "namespace_retryable io_kind (NsNotFound _) = False"
| "namespace_retryable io_kind (StalePath _) = False"
| "namespace_retryable io_kind (Cycle _) = False"
| "namespace_retryable io_kind (NsBackendMismatch _) = False"

fun backup_retryable :: "BackupError \<Rightarrow> bool" where
  "backup_retryable (BkIo k) = retryable_io k"
| "backup_retryable (ToolFailed c _) = (c = 75 \<or> c = 124)"
| "backup_retryable ToolSignaled = True"
| "backup_retryable (BkConfig _) = False"

definition alert_status_retryable :: "nat \<Rightarrow> bool" where
  "alert_status_retryable status = (500 \<le> status \<and> status < 600 \<or> status = 408 \<or> status = 429)"

section \<open>The live filesystem\<close>

type_synonym world = "path \<Rightarrow> ObjectId option"

type_synonym io = "ErrorKind + unit"

text \<open>\<open>renameat2\<close> with \<open>RENAME_NOREPLACE\<close>, and plain \<open>rename\<close>.\<close>

definition rename_noreplace :: "ErrorKind option \<Rightarrow> path \<Rightarrow> path \<Rightarrow> world \<Rightarrow> io \<times> world" where
  "rename_noreplace fault src dst w =
     (case fault of
        Some e \<Rightarrow> (Inl e, w)
      | None \<Rightarrow>
        (case w src of
           None \<Rightarrow> (Inl EkNotFound, w)
         | Some x \<Rightarrow>
             if w dst \<noteq> None then (Inl EkAlreadyExists, w)
             else (Inr (), w(src := None, dst := Some x))))"

definition sys_rename :: "ErrorKind option \<Rightarrow> path \<Rightarrow> path \<Rightarrow> world \<Rightarrow> io \<times> world" where
  "sys_rename fault src dst w =
     (case fault of
        Some e \<Rightarrow> (Inl e, w)
      | None \<Rightarrow>
        (case w src of
           None \<Rightarrow> (Inl EkNotFound, w)
         | Some x \<Rightarrow> (Inr (), w(src := None, dst := Some x))))"

text \<open>\<open>remove_file\<close> and \<open>remove_dir\<close>: the object named is deleted.\<close>

definition sys_remove :: "ErrorKind option \<Rightarrow> path \<Rightarrow> world \<Rightarrow> io \<times> world \<times> ObjectId list" where
  "sys_remove fault p w =
     (case fault of
        Some e \<Rightarrow> (Inl e, w, [])
      | None \<Rightarrow>
        (case w p of
           None \<Rightarrow> (Inl EkNotFound, w, [])
         | Some x \<Rightarrow> (Inr (), w(p := None), [x])))"

section \<open>Capture, verify, remove\<close>

text \<open>
  The inputs of a purge: the name of the quarantine entry, the faults of the system calls,
  and what other processes do before the capture, before the check, before the removal
  and before the restore. \<open>pu_einval\<close>: the backend does not know \<open>RENAME_NOREPLACE\<close>.
\<close>

record PurgeEnv =
  pu_quarantine :: string
  pu_einval :: bool
  pu_capture_fault :: "ErrorKind option"
  pu_check_fault :: "ErrorKind option"
  pu_remove_fault :: "ErrorKind option"
  pu_restore_fault :: "ErrorKind option"
  pu_before_capture :: "world \<Rightarrow> world"
  pu_before_check :: "world \<Rightarrow> world"
  pu_before_remove :: "world \<Rightarrow> world"
  pu_before_restore :: "world \<Rightarrow> world"

definition capture_name :: "PurgeEnv \<Rightarrow> path \<Rightarrow> path \<Rightarrow> BackendKind \<Rightarrow> world \<Rightarrow> io \<times> world" where
  "capture_name env src dst backend w =
     (if pu_einval env then
        (if backend = Lustre then sys_rename (pu_capture_fault env) src dst w
         else (Inl EkInvalidInput, w))
      else rename_noreplace (pu_capture_fault env) src dst w)"

text \<open>
  The identity of a captured object: its inode on JuiceFS, its FID on Lustre, where every error
  of the lookup becomes one of no particular kind.
\<close>

definition captured_matches :: "PurgeEnv \<Rightarrow> BackendKind \<Rightarrow> EntryKey \<Rightarrow> path \<Rightarrow> world \<Rightarrow> ErrorKind + bool" where
  "captured_matches env backend key q w =
     (if backend \<noteq> object_backend (key_object key) then Inr False
      else
        (let kind = (\<lambda>e. case backend of Lustre \<Rightarrow> EkOther | JuiceFs \<Rightarrow> e)
         in case pu_check_fault env of
              Some e \<Rightarrow> Inl (kind e)
            | None \<Rightarrow>
              (case w q of
                 None \<Rightarrow> Inl (kind EkNotFound)
               | Some x \<Rightarrow> Inr (x = key_object key))))"

definition restore_name ::
  "PurgeEnv \<Rightarrow> path \<Rightarrow> path \<Rightarrow> ErrorKind \<Rightarrow> world \<Rightarrow> io \<times> world" where
  "restore_name env q p err w =
     (case rename_noreplace (pu_restore_fault env) q p (pu_before_restore env w) of
        (Inr _, w1) \<Rightarrow> (Inl err, w1)
      | (Inl _, w1) \<Rightarrow> (Inl EkWouldBlock, w1))"

definition quarantine_path :: "PurgeEnv \<Rightarrow> path \<Rightarrow> path" where
  "quarantine_path env d = path_push d (''.rbh-purge-'' @ pu_quarantine env)"

definition capture_verify_and_remove ::
  "PurgeEnv \<Rightarrow> BackendKind \<Rightarrow> path \<Rightarrow> EntryKey \<Rightarrow> world \<Rightarrow> io \<times> world \<times> ObjectId list" where
  "capture_verify_and_remove env backend p key w =
     (case path_parent p of
        None \<Rightarrow> (Inl EkOther, w, [])
      | Some d \<Rightarrow>
        (let q = quarantine_path env d in
         case capture_name env p q backend (pu_before_capture env w) of
           (Inl e, w1) \<Rightarrow> (Inl e, w1, [])
         | (Inr _, w1) \<Rightarrow>
           (let w2 = pu_before_check env w1 in
            case captured_matches env backend key q w2 of
              Inl e \<Rightarrow> (Inl e, w2, [])
            | Inr False \<Rightarrow> (let (r, w3) = restore_name env q p EkWouldBlock w2 in (r, w3, []))
            | Inr True \<Rightarrow>
              (case sys_remove (pu_remove_fault env) q (pu_before_remove env w2) of
                 (Inr _, w3, gone) \<Rightarrow> (Inr (), w3, gone)
               | (Inl e, w3, gone) \<Rightarrow> (let (r, w4) = restore_name env q p e w3 in (r, w4, gone))))))"

section \<open>Recording results\<close>

definition json_obj :: "(string \<times> json) list \<Rightarrow> json" where
  "json_obj kvs = JObj (foldl (\<lambda>m (k, v). json_insert k v m) [] kvs)"

record ActEnv =
  ac_now :: i64
  ac_io_kind :: "path \<Rightarrow> ErrorKind"
  ac_display :: "NamespaceError \<Rightarrow> string"
  ac_path_text :: "path \<Rightarrow> string"

definition lift_action :: "'a result \<Rightarrow> (ActionError + 'a) \<times> Catalog" where
  "lift_action r = (case r of (Inl e, c) \<Rightarrow> (Inl (AeStore e), c) | (Inr x, c) \<Rightarrow> (Inr x, c))"

definition persist_failure ::
  "ActEnv \<Rightarrow> Catalog \<Rightarrow> EntryKey \<Rightarrow> string \<Rightarrow> string \<Rightarrow> bool \<Rightarrow> (ActionError + unit) \<times> Catalog" where
  "persist_failure env c key action err retryable =
     (case lift_action (patch_scoped_sm_status c (ac_now env) key
         (json_obj [(''action'', json_obj
           [(''kind'', JStr action), (''state'', JStr ''failed''), (''error'', JStr err),
            (''retryable'', JBool retryable), (''updated_at'', JNum (ac_now env))])])) of
        (Inl e, c1) \<Rightarrow> (Inl e, c1)
      | (Inr _, c1) \<Rightarrow> (Inr (), c1))"

definition persist_unlink ::
  "ActEnv \<Rightarrow> Catalog \<Rightarrow> ScopedEntryRow \<Rightarrow> ObjectId \<Rightarrow> bytes \<Rightarrow> string \<Rightarrow> (ActionError + unit) \<times> Catalog" where
  "persist_unlink env c entry par n state =
     (case lift_action (patch_scoped_sm_status c (ac_now env) (se_key entry)
         (json_obj [(''action'', json_obj
           [(''kind'', JStr ''purge''), (''state'', JStr state), (''updated_at'', JNum (ac_now env))])])) of
        (Inl e, c1) \<Rightarrow> (Inl e, c1)
      | (Inr _, c1) \<Rightarrow>
          lift_action (apply_scoped_unlink c1 (se_key entry) par n (ac_now env) (e_kind entry = Directory)))"

definition persist_missing ::
  "ActEnv \<Rightarrow> Catalog \<Rightarrow> ScopedEntryRow \<Rightarrow> (ActionError + unit) \<times> Catalog" where
  "persist_missing env c entry =
     (case se_parent entry of
        None \<Rightarrow> (Inr (), c)
      | Some par \<Rightarrow> persist_unlink env c entry (key_object par) (e_name entry) ''already_missing'')"

text \<open>A recorded failure: the outcome, unless recording it fails.\<close>

definition record_failed ::
  "ActEnv \<Rightarrow> Catalog \<Rightarrow> EntryKey \<Rightarrow> string \<Rightarrow> string \<Rightarrow> bool \<Rightarrow>
   (ActionError + BackendActionOutcome) \<times> Catalog" where
  "record_failed env c key action err retryable =
     (case persist_failure env c key action err retryable of
        (Inl e, c1) \<Rightarrow> (Inl e, c1)
      | (Inr _, c1) \<Rightarrow> (Inr (AoFailed err retryable), c1))"

section \<open>The actions\<close>

record ActionBackend =
  ab_filesystem :: string
  ab_backend :: BackendKind
  ab_mount_path :: string
  ab_purge_capable :: bool
  ab_namespace :: FileSystemConfig

definition action_backend_new :: "Catalog \<Rightarrow> string \<Rightarrow> ActionError + ActionBackend" where
  "action_backend_new c fs =
     (case get_filesystem c fs of
        None \<Rightarrow> Inl (AeCapability (''unknown filesystem: '' @ fs))
      | Some config \<Rightarrow>
        (case adapter_new c fs of
           Inl e \<Rightarrow> Inl (AeNamespace e)
         | Inr a \<Rightarrow>
             Inr \<lparr>ab_filesystem = fs, ab_backend = fs_backend config,
                  ab_mount_path = mount_path config, ab_purge_capable = purge (capabilities config),
                  ab_namespace = na_config a\<rparr>))"

abbreviation ab_adapter :: "ActionBackend \<Rightarrow> Catalog \<Rightarrow> NamespaceAdapter" where
  "ab_adapter b c \<equiv> \<lparr>na_store = c, na_config = ab_namespace b\<rparr>"

text \<open>The recorded outcome of a finished capture.\<close>

definition finish_purge ::
  "ActEnv \<Rightarrow> Catalog \<Rightarrow> ScopedEntryRow \<Rightarrow> ObjectId \<Rightarrow> bytes \<Rightarrow> string \<Rightarrow> io \<Rightarrow>
   (ActionError + BackendActionOutcome) \<times> Catalog" where
  "finish_purge env c entry par n text r =
     (case r of
        Inr _ \<Rightarrow>
          (case persist_unlink env c entry par n ''success'' of
             (Inl e, c1) \<Rightarrow> (Inl e, c1)
           | (Inr _, c1) \<Rightarrow> (Inr AoSuccess, c1))
      | Inl EkNotFound \<Rightarrow>
          record_failed env c (se_key entry) ''purge''
            ''namespace target disappeared during atomic purge capture'' True
      | Inl k \<Rightarrow> record_failed env c (se_key entry) ''purge'' text (retryable_io k))"

text \<open>
  A purge on the catalog \<open>c\<close> and the live filesystem \<open>w\<close>. \<open>fs1\<close> and \<open>fs2\<close> are what the
  system calls answer during the two resolutions.
\<close>

definition execute_purge ::
  "ActEnv \<Rightarrow> PurgeEnv \<Rightarrow> FsEnv \<Rightarrow> FsEnv \<Rightarrow> string \<Rightarrow> ActionBackend \<Rightarrow> ScopedEntryRow \<Rightarrow> Catalog \<Rightarrow> world \<Rightarrow>
   ((ActionError + BackendActionOutcome) \<times> Catalog) \<times> world \<times> ObjectId list" where
  "execute_purge env pu fs1 fs2 text b entry c w =
     (if \<not> ab_purge_capable b
      then ((Inl (AeCapability ''purge''), c), w, [])
      else if key_filesystem (se_key entry) \<noteq> ab_filesystem b \<or>
              object_backend (key_object (se_key entry)) \<noteq> ab_backend b
      then ((Inl (AeCapability ''entry''), c), w, [])
      else (case resolve (ab_adapter b c) fs1 (TObject (se_key entry)) of
              Inl e \<Rightarrow>
                (if (case e of NsNotFound _ \<Rightarrow> True | StalePath _ \<Rightarrow> True | _ \<Rightarrow> False) then
                   (case persist_missing env c entry of
                      (Inl x, c1) \<Rightarrow> ((Inl x, c1), w, [])
                    | (Inr _, c1) \<Rightarrow> ((Inr AlreadyMissing, c1), w, []))
                 else (record_failed env c (se_key entry) ''purge'' (ac_display env e)
                         (namespace_retryable (ac_io_kind env) e), w, []))
            | Inr res \<Rightarrow>
              (case path_parent (rn_path res) of
                 None \<Rightarrow> ((Inl AeNoPath, c), w, [])
               | Some pp \<Rightarrow>
                 (case resolve (ab_adapter b c) fs2 (TPath pp) of
                    Inl e \<Rightarrow>
                      (record_failed env c (se_key entry) ''purge'' (ac_display env e)
                         (namespace_retryable (ac_io_kind env) e), w, [])
                  | Inr par \<Rightarrow>
                      if (case rev (rn_path res) of Normal _ # _ \<Rightarrow> False | _ \<Rightarrow> True)
                      then ((Inl AeNoPath, c), w, [])
                      else if ns_kind (rn_stat res) \<notin> {Directory, File, Symlink}
                      then (record_failed env c (se_key entry) ''purge'' text False, w, [])
                      else
                        (let (r, w1, gone) =
                           capture_verify_and_remove pu (ab_backend b) (rn_path res) (se_key entry) w
                         in (finish_purge env c entry (key_object (rn_key par)) (file_name (rn_path res)) text r,
                             w1, gone))))))"

definition record_success ::
  "ActEnv \<Rightarrow> Catalog \<Rightarrow> EntryKey \<Rightarrow> string \<Rightarrow> path \<Rightarrow> (ActionError + BackendActionOutcome) \<times> Catalog" where
  "record_success env c key action p =
     (case lift_action (patch_scoped_sm_status c (ac_now env) key
         (json_obj [(''action'', json_obj
           [(''kind'', JStr action), (''state'', JStr ''success''), (''path'', JStr (ac_path_text env p)),
            (''updated_at'', JNum (ac_now env))])])) of
        (Inl e, c1) \<Rightarrow> (Inl e, c1)
      | (Inr _, c1) \<Rightarrow> (Inr AoSuccess, c1))"

record BackendAlert =
  al_webhook :: "string option"
  al_log :: bool
  al_message :: "string option"

text \<open>What the webhook answered: a status, or a transport error that may be transient.\<close>

datatype delivery = HttpStatus nat | TransportError bool

fun delivery_failure :: "delivery \<Rightarrow> bool option" where
  "delivery_failure (HttpStatus s) =
     (if 200 \<le> s \<and> s < 300 then None else Some (alert_status_retryable s))"
| "delivery_failure (TransportError transient) = Some transient"

definition execute_alert ::
  "ActEnv \<Rightarrow> FsEnv \<Rightarrow> delivery \<Rightarrow> string \<Rightarrow> ActionBackend \<Rightarrow> ScopedEntryRow \<Rightarrow> BackendAlert \<Rightarrow> Catalog \<Rightarrow>
   (ActionError + BackendActionOutcome) \<times> Catalog" where
  "execute_alert env fs answer text b entry alert c =
     (case resolve (ab_adapter b c) fs (TObject (se_key entry)) of
        Inl e \<Rightarrow> record_failed env c (se_key entry) ''alert'' (ac_display env e)
                   (namespace_retryable (ac_io_kind env) e)
      | Inr res \<Rightarrow>
        (case (case al_webhook alert of None \<Rightarrow> None | Some url \<Rightarrow> delivery_failure answer) of
           Some retryable \<Rightarrow> record_failed env c (se_key entry) ''alert'' text retryable
         | None \<Rightarrow> record_success env c (se_key entry) ''alert'' (rn_path res)))"

text \<open>\<open>tool\<close>: the result of the backup tool for a source path; \<open>text\<close>: the text of its error.\<close>

definition execute_backup ::
  "ActEnv \<Rightarrow> FsEnv \<Rightarrow> (path \<Rightarrow> BackupError option) \<Rightarrow> (BackupError \<Rightarrow> string) \<Rightarrow> ActionBackend \<Rightarrow> ScopedEntryRow \<Rightarrow>
   Catalog \<Rightarrow> (ActionError + BackendActionOutcome) \<times> Catalog" where
  "execute_backup env fs tool text b entry c =
     (case resolve (ab_adapter b c) fs (TObject (se_key entry)) of
        Inl e \<Rightarrow> record_failed env c (se_key entry) ''backup'' (ac_display env e)
                   (namespace_retryable (ac_io_kind env) e)
      | Inr res \<Rightarrow>
        (case tool (rn_path res) of
           Some e \<Rightarrow> record_failed env c (se_key entry) ''backup'' (text e) (backup_retryable e)
         | None \<Rightarrow> record_success env c (se_key entry) ''backup'' (rn_path res)))"

section \<open>Lemmas\<close>

text \<open>
  The quarantine names are fresh, and other processes leave them alone: their random part
  is new for each purge.
\<close>

definition undisturbed :: "PurgeEnv \<Rightarrow> world \<Rightarrow> bool" where
  "undisturbed pu w \<longleftrightarrow>
     (\<forall>d v. pu_before_capture pu w (quarantine_path pu d) = None \<and>
        pu_before_check pu v (quarantine_path pu d) = v (quarantine_path pu d) \<and>
        pu_before_remove pu v (quarantine_path pu d) = v (quarantine_path pu d) \<and>
        pu_before_restore pu v (quarantine_path pu d) = v (quarantine_path pu d))"

lemma capture_name_cases:
  assumes "capture_name pu p q backend w = (r, w1)" and "w q = None"
  shows "(\<exists>e. r = Inl e \<and> w1 = w) \<or> (\<exists>x. r = Inr () \<and> w p = Some x \<and> p \<noteq> q \<and> w1 = w(p := None, q := Some x))"
  using assms by (auto simp: capture_name_def rename_noreplace_def sys_rename_def split: if_splits option.splits)

lemma restore_name_keeps:
  assumes "restore_name pu q p err w = (r, w1)" and "w q = Some x"
    and "pu_before_restore pu w q = w q"
  shows "(\<exists>e. r = Inl e) \<and> (w1 p = Some x \<or> w1 q = Some x)"
  using assms
  by (auto simp: restore_name_def rename_noreplace_def split: prod.splits sum.splits option.splits if_splits)

lemma capture_safe:
  assumes "undisturbed pu w" and run: "capture_verify_and_remove pu backend p key w = (r, w', gone)"
  shows "(r = Inr () \<and> gone = [key_object key]) \<or>
    ((\<exists>e. r = Inl e) \<and> gone = [] \<and>
      (\<forall>x d. path_parent p = Some d \<and> pu_before_capture pu w p = Some x \<longrightarrow>
        w' p = Some x \<or> w' (quarantine_path pu d) = Some x))"
proof (cases "path_parent p")
  case None
  with run show ?thesis by (auto simp: capture_verify_and_remove_def)
next
  case (Some d)
  define q where "q = quarantine_path pu d"
  define w0 where "w0 = pu_before_capture pu w"
  have q: "w0 q = None" "\<And>v. pu_before_check pu v q = v q" "\<And>v. pu_before_remove pu v q = v q"
    "\<And>v. pu_before_restore pu v q = v q"
    using assms(1) by (auto simp: undisturbed_def q_def w0_def)
  obtain r1 w1 where cap: "capture_name pu p q backend w0 = (r1, w1)" by fastforce
  from capture_name_cases [OF cap q(1)] show ?thesis
  proof
    assume "\<exists>e. r1 = Inl e \<and> w1 = w0"
    with run Some cap show ?thesis
      by (auto simp: capture_verify_and_remove_def Let_def q_def w0_def)
  next
    assume "\<exists>x. r1 = Inr () \<and> w0 p = Some x \<and> p \<noteq> q \<and> w1 = w0(p := None, q := Some x)"
    then obtain x where x: "r1 = Inr ()" "w0 p = Some x" "w1 q = Some x" by auto
    have w2: "pu_before_check pu w1 q = Some x" using q(2) x(3) by simp
    have w3: "pu_before_remove pu (pu_before_check pu w1) q = Some x" using q(3) w2 by simp
    have rest: "(\<exists>e. r2 = Inl e) \<and> (v1 p = Some x \<or> v1 q = Some x)"
      if "restore_name pu q p err v = (r2, v1)" "v q = Some x" for err v r2 v1
      using restore_name_keeps [OF that q(4)] .
    show ?thesis
    proof (cases "captured_matches pu backend key q (pu_before_check pu w1)")
      case (Inl e)
      with run Some cap x w2 show ?thesis
        by (auto simp: capture_verify_and_remove_def Let_def q_def w0_def)
    next
      case (Inr b)
      show ?thesis
      proof (cases b)
        case False
        obtain r2 v1 where v: "restore_name pu q p EkWouldBlock (pu_before_check pu w1) = (r2, v1)" by fastforce
        with run Some cap x Inr False have "(r, w', gone) = (r2, v1, [])"
          by (auto simp: capture_verify_and_remove_def Let_def q_def w0_def)
        with rest [OF v w2] Some x(2) show ?thesis by (auto simp: q_def w0_def)
      next
        case True
        with Inr w2 have target: "x = key_object key"
          by (auto simp: captured_matches_def split: if_splits option.splits)
        show ?thesis
        proof (cases "pu_remove_fault pu")
          case None
          with run Some cap x Inr True w3 target show ?thesis
            by (auto simp: capture_verify_and_remove_def Let_def sys_remove_def q_def w0_def)
        next
          case fault: (Some e)
          obtain r2 v1 where v: "restore_name pu q p e
              (pu_before_remove pu (pu_before_check pu w1)) = (r2, v1)" by fastforce
          with run Some cap x Inr True fault have "(r, w', gone) = (r2, v1, [])"
            by (auto simp: capture_verify_and_remove_def Let_def sys_remove_def q_def w0_def)
          with rest [OF v w3] Some x(2) show ?thesis by (auto simp: q_def w0_def)
        qed
      qed
    qed
  qed
qed

lemma lift_action_state [simp]: "snd (lift_action r) = snd r"
  by (auto simp: lift_action_def split: prod.splits sum.splits)

lemma writes_persist_failure:
  "key_filesystem key = fs \<Longrightarrow> writes fs c (snd (persist_failure env c key action err retryable))"
  using writes_store(7) [of key fs c]
  by (auto simp: persist_failure_def lift_action_def split: prod.splits sum.splits) (metis snd_conv)+

lemma writes_record_failed:
  "key_filesystem key = fs \<Longrightarrow> writes fs c (snd (record_failed env c key action err retryable))"
  using writes_persist_failure [of key fs c env action err retryable]
  by (auto simp: record_failed_def split: prod.splits sum.splits)

lemma writes_persist_unlink:
  assumes "key_filesystem (se_key entry) = fs"
  shows "writes fs c (snd (persist_unlink env c entry par n state))"
proof -
  obtain r c1 where p: "lift_action (patch_scoped_sm_status c (ac_now env) (se_key entry)
     (json_obj [(''action'', json_obj
       [(''kind'', JStr ''purge''), (''state'', JStr state), (''updated_at'', JNum (ac_now env))])])) = (r, c1)"
    by fastforce
  then have w1: "writes fs c c1" using writes_store(7) [OF assms] lift_action_state by (metis snd_conv)
  from p w1 writes_trans [OF writes_store(9) [OF assms] w1] show ?thesis
    by (cases r) (auto simp: persist_unlink_def)
qed

lemma writes_persist_missing:
  "key_filesystem (se_key entry) = fs \<Longrightarrow> writes fs c (snd (persist_missing env c entry))"
  by (auto simp: persist_missing_def intro: idle writes_persist_unlink split: option.splits)

lemma record_failed_outcome: "fst (record_failed env c key action err retryable) \<noteq> Inr AoSuccess"
  by (auto simp: record_failed_def split: prod.splits sum.splits)

lemma record_failed_cases:
  "record_failed env c key action err retryable = (res, c1) \<Longrightarrow> res \<noteq> Inr AoSuccess \<and> res \<noteq> Inr AlreadyMissing"
  by (auto simp: record_failed_def split: prod.splits sum.splits)

lemma finish_purge_cases:
  assumes "finish_purge env c entry par n text r = (res, c1)"
  shows "writes (key_filesystem (se_key entry)) c c1 \<and> res \<noteq> Inr AlreadyMissing \<and>
    (r = Inr () \<longrightarrow> res = Inr AoSuccess \<or> (\<exists>e. res = Inl e)) \<and> (r \<noteq> Inr () \<longrightarrow> res \<noteq> Inr AoSuccess)"
proof (cases r)
  case (Inr u)
  with assms writes_persist_unlink [of entry "key_filesystem (se_key entry)" c env par n "''success''"]
  show ?thesis by (auto simp: finish_purge_def split: prod.splits sum.splits)
next
  case (Inl k)
  then obtain err t where "record_failed env c (se_key entry) ''purge'' err t = (res, c1)"
    using assms by (cases k) (auto simp: finish_purge_def)
  with Inl writes_record_failed [of "se_key entry" "key_filesystem (se_key entry)" c env "''purge''" err t]
    record_failed_cases [of env c "se_key entry" "''purge''" err t res c1]
  show ?thesis by auto
qed

text \<open>What a purge can report about what it removed.\<close>

definition purge_ok :: "EntryKey \<Rightarrow> ActionError + BackendActionOutcome \<Rightarrow> ObjectId list \<Rightarrow> bool" where
  "purge_ok key res gone \<longleftrightarrow>
     (gone = [] \<or> gone = [key_object key]) \<and>
     (res = Inr AoSuccess \<longrightarrow> gone = [key_object key]) \<and>
     (\<forall>x. res = Inr x \<and> x \<noteq> AoSuccess \<longrightarrow> gone = [])"

lemma purge_cases:
  assumes un: "undisturbed pu w" and fs: "key_filesystem (se_key entry) = ab_filesystem b"
    and run: "execute_purge env pu fs1 fs2 text b entry c w = ((res, c'), w', gone)"
  shows "writes (ab_filesystem b) c c' \<and> purge_ok (se_key entry) res gone"
proof -
  have recorded: "writes (ab_filesystem b) c c' \<and> purge_ok (se_key entry) res []"
    if "record_failed env c (se_key entry) ''purge'' err t = (res, c')" for err t
    using that record_failed_cases [OF that] writes_record_failed [OF fs, of c env "''purge''" err t]
    by (auto simp: purge_ok_def)
  consider (none) "gone = []" "res \<noteq> Inr AoSuccess" "writes (ab_filesystem b) c c'"
    | (failed) err t where "record_failed env c (se_key entry) ''purge'' err t = (res, c')" "gone = []"
    | (captured) p n par r where "capture_verify_and_remove pu (ab_backend b) p (se_key entry) w = (r, w', gone)"
        "finish_purge env c entry par n text r = (res, c')"
  proof (cases "resolve (ab_adapter b c) fs1 (TObject (se_key entry))")
    case (Inl e)
    have "writes (ab_filesystem b) c (snd (persist_missing env c entry))"
      by (rule writes_persist_missing [OF fs])
    with run Inl that idle [of "ab_filesystem b" c] show thesis
      by (auto simp: execute_purge_def split: if_splits prod.splits sum.splits)
  next
    case (Inr r)
    with run that idle [of "ab_filesystem b" c] show thesis
      by (auto simp: execute_purge_def Let_def split: if_splits option.splits sum.splits prod.splits)
  qed
  then show ?thesis
  proof cases
    case none
    then show ?thesis by (auto simp: purge_ok_def)
  next
    case (failed err t)
    with recorded [OF failed(1)] show ?thesis by simp
  next
    case (captured p n par r)
    from capture_safe [OF un captured(1)] finish_purge_cases [OF captured(2)] fs show ?thesis
      by (auto simp: purge_ok_def)
  qed
qed

text \<open>
  If the library reports absolute paths for identifiers, a purge on Lustre never removes
  anything: it takes the entry for missing and records that.
\<close>

lemma purge_lustre_absolute:
  assumes "ab_purge_capable b" and "se_key entry = EntryKey (ab_filesystem b) (OLustre f)"
    and "ab_backend b = Lustre" and "fs_backend (ab_namespace b) = Lustre"
    and "fs_id (ab_namespace b) = ab_filesystem b" and "fid_to_path fs1 f = Some (RootDir # rest)"
  shows "execute_purge env pu fs1 fs2 text b entry c w =
    (case persist_missing env c entry of
       (Inl x, c1) \<Rightarrow> ((Inl x, c1), w, []) | (Inr _, c1) \<Rightarrow> ((Inr AlreadyMissing, c1), w, []))"
  using assms by (simp add: execute_purge_def resolve_def resolve_lustre_def lustre_target_def check_key_def)

section \<open>Properties\<close>

text \<open>
  C4: a purge removes the object of the catalog entry or nothing, whichever system call fails
  and whatever other processes rename or replace meanwhile, except under the random quarantine
  name, which is assumed to be unused and left alone. The only object a purge can delete is the
  one whose identity the catalog recorded. Success is reported only when it was deleted, and an
  entry reported as missing or failed was not deleted; only an error value, as after a failed
  write to the catalog, leaves open whether the object is gone. Rows of other filesystems are not
  touched.
\<close>

theorem purge_safe:
  assumes "undisturbed pu w"
    and "execute_purge env pu fs1 fs2 text b entry c w = ((res, c'), w', gone)"
  shows "(gone = [] \<or> gone = [key_object (se_key entry)]) \<and>
    (res = Inr AoSuccess \<longrightarrow> gone = [key_object (se_key entry)]) \<and>
    (\<forall>x. res = Inr x \<and> x \<noteq> AoSuccess \<longrightarrow> gone = []) \<and>
    (g \<noteq> ab_filesystem b \<longrightarrow> fs_view g c' = fs_view g c)"
proof (cases "key_filesystem (se_key entry) = ab_filesystem b")
  case True
  from purge_cases [OF assms(1) True assms(2)] writes_view [of "ab_filesystem b" c c' g] show ?thesis
    by (auto simp: purge_ok_def)
next
  case False
  with assms(2) show ?thesis by (auto simp: execute_purge_def split: if_splits)
qed

definition purge_demo_fs :: FsEnv where
  "purge_demo_fs =
     \<lparr>symlink_metadata = (\<lambda>p. Some ((demo_metadata 7)\<lparr>md_kind := File\<rparr>)), canonicalize = Some,
      fid_to_path = (\<lambda>_. Some [Normal ''f'']), path_to_fid = (\<lambda>_. Some (er_fid sample_attrs))\<rparr>"

definition purge_demo_env :: PurgeEnv where
  "purge_demo_env = \<lparr>pu_quarantine = ''0'', pu_einval = False, pu_capture_fault = None,
     pu_check_fault = None, pu_remove_fault = None, pu_restore_fault = None,
     pu_before_capture = id, pu_before_check = id, pu_before_remove = id, pu_before_restore = id\<rparr>"

definition purge_demo_act :: ActEnv where
  "purge_demo_act = \<lparr>ac_now = 5, ac_io_kind = (\<lambda>_. EkOther), ac_display = (\<lambda>_. []), ac_path_text = (\<lambda>_. [])\<rparr>"

definition purge_demo_backend :: ActionBackend where
  "purge_demo_backend = projr (action_backend_new hsm_demo_catalog ''lustre-a'')"

abbreviation purge_demo_path :: path where
  "purge_demo_path \<equiv> [RootDir, Normal ''mnt'', Normal ''a'', Normal ''f'']"

definition purge_demo_world :: world where
  "purge_demo_world = (\<lambda>p. None)(purge_demo_path := Some (OLustre (er_fid sample_attrs)))"

lemma purge_demo_backend_simps:
  "ab_filesystem purge_demo_backend = ''lustre-a''" "ab_backend purge_demo_backend = Lustre"
  "ab_purge_capable purge_demo_backend" "fs_backend (ab_namespace purge_demo_backend) = Lustre"
  "fs_id (ab_namespace purge_demo_backend) = ''lustre-a''"
  "path_of (mount_path (ab_namespace purge_demo_backend)) = [RootDir, Normal ''mnt'', Normal ''a'']"
  by (simp_all add: purge_demo_backend_def action_backend_new_def adapter_new_def get_filesystem_def
      hsm_demo_catalog_def demo_catalog_def path_of_def is_absolute_def segments_def segment_def)

lemma purge_demo_undisturbed: "undisturbed purge_demo_env purge_demo_world"
proof -
  have "quarantine_path purge_demo_env d \<noteq> purge_demo_path" for d
  proof -
    have "last (quarantine_path purge_demo_env d) = Normal ''.rbh-purge-0''"
      by (simp add: quarantine_path_def purge_demo_env_def path_push_def is_absolute_def path_of_def
          segments_def segment_def)
    then show ?thesis by force
  qed
  then show ?thesis by (simp add: undisturbed_def purge_demo_env_def purge_demo_world_def)
qed

lemma purge_demo_resolve:
  "resolve (ab_adapter purge_demo_backend c) purge_demo_fs
     (TObject (EntryKey ''lustre-a'' (OLustre (er_fid sample_attrs)))) =
   Inr \<lparr>rn_key = EntryKey ''lustre-a'' (OLustre (er_fid sample_attrs)), rn_path = purge_demo_path,
        rn_stat = \<lparr>ns_kind = File, ns_size = 0, ns_nlink = 2, ns_inode = 7\<rparr>\<rparr>"
  "resolve (ab_adapter purge_demo_backend c) purge_demo_fs (TPath [RootDir, Normal ''mnt'', Normal ''a'']) =
   Inr \<lparr>rn_key = EntryKey ''lustre-a'' (OLustre (er_fid sample_attrs)),
        rn_path = [RootDir, Normal ''mnt'', Normal ''a''],
        rn_stat = \<lparr>ns_kind = File, ns_size = 0, ns_nlink = 2, ns_inode = 7\<rparr>\<rparr>"
  by (simp_all add: resolve_def resolve_lustre_def lustre_target_def check_key_def relative_path_def
      purge_demo_backend_simps purge_demo_fs_def path_join_def path_strip_prefix_def path_parent_def
      ns_stat_path_def demo_metadata_def)

theorem purge_safe_witness:
  "\<exists>c' w'. execute_purge purge_demo_act purge_demo_env purge_demo_fs purge_demo_fs [] purge_demo_backend
       (from_lustre ''lustre-a'' sample_attrs) hsm_demo_catalog purge_demo_world =
       ((Inr AoSuccess, c'), w', [OLustre (er_fid sample_attrs)]) \<and> w' purge_demo_path = None"
proof -
  let ?e = "from_lustre ''lustre-a'' sample_attrs"
  obtain res c' w' gone where run: "execute_purge purge_demo_act purge_demo_env purge_demo_fs purge_demo_fs []
      purge_demo_backend ?e hsm_demo_catalog purge_demo_world = ((res, c'), w', gone)" by (metis prod.collapse)
  have key: "se_key ?e = EntryKey ''lustre-a'' (OLustre (er_fid sample_attrs))" by (simp add: from_lustre_def)
  have "\<exists>w1 g. capture_verify_and_remove purge_demo_env Lustre purge_demo_path
      (EntryKey ''lustre-a'' (OLustre (er_fid sample_attrs))) purge_demo_world = (Inr (), w1, g) \<and>
      w1 purge_demo_path = None"
    by (simp add: capture_verify_and_remove_def path_parent_def quarantine_path_def purge_demo_env_def
        path_push_def is_absolute_def segments_def segment_def capture_name_def rename_noreplace_def
        purge_demo_world_def captured_matches_def sys_remove_def)
  moreover have "\<exists>c1. finish_purge purge_demo_act hsm_demo_catalog ?e par n t (Inr ()) = (Inr AoSuccess, c1)" for par n t
    by (simp add: finish_purge_def persist_unlink_def lift_action_def patch_scoped_sm_status_def
        get_scoped_entry_def hsm_demo_catalog_def demo_catalog_def empty_catalog_def from_lustre_def
        sample_attrs_def upsert_scoped_entry_def backend_mismatch_def get_filesystem_def in_tx_def
        upsert_scoped_entry_tx_def fk_ok_def apply_scoped_unlink_def)
  ultimately have "res = Inr AoSuccess \<and> w' purge_demo_path = None"
    using run by (auto simp: execute_purge_def purge_demo_backend_simps key purge_demo_resolve path_parent_def)
      (metis prod.inject)+
  with purge_safe [OF purge_demo_undisturbed run] run key show ?thesis by auto
qed

text \<open>
  C15: a purge that does not succeed loses nothing: the object that was at the path when it
  was captured is still there or under the quarantine name, also when the removal or the
  restore fails or races with another process.
\<close>

theorem purge_preserves:
  assumes "undisturbed pu w" and "path_parent p = Some d" and "pu_before_capture pu w p = Some x"
    and "capture_verify_and_remove pu backend p key w = (Inl e, w', gone)"
  shows "gone = [] \<and> (w' p = Some x \<or> w' (quarantine_path pu d) = Some x)"
  using capture_safe [OF assms(1,4)] assms(2,3) by auto

theorem purge_preserves_witness:
  "\<exists>e w'. capture_verify_and_remove (purge_demo_env\<lparr>pu_remove_fault := Some EkOther\<rparr>) Lustre purge_demo_path
       (EntryKey ''lustre-a'' (OLustre (er_fid sample_attrs))) purge_demo_world = (Inl e, w', []) \<and>
     (w' purge_demo_path = Some (OLustre (er_fid sample_attrs)) \<or>
      w' (quarantine_path (purge_demo_env\<lparr>pu_remove_fault := Some EkOther\<rparr>) [RootDir, Normal ''mnt'', Normal ''a'']) =
        Some (OLustre (er_fid sample_attrs)))"
proof -
  let ?pu = "purge_demo_env\<lparr>pu_remove_fault := Some EkOther\<rparr>"
  have un: "undisturbed ?pu purge_demo_world"
    using purge_demo_undisturbed by (simp add: undisturbed_def quarantine_path_def)
  have "\<exists>e w1 g. capture_verify_and_remove ?pu Lustre purge_demo_path
      (EntryKey ''lustre-a'' (OLustre (er_fid sample_attrs))) purge_demo_world = (Inl e, w1, g)"
    by (simp add: capture_verify_and_remove_def path_parent_def quarantine_path_def purge_demo_env_def
        path_push_def is_absolute_def segments_def segment_def capture_name_def rename_noreplace_def
        purge_demo_world_def captured_matches_def sys_remove_def restore_name_def)
  then obtain e w1 g where run: "capture_verify_and_remove ?pu Lustre purge_demo_path
      (EntryKey ''lustre-a'' (OLustre (er_fid sample_attrs))) purge_demo_world = (Inl e, w1, g)" by blast
  have "path_parent purge_demo_path = Some [RootDir, Normal ''mnt'', Normal ''a'']"
    "pu_before_capture ?pu purge_demo_world purge_demo_path = Some (OLustre (er_fid sample_attrs))"
    by (simp_all add: path_parent_def purge_demo_env_def purge_demo_world_def)
  from purge_preserves [OF un this run] run show ?thesis by auto
qed

end
