(* ===== verification/Rbh_Executor.thy ===== *)
theory Rbh_Executor
  imports Rbh_Actions
begin

text \<open>
  The Lustre action executors (\<open>crates/rbh-actions/src/executor.rs\<close>): purge, the four HSM
  actions, external backup tools (\<open>crates/rbh-backup\<close>), commands and alerts; and the HSM
  request builder (\<open>crates/lustre-api/src/hsm.rs\<close>).

  An execution gives its result and the list of its effects: the paths it removed, the HSM
  requests it submitted, the tools it ran and the webhooks it called. What the system
  answers (liblustreapi, the unlinks, the processes and the webhook) is an input. The text
  of a path is an input too, because paths are lists of components here.
\<close>

section \<open>Templates\<close>

text \<open>\<open>str::replace\<close> for a pattern that is not empty.\<close>

fun str_replace :: "string \<Rightarrow> string \<Rightarrow> string \<Rightarrow> string" where
  "str_replace pat new [] = []"
| "str_replace pat new (c # cs) =
     (if prefix pat (c # cs) then new @ str_replace pat new (drop (length pat - 1) cs)
      else c # str_replace pat new cs)"

definition placeholder :: "string \<Rightarrow> string" where
  "placeholder key = ''{'' @ key @ ''}''"

text \<open>A chain of replacements, one placeholder after the other.\<close>

definition replace_all :: "(string \<times> string) list \<Rightarrow> string \<Rightarrow> string" where
  "replace_all subst template = foldl (\<lambda>out (k, v). str_replace (placeholder k) v out) template subst"

definition signed_str :: "int \<Rightarrow> string" where
  "signed_str i = (if i < 0 then ''-'' @ dec_str (nat (- i)) else dec_str (nat i))"

text \<open>The debug form of a duration of whole seconds, and of an optional exit code.\<close>

definition secs_debug :: "u64 \<Rightarrow> string" where
  "secs_debug t = (if t = 0 then ''0ns'' else dec_str (unat t) @ ''s'')"

fun code_debug :: "int option \<Rightarrow> string" where
  "code_debug None = ''None''"
| "code_debug (Some c) = ''Some('' @ signed_str c @ '')''"

section \<open>HSM requests\<close>

datatype HsmAction = HaNone | HaArchive | HaRestore | HaRelease | HaRemove | HaCancel

record HsmUserStateInfo =
  hu_states :: "HsmState set"
  hu_archive_id :: u32
  in_progress_state :: u32
  in_progress_action :: u32

record HsmRequestBuilder =
  hb_action :: HsmAction
  hb_archive_id :: u32
  hb_flags :: u64
  hb_fids :: "LuFid list"
  hb_data :: bytes

definition hsm_request_new :: "HsmAction \<Rightarrow> HsmRequestBuilder" where
  "hsm_request_new act = \<lparr>hb_action = act, hb_archive_id = 0, hb_flags = 0, hb_fids = [], hb_data = []\<rparr>"

definition hsm_add_fid :: "LuFid \<Rightarrow> HsmRequestBuilder \<Rightarrow> HsmRequestBuilder" where
  "hsm_add_fid f b = b\<lparr>hb_fids := hb_fids b @ [f]\<rparr>"

text \<open>What is handed to the library: the header, the items with their extents and the data.\<close>

record HsmRequest =
  hr_action :: HsmAction
  hr_archive_id :: u32
  hr_flags :: u64
  hr_itemcount :: u32
  hr_data_len :: u32
  hr_items :: "(LuFid \<times> u64 \<times> u64) list"
  hr_data :: bytes

definition to_u32 :: "string \<Rightarrow> nat \<Rightarrow> LustreApiError + u32" where
  "to_u32 what n = (if n < 2 ^ 32 then Inr (word_of_nat n) else Inl (IntegerOverflow what))"

definition check_rc_hsm :: "int \<Rightarrow> HsmOp \<Rightarrow> LustreApiError option" where
  "check_rc_hsm rc op = (if rc < 0 then Some (LaHsm op (- rc)) else None)"

text \<open>\<open>llapi\<close>: the return code of the library for a request on a mount point.\<close>

definition hsm_submit ::
  "(string \<Rightarrow> HsmRequest \<Rightarrow> int) \<Rightarrow> HsmRequestBuilder \<Rightarrow> string \<Rightarrow> LustreApiError option \<times> HsmRequest list" where
  "hsm_submit llapi b mount =
     (case to_u32 ''hr_itemcount'' (length (hb_fids b)) of
        Inl e \<Rightarrow> (Some e, [])
      | Inr n \<Rightarrow>
        (case to_u32 ''hr_data_len'' (length (hb_data b)) of
           Inl e \<Rightarrow> (Some e, [])
         | Inr l \<Rightarrow>
             if CHR 0x00 \<in> set mount then (Some PathContainsNul, [])
             else
               (let r = \<lparr>hr_action = hb_action b, hr_archive_id = hb_archive_id b, hr_flags = hb_flags b,
                         hr_itemcount = n, hr_data_len = l,
                         hr_items = map (\<lambda>f. (f, 0, - 1)) (hb_fids b), hr_data = hb_data b\<rparr>
                in (check_rc_hsm (llapi mount r) Request, [r]))))"

section \<open>Backup tools\<close>

datatype BackupOp = BkArchive | BkRestore | BkRemove

fun backup_verb :: "BackupOp \<Rightarrow> string" where
  "backup_verb BkArchive = ''ARCHIVE''"
| "backup_verb BkRestore = ''RESTORE''"
| "backup_verb BkRemove = ''REMOVE''"

text \<open>An invocation, with its paths as texts.\<close>

record ToolInvocation =
  ti_op :: BackupOp
  ti_src :: string
  ti_dest :: "string option"
  ti_hints :: "string option"
  ti_archive_id :: u32

record CommandBackupAdapter =
  ba_command :: string
  ba_args_template :: "string list"
  ba_timeout :: "u64 option"

record BackupCommandConfig =
  bc_command :: string
  bc_args :: "string list option"
  bc_timeout_secs :: "u64 option"
  bc_dest_template :: "string option"

definition backup_build :: "BackupCommandConfig \<Rightarrow> CommandBackupAdapter" where
  "backup_build cfg =
     \<lparr>ba_command = bc_command cfg,
      ba_args_template = (case bc_args cfg of None \<Rightarrow> [''{verb}'', ''{src}'', ''{dest}'', ''{hints}''] | Some a \<Rightarrow> a),
      ba_timeout = bc_timeout_secs cfg\<rparr>"

definition backup_subst :: "string \<Rightarrow> ToolInvocation \<Rightarrow> (string \<times> string) list" where
  "backup_subst verb call =
     [(''verb'', verb), (''src'', ti_src call),
      (''dest'', case ti_dest call of None \<Rightarrow> [] | Some d \<Rightarrow> d),
      (''hints'', case ti_hints call of None \<Rightarrow> [] | Some h \<Rightarrow> h),
      (''archive_id'', dec_str (unat (ti_archive_id call)))]"

definition backup_render_arg :: "string \<Rightarrow> string \<Rightarrow> ToolInvocation \<Rightarrow> string" where
  "backup_render_arg template verb call = replace_all (backup_subst verb call) template"

text \<open>
  What became of a process: it could not be started, or it was started, and ended before the
  timeout or not, with an error of the wait or with a code (none when killed) and a
  diagnostic.
\<close>

datatype process = SpawnFailed ErrorKind | Started bool "ErrorKind + int option \<times> bytes"

fun backup_exit :: "ErrorKind + int option \<times> bytes \<Rightarrow> BackupError option" where
  "backup_exit (Inl e) = Some (BkIo e)"
| "backup_exit (Inr (None, err)) = Some ToolSignaled"
| "backup_exit (Inr (Some c, err)) =
     (if c = 0 then None else Some (ToolFailed c (trim (from_utf8_lossy err))))"

fun backup_result :: "u64 option \<Rightarrow> process \<Rightarrow> BackupError option" where
  "backup_result timeout (SpawnFailed e) = Some (BkIo e)"
| "backup_result timeout (Started in_time out) =
     (case timeout of
        Some t \<Rightarrow>
          if in_time then backup_exit out else Some (ToolFailed 124 (''timeout after '' @ secs_debug t))
      | None \<Rightarrow> backup_exit out)"

text \<open>\<open>tool\<close>: how the system runs a command with its arguments. The second part is what was run.\<close>

definition backup_run ::
  "(string \<Rightarrow> string list \<Rightarrow> process) \<Rightarrow> CommandBackupAdapter \<Rightarrow> ToolInvocation \<Rightarrow>
   BackupError option \<times> string \<times> string list" where
  "backup_run tool a call =
     (let rendered = map (\<lambda>arg. backup_render_arg arg (backup_verb (ti_op call)) call) (ba_args_template a)
      in (backup_result (ba_timeout a) (tool (ba_command a) rendered), ba_command a, rendered))"

section \<open>Executors\<close>

datatype ActionOutcome = ExSuccess | ExSkipped string | ExFailed string

record BackupExecutor =
  bx_adapter :: CommandBackupAdapter
  bx_op :: BackupOp
  bx_archive_id :: u32
  bx_hints :: "string option"
  bx_dest_template :: "string option"

record CmdExecutor =
  cx_command :: string
  cx_args_template :: "string list"
  cx_timeout :: "u64 option"
  cx_vars :: "(string \<times> string) list"

record AlertExecutor =
  ax_webhook :: "string option"
  ax_log :: bool
  ax_message :: "string option"

text \<open>The implementations of \<open>ActionExecutor\<close>.\<close>

datatype Executor =
    PurgeExecutor
  | HsmArchiveExecutor u32 "bytes option"
  | HsmReleaseExecutor
  | HsmRestoreExecutor
  | HsmRemoveExecutor
  | BackupX BackupExecutor
  | CmdX CmdExecutor
  | AlertX AlertExecutor
  | DryRunExecutor

record ExecEnv =
  ex_mount :: path
  ex_text :: "path \<Rightarrow> string"
  ex_fid_to_path :: "LuFid \<Rightarrow> path option"
  ex_hsm_state :: "path \<Rightarrow> LustreApiError + HsmUserStateInfo"
  ex_llapi :: "string \<Rightarrow> HsmRequest \<Rightarrow> int"
  ex_remove_file :: "path \<Rightarrow> io"
  ex_remove_dir :: "path \<Rightarrow> io"
  ex_tool :: "string \<Rightarrow> string list \<Rightarrow> process"
  ex_webhook :: "string \<Rightarrow> json \<Rightarrow> string option"

datatype effect =
    Removed path
  | Submitted HsmRequest
  | Ran string "string list"
  | Posted string json
  | Logged LuFid u64 u32 string

text \<open>Writing a log record is the action of an alert that has no webhook.\<close>

fun logged :: "effect \<Rightarrow> bool" where
  "logged (Logged _ _ _ _) = True"
| "logged _ = False"

datatype ExecResult = ExDone ActionOutcome | ExError ActionError | ExPanic

definition resolve_real_path :: "ExecEnv \<Rightarrow> LuFid \<Rightarrow> path option" where
  "resolve_real_path env f =
     map_option (path_join (ex_mount env)) (ex_fid_to_path env f)"

definition stripped_fid :: "LuFid \<Rightarrow> string" where
  "stripped_fid f =
     rev (dropWhile (\<lambda>c. c = CHR '']'') (rev (dropWhile (\<lambda>c. c = CHR ''['') (fid_to_string f))))"

definition fid_vpath :: "path \<Rightarrow> LuFid \<Rightarrow> path" where
  "fid_vpath mount f = path_push (path_push (path_push mount ''.lustre'') ''fid'') (stripped_fid f)"

definition purge_file :: "io \<Rightarrow> string \<Rightarrow> path \<Rightarrow> ExecResult \<times> effect list" where
  "purge_file r reason p =
     (case r of
        Inr _ \<Rightarrow> (ExDone ExSuccess, [Removed p])
      | Inl EkNotFound \<Rightarrow> (ExDone (ExSkipped reason), [])
      | Inl e \<Rightarrow> (ExError (AeIo e), []))"

fun kind_debug :: "EntryKind \<Rightarrow> string" where
  "kind_debug File = ''File''"
| "kind_debug Directory = ''Directory''"
| "kind_debug Symlink = ''Symlink''"
| "kind_debug CharDevice = ''CharDevice''"
| "kind_debug BlockDevice = ''BlockDevice''"
| "kind_debug Fifo = ''Fifo''"
| "kind_debug Socket = ''Socket''"

definition purge_execute :: "ExecEnv \<Rightarrow> EntryRow \<Rightarrow> ExecResult \<times> effect list" where
  "purge_execute env entry =
     (case resolve_real_path env (er_fid entry) of
        None \<Rightarrow> (ExDone (ExSkipped ''could not resolve FID to path''), [])
      | Some p \<Rightarrow>
        (case e_kind entry of
           File \<Rightarrow> purge_file (ex_remove_file env p) ''file already removed'' p
         | Directory \<Rightarrow> purge_file (ex_remove_dir env p) ''directory already removed'' p
         | kind \<Rightarrow> (ExDone (ExSkipped (''unsupported entry kind: '' @ kind_debug kind)), [])))"

text \<open>
  The common shape of the HSM actions: only files, after a look at the current state, which
  may give a reason to skip the entry.
\<close>

definition hsm_execute ::
  "ExecEnv \<Rightarrow> EntryRow \<Rightarrow> string \<Rightarrow> (HsmState set \<Rightarrow> string option) \<Rightarrow> HsmRequestBuilder \<Rightarrow>
   ExecResult \<times> effect list" where
  "hsm_execute env entry only_files skip b =
     (if e_kind entry \<noteq> File then (ExDone (ExSkipped only_files), [])
      else (case ex_hsm_state env (fid_vpath (ex_mount env) (er_fid entry)) of
              Inl e \<Rightarrow> (ExError (AeHsm e), [])
            | Inr state \<Rightarrow>
              (case skip (hu_states state) of
                 Some reason \<Rightarrow> (ExDone (ExSkipped reason), [])
               | None \<Rightarrow>
                 (case hsm_submit (ex_llapi env) b (ex_text env (ex_mount env)) of
                    (Some e, sub) \<Rightarrow> (ExError (AeHsm e), map Submitted sub)
                  | (None, sub) \<Rightarrow> (ExDone ExSuccess, map Submitted sub)))))"

definition em_dash :: string where
  "em_dash = [CHR 0xE2, CHR 0x80, CHR 0x94]"

definition archive_skip :: "HsmState set \<Rightarrow> string option" where
  "archive_skip st = (if ARCHIVED \<in> st \<and> DIRTY \<notin> st then Some ''already archived and clean'' else None)"

definition release_skip :: "HsmState set \<Rightarrow> string option" where
  "release_skip st =
     (if ARCHIVED \<notin> st then Some (''file is not archived '' @ em_dash @ '' cannot release'')
      else if RELEASED \<in> st then Some ''already released'' else None)"

definition restore_skip :: "HsmState set \<Rightarrow> string option" where
  "restore_skip st = (if RELEASED \<notin> st then Some (''file is not released '' @ em_dash @ '' restore not needed'') else None)"

definition remove_skip :: "HsmState set \<Rightarrow> string option" where
  "remove_skip st =
     (if ARCHIVED \<notin> st then Some (''file has no HSM archive copy '' @ em_dash @ '' nothing to remove'')
      else if DIRTY \<in> st then Some (''file is dirty (modified after archive) '' @ em_dash @ '' re-archive first'') else None)"

definition hsm_archive_execute ::
  "u32 \<Rightarrow> bytes option \<Rightarrow> ExecEnv \<Rightarrow> EntryRow \<Rightarrow> ExecResult \<times> effect list" where
  "hsm_archive_execute archive_id hints env entry =
     hsm_execute env entry ''HSM archive only applies to files'' archive_skip
       (let b = hsm_add_fid (er_fid entry) ((hsm_request_new HaArchive)\<lparr>hb_archive_id := archive_id\<rparr>)
        in case hints of None \<Rightarrow> b | Some h \<Rightarrow> b\<lparr>hb_data := h\<rparr>)"

definition hsm_release_execute :: "ExecEnv \<Rightarrow> EntryRow \<Rightarrow> ExecResult \<times> effect list" where
  "hsm_release_execute env entry =
     hsm_execute env entry ''HSM release only applies to files'' release_skip
       (hsm_add_fid (er_fid entry) (hsm_request_new HaRelease))"

definition hsm_restore_execute :: "ExecEnv \<Rightarrow> EntryRow \<Rightarrow> ExecResult \<times> effect list" where
  "hsm_restore_execute env entry =
     hsm_execute env entry ''HSM restore only applies to files'' restore_skip
       (hsm_add_fid (er_fid entry) (hsm_request_new HaRestore))"

definition hsm_remove_execute :: "ExecEnv \<Rightarrow> EntryRow \<Rightarrow> ExecResult \<times> effect list" where
  "hsm_remove_execute env entry =
     hsm_execute env entry ''HSM remove only applies to files'' remove_skip
       (hsm_add_fid (er_fid entry) (hsm_request_new HaRemove))"

definition render_dest :: "BackupExecutor \<Rightarrow> string \<Rightarrow> string \<Rightarrow> string option" where
  "render_dest x src mount =
     map_option (replace_all [(''src'', src), (''mount'', mount),
        (''archive_id'', dec_str (unat (bx_archive_id x)))]) (bx_dest_template x)"

text \<open>
  The backup of the backend action: the tool runs on the resolved path. \<open>path_text\<close>: the
  text of a path; \<open>text\<close>: the text of an error.
\<close>

definition backup_invocation :: "BackupExecutor \<Rightarrow> (path \<Rightarrow> string) \<Rightarrow> path \<Rightarrow> path \<Rightarrow> ToolInvocation" where
  "backup_invocation x path_text mount src =
     (let s = from_utf8_lossy (path_text src)
      in \<lparr>ti_op = bx_op x, ti_src = s, ti_dest = render_dest x s (from_utf8_lossy (path_text mount)),
          ti_hints = bx_hints x, ti_archive_id = bx_archive_id x\<rparr>)"

definition backend_backup ::
  "ActEnv \<Rightarrow> FsEnv \<Rightarrow> (string \<Rightarrow> string list \<Rightarrow> process) \<Rightarrow> (BackupError \<Rightarrow> string) \<Rightarrow> ActionBackend \<Rightarrow>
   ScopedEntryRow \<Rightarrow> BackupExecutor \<Rightarrow> Catalog \<Rightarrow> (ActionError + BackendActionOutcome) \<times> Catalog" where
  "backend_backup env fs tool text b entry x c =
     execute_backup env fs
       (\<lambda>src. fst (backup_run tool (bx_adapter x)
          (backup_invocation x (ac_path_text env) (path_of (ab_mount_path b)) src))) text b entry c"

definition backup_execute :: "BackupExecutor \<Rightarrow> ExecEnv \<Rightarrow> EntryRow \<Rightarrow> ExecResult \<times> effect list" where
  "backup_execute x env entry =
     (case resolve_real_path env (er_fid entry) of
        None \<Rightarrow> (ExDone (ExSkipped ''could not resolve FID to path''), [])
      | Some src \<Rightarrow>
        (let call = backup_invocation x (ex_text env) (ex_mount env) src;
             (res, command, args) = backup_run (ex_tool env) (bx_adapter x) call
         in (case res of
               None \<Rightarrow> ExDone ExSuccess
             | Some (ToolFailed n err) \<Rightarrow> ExDone (ExFailed (''tool exit '' @ signed_str n @ '': '' @ err))
             | Some e \<Rightarrow> ExError (AeBackup e),
             [Ran command args])))"

definition cmd_subst :: "CmdExecutor \<Rightarrow> EntryRow \<Rightarrow> string \<Rightarrow> string \<Rightarrow> (string \<times> string) list" where
  "cmd_subst x entry vpath fullpath =
     [(''fid'', fid_to_string (er_fid entry)), (''path'', vpath), (''fullpath'', fullpath),
      (''size'', dec_str (unat (e_size entry))), (''uid'', dec_str (unat (e_uid entry))),
      (''gid'', dec_str (unat (e_gid entry))), (''mtime'', signed_str (e_mtime entry)),
      (''ctime'', signed_str (e_ctime entry)), (''atime'', signed_str (e_atime entry))] @ cx_vars x"

text \<open>\<open>str::contains\<close>\<close>

definition str_contains :: "string \<Rightarrow> string \<Rightarrow> bool" where
  "str_contains pat s = (\<exists>t \<in> set (suffixes s). prefix pat t)"

definition render_args :: "CmdExecutor \<Rightarrow> EntryRow \<Rightarrow> ExecEnv \<Rightarrow> string list" where
  "render_args x entry env =
     (let vpath = from_utf8_lossy (ex_text env (fid_vpath (ex_mount env) (er_fid entry)));
          fullpath =
            (if \<exists>t \<in> set (cx_args_template x). str_contains (placeholder ''fullpath'') t
             then (case resolve_real_path env (er_fid entry) of
                     None \<Rightarrow> []
                   | Some p \<Rightarrow> from_utf8_lossy (ex_text env p))
             else [])
      in map (replace_all (cmd_subst x entry vpath fullpath)) (cx_args_template x))"

text \<open>Truncating a string inside a character panics: a continuation byte at the cut.\<close>

definition truncate_4096 :: "string \<Rightarrow> string option" where
  "truncate_4096 s =
     (if length s \<le> 4096 then Some s
      else if 128 \<le> (of_char (s ! 4096) :: nat) \<and> (of_char (s ! 4096) :: nat) < 192 then None
      else Some (take 4096 s))"

fun cmd_exit :: "ErrorKind + int option \<times> bytes \<Rightarrow> ExecResult" where
  "cmd_exit (Inl e) = ExError (AeIo e)"
| "cmd_exit (Inr (c, err)) =
     (if c = Some 0 then ExDone ExSuccess
      else (case truncate_4096 (trim (from_utf8_lossy err)) of
              None \<Rightarrow> ExPanic
            | Some e \<Rightarrow> ExDone (ExFailed (''exit '' @ code_debug c @ '': '' @ e))))"

fun cmd_result :: "u64 option \<Rightarrow> process \<Rightarrow> ExecResult" where
  "cmd_result timeout (SpawnFailed e) = ExError (AeIo e)"
| "cmd_result timeout (Started in_time out) =
     (case timeout of
        Some t \<Rightarrow> if in_time then cmd_exit out else ExDone (ExFailed (''timeout after '' @ secs_debug t))
      | None \<Rightarrow> cmd_exit out)"

definition cmd_execute :: "CmdExecutor \<Rightarrow> ExecEnv \<Rightarrow> EntryRow \<Rightarrow> ExecResult \<times> effect list" where
  "cmd_execute x env entry =
     (let args = render_args x entry env
      in (cmd_result (cx_timeout x) (ex_tool env (cx_command x) args), [Ran (cx_command x) args]))"

text \<open>The payload, and the failure of the delivery (a status or a transport error), if any.\<close>

definition alert_payload :: "AlertExecutor \<Rightarrow> EntryRow \<Rightarrow> json" where
  "alert_payload x entry =
     json_obj [(''fid'', JStr (fid_to_string (er_fid entry))), (''size'', JNum (int (unat (e_size entry)))),
       (''uid'', JNum (int (unat (e_uid entry)))), (''gid'', JNum (int (unat (e_gid entry)))),
       (''mtime'', JNum (e_mtime entry)), (''atime'', JNum (e_atime entry)),
       (''message'', case ax_message x of None \<Rightarrow> JNull | Some m \<Rightarrow> JStr m)]"

definition alert_execute :: "AlertExecutor \<Rightarrow> ExecEnv \<Rightarrow> EntryRow \<Rightarrow> ExecResult \<times> effect list" where
  "alert_execute x env entry =
     (let fired = (if ax_log x
                   then [Logged (er_fid entry) (e_size entry) (e_uid entry)
                           (case ax_message x of None \<Rightarrow> [] | Some m \<Rightarrow> m)]
                   else [])
      in case ax_webhook x of
           None \<Rightarrow> (ExDone ExSuccess, fired)
         | Some url \<Rightarrow>
             (let payload = alert_payload x entry
              in (ExDone (case ex_webhook env url payload of
                    None \<Rightarrow> ExSuccess
                  | Some e \<Rightarrow> ExFailed (''webhook '' @ url @ '': '' @ e)),
                  fired @ [Posted url payload])))"

fun execute :: "Executor \<Rightarrow> ExecEnv \<Rightarrow> EntryRow \<Rightarrow> ExecResult \<times> effect list" where
  "execute PurgeExecutor env entry = purge_execute env entry"
| "execute (HsmArchiveExecutor i h) env entry = hsm_archive_execute i h env entry"
| "execute HsmReleaseExecutor env entry = hsm_release_execute env entry"
| "execute HsmRestoreExecutor env entry = hsm_restore_execute env entry"
| "execute HsmRemoveExecutor env entry = hsm_remove_execute env entry"
| "execute (BackupX x) env entry = backup_execute x env entry"
| "execute (CmdX x) env entry = cmd_execute x env entry"
| "execute (AlertX x) env entry = alert_execute x env entry"
| "execute DryRunExecutor env entry = (ExDone (ExSkipped ''dry run''), [])"

section \<open>Templates: one pass\<close>

text \<open>A template as a sequence of texts and placeholders.\<close>

datatype token = Lit string | Var string

fun print_token :: "token \<Rightarrow> string" where
  "print_token (Lit s) = s"
| "print_token (Var k) = placeholder k"

definition print_template :: "token list \<Rightarrow> string" where
  "print_template ts = concat (map print_token ts)"

text \<open>What the placeholders stand for: the first binding; unknown ones stay.\<close>

fun token_value :: "(string \<times> string) list \<Rightarrow> token \<Rightarrow> string" where
  "token_value subst (Lit s) = s"
| "token_value subst (Var k) = (case map_of subst k of None \<Rightarrow> placeholder k | Some v \<Rightarrow> v)"

definition brace_free :: "string \<Rightarrow> bool" where
  "brace_free s \<longleftrightarrow> CHR ''{'' \<notin> set s"

fun token_ok :: "token \<Rightarrow> bool" where
  "token_ok (Lit s) = brace_free s"
| "token_ok (Var k) = (brace_free k \<and> CHR ''}'' \<notin> set k)"

fun bind_token :: "string \<Rightarrow> string \<Rightarrow> token \<Rightarrow> token" where
  "bind_token k v (Lit s) = Lit s"
| "bind_token k v (Var k') = (if k' = k then Lit v else Var k')"

lemma placeholder_not_prefix: "c \<noteq> CHR ''{'' \<Longrightarrow> \<not> prefix (placeholder k) (c # cs)"
  by (simp add: placeholder_def)

lemma prefix_placeholder:
  assumes "token_ok (Var k)" "token_ok (Var k')"
  shows "prefix (placeholder k) (placeholder k' @ s) \<longleftrightarrow> k = k'"
proof
  assume "prefix (placeholder k) (placeholder k' @ s)"
  then obtain r where "k @ CHR ''}'' # r = k' @ CHR ''}'' # s"
    by (auto simp: placeholder_def prefix_def)
  with assms show "k = k'"
  proof (induction k arbitrary: k')
    case Nil
    then show ?case by (cases k') auto
  next
    case (Cons c k)
    then show ?case by (cases k') (auto simp: brace_free_def)
  qed
qed (simp add: placeholder_def prefix_def)

text \<open>Nothing is replaced in a text without a brace, nor in another placeholder.\<close>

lemma str_replace_skip: "brace_free s \<Longrightarrow> str_replace (placeholder k) v (s @ t) = s @ str_replace (placeholder k) v t"
  by (induction s) (auto simp: brace_free_def placeholder_not_prefix)

lemma str_replace_other:
  assumes "token_ok (Var k)" "token_ok (Var k')" "k \<noteq> k'"
  shows "str_replace (placeholder k) v (placeholder k' @ t) = placeholder k' @ str_replace (placeholder k) v t"
proof -
  have rest: "brace_free (k' @ ''}'')" using assms(2) by (simp add: brace_free_def)
  have "\<not> prefix (placeholder k) (placeholder k' @ t)" using prefix_placeholder [OF assms(1,2)] assms(3) by simp
  then show ?thesis using str_replace_skip [OF rest, of k v t] by (simp add: placeholder_def)
qed

lemma str_replace_hit: "str_replace (placeholder k) v (placeholder k @ t) = v @ str_replace (placeholder k) v t"
proof -
  have "prefix (placeholder k) (placeholder k @ t)" by simp
  then show ?thesis by (simp add: placeholder_def)
qed

lemma str_replace_template:
  assumes "token_ok (Var k)" "list_all token_ok ts"
  shows "str_replace (placeholder k) v (print_template ts) = print_template (map (bind_token k v) ts)"
  using assms(2)
proof (induction ts)
  case (Cons tok ts)
  then show ?case
    using assms(1) str_replace_skip str_replace_other str_replace_hit
    by (cases tok) (auto simp: print_template_def)
qed (simp add: print_template_def)

lemma bind_token_ok: "token_ok tok \<Longrightarrow> brace_free v \<Longrightarrow> token_ok (bind_token k v tok)"
  by (cases tok) auto

lemma token_value_bind: "token_value subst (bind_token k v tok) = token_value ((k, v) # subst) tok"
  by (cases tok) auto

lemma replace_all_template:
  assumes "\<forall>(k, v) \<in> set subst. token_ok (Var k) \<and> brace_free v" "list_all token_ok ts"
  shows "replace_all subst (print_template ts) = concat (map (token_value subst) ts)"
  using assms
proof (induction subst arbitrary: ts)
  case Nil
  have "print_token = token_value []"
  proof
    show "print_token tok = token_value [] tok" for tok by (cases tok) simp_all
  qed
  then show ?case by (simp add: replace_all_def print_template_def)
next
  case (Cons kv subst)
  obtain k v where [simp]: "kv = (k, v)" by fastforce
  have "replace_all (kv # subst) (print_template ts) = replace_all subst (print_template (map (bind_token k v) ts))"
    using str_replace_template Cons.prems by (simp add: replace_all_def)
  also have "\<dots> = concat (map (token_value subst) (map (bind_token k v) ts))"
    using Cons.prems by (intro Cons.IH) (auto simp: list_all_iff bind_token_ok)
  finally show ?case by (simp add: token_value_bind comp_def)
qed

lemma brace_free_append [simp]: "brace_free (s @ t) \<longleftrightarrow> brace_free s \<and> brace_free t"
  by (auto simp: brace_free_def)

lemma brace_free_radix: "2 \<le> r \<Longrightarrow> r \<le> 16 \<Longrightarrow> brace_free (radix_str r n)"
  unfolding brace_free_def by (rule not_in_radix_str) simp_all

lemma brace_free_values [simp]:
  "brace_free (dec_str n)" "brace_free (signed_str i)" "brace_free (fid_to_string f)"
  using brace_free_radix by (simp_all add: signed_str_def fid_to_string_def brace_free_def)

text \<open>
  The values are put in one after the other, so a value with a placeholder in it is expanded
  again: a path with \<open>{hints}\<close> in its name does not reach the tool.
\<close>

lemma render_expands_values:
  "backup_render_arg ''{src}'' ''ARCHIVE''
     \<lparr>ti_op = BkArchive, ti_src = ''/lustre/{hints}'', ti_dest = None, ti_hints = Some ''cold'',
      ti_archive_id = 1\<rparr> = ''/lustre/cold''"
  by (simp add: backup_render_arg_def backup_subst_def replace_all_def placeholder_def)

lemma template_contains: "Var k \<in> set ts \<Longrightarrow> str_contains (placeholder k) (print_template ts)"
proof -
  assume "Var k \<in> set ts"
  then obtain us vs where "ts = us @ Var k # vs" by (meson split_list)
  then have "print_template ts = print_template us @ placeholder k @ print_template vs"
    by (simp add: print_template_def)
  then show ?thesis unfolding str_contains_def
    by (intro bexI [of _ "placeholder k @ print_template vs"]) (auto simp: suffix_def)
qed

text \<open>The value of a placeholder that does not occur is irrelevant.\<close>

lemma fullpath_irrelevant:
  "Var ''fullpath'' \<notin> set ts \<Longrightarrow>
     map (token_value (cmd_subst x entry vpath full)) ts = map (token_value (cmd_subst x entry vpath full')) ts"
proof (rule map_cong [OF refl])
  fix tok assume "Var ''fullpath'' \<notin> set ts" "tok \<in> set ts"
  then show "token_value (cmd_subst x entry vpath full) tok = token_value (cmd_subst x entry vpath full') tok"
    by (cases tok) (auto simp: cmd_subst_def)
qed

lemma cmd_subst_ok:
  assumes "\<forall>(k, v) \<in> set (cx_vars x). token_ok (Var k) \<and> brace_free v" "brace_free vpath" "brace_free full"
  shows "\<forall>(k, v) \<in> set (cmd_subst x entry vpath full). token_ok (Var k) \<and> brace_free v"
proof -
  have keys: "token_ok (Var k)" if "k \<in> {''fid'', ''path'', ''fullpath'', ''size'', ''uid'', ''gid'', ''mtime'', ''ctime'', ''atime''}" for k
    using that by (auto simp: brace_free_def)
  then show ?thesis using assms by (auto simp: cmd_subst_def)
qed

text \<open>The value of \<open>{fullpath}\<close>: empty when the identifier does not resolve.\<close>

definition fullpath_value :: "ExecEnv \<Rightarrow> EntryRow \<Rightarrow> string" where
  "fullpath_value env entry =
     (case resolve_real_path env (er_fid entry) of None \<Rightarrow> [] | Some p \<Rightarrow> from_utf8_lossy (ex_text env p))"

lemma render_args_parallel:
  assumes "cx_args_template x = map print_template tss" "\<forall>ts \<in> set tss. list_all token_ok ts"
    and "\<forall>(k, v) \<in> set (cx_vars x). token_ok (Var k) \<and> brace_free v"
    and "brace_free (from_utf8_lossy (ex_text env (fid_vpath (ex_mount env) (er_fid entry))))" (is "brace_free ?v")
    and "brace_free (fullpath_value env entry)" (is "brace_free ?f")
  shows "render_args x entry env = map (\<lambda>ts. concat (map (token_value (cmd_subst x entry ?v ?f)) ts)) tss"
proof -
  define needs where "needs = (\<exists>t \<in> set (cx_args_template x). str_contains (placeholder ''fullpath'') t)"
  define full where "full = (if needs then ?f else [])"
  have "brace_free full" using assms(5) by (simp add: full_def brace_free_def)
  then have ok: "\<forall>(k, v) \<in> set (cmd_subst x entry ?v full). token_ok (Var k) \<and> brace_free v"
    using cmd_subst_ok assms(3,4) by blast
  have "render_args x entry env = map (replace_all (cmd_subst x entry ?v full) \<circ> print_template) tss"
    using assms(1) by (simp add: render_args_def full_def needs_def Let_def fullpath_value_def)
  also have "\<dots> = map (\<lambda>ts. concat (map (token_value (cmd_subst x entry ?v full)) ts)) tss"
    using replace_all_template [OF ok] assms(2) by simp
  also have "\<dots> = map (\<lambda>ts. concat (map (token_value (cmd_subst x entry ?v ?f)) ts)) tss"
  proof (cases needs)
    case False
    then have "Var ''fullpath'' \<notin> set ts" if "ts \<in> set tss" for ts
      using that template_contains assms(1) unfolding needs_def by fastforce
    then have "map (token_value (cmd_subst x entry ?v full)) ts = map (token_value (cmd_subst x entry ?v ?f)) ts"
      if "ts \<in> set tss" for ts using that by (intro fullpath_irrelevant)
    then show ?thesis by (auto simp del: map_eq_conv intro!: map_cong [OF refl, of tss] arg_cong [of _ _ concat])
  qed (simp add: full_def)
  finally show ?thesis .
qed

text \<open>
  C30: the arguments of a command are its templates with every placeholder replaced, in one
  pass, by the value it stands for (the full path by nothing when the identifier does not
  resolve), and unknown placeholders kept. This holds for templates made of placeholders
  and of text without an opening brace, for variables with no brace in their name, and when
  no value has an opening brace in it; the code replaces one placeholder after the other, so
  without these conditions a value is expanded again.
\<close>

theorem command_arguments:
  assumes "cx_args_template x = map print_template tss" "\<forall>ts \<in> set tss. list_all token_ok ts"
    and "\<forall>(k, v) \<in> set (cx_vars x). token_ok (Var k) \<and> brace_free v"
    and "brace_free (from_utf8_lossy (ex_text env (fid_vpath (ex_mount env) (er_fid entry))))" (is "brace_free ?v")
    and "brace_free (fullpath_value env entry)" (is "brace_free ?f")
  shows "snd (execute (CmdX x) env entry) =
    [Ran (cx_command x) (map (\<lambda>ts. concat (map (token_value (cmd_subst x entry ?v ?f)) ts)) tss)]"
  using render_args_parallel [OF assms] by (simp add: cmd_execute_def Let_def)

definition cmd_demo_env :: ExecEnv where
  "cmd_demo_env =
     \<lparr>ex_mount = [RootDir, Normal ''lustre''], ex_text = (\<lambda>p. ''/lustre/f''),
      ex_fid_to_path = (\<lambda>f. Some [Normal ''f'']), ex_hsm_state = (\<lambda>_. Inl PathContainsNul), ex_llapi = (\<lambda>_ _. 0),
      ex_remove_file = (\<lambda>_. Inr ()), ex_remove_dir = (\<lambda>_. Inr ()),
      ex_tool = (\<lambda>_ _. Started True (Inr (Some 0, []))), ex_webhook = (\<lambda>_ _. None)\<rparr>"

definition cmd_demo :: CmdExecutor where
  "cmd_demo =
     \<lparr>cx_command = ''lfs'', cx_args_template = [''--pool={pool}'', ''{fullpath}'', ''{none}''], cx_timeout = Some 5,
      cx_vars = [(''pool'', ''hdd'')]\<rparr>"

theorem command_arguments_witness:
  "snd (execute (CmdX cmd_demo) cmd_demo_env sample_attrs) =
     [Ran ''lfs'' [''--pool=hdd'', ''/lustre/f'', ''{none}'']]"
proof -
  have plain: "from_utf8_lossy ''/lustre/f'' = ''/lustre/f''" by (rule from_utf8_lossy_ascii) simp
  show ?thesis
    by (subst command_arguments [where tss = "[[Lit ''--pool='', Var ''pool''], [Var ''fullpath''], [Var ''none'']]"])
      (simp_all add: cmd_demo_def cmd_demo_env_def print_template_def placeholder_def brace_free_def plain
        resolve_real_path_def path_join_def cmd_subst_def fullpath_value_def del: from_utf8_lossy.simps)
qed

text \<open>What an HSM action may ask for, and in which states.\<close>

fun hsm_permitted :: "Executor \<Rightarrow> HsmState set \<Rightarrow> HsmRequest \<Rightarrow> bool" where
  "hsm_permitted (HsmArchiveExecutor i h) st r \<longleftrightarrow>
     hr_action r = HaArchive \<and> hr_archive_id r = i \<and> hr_data r = (case h of None \<Rightarrow> [] | Some d \<Rightarrow> d) \<and>
     (ARCHIVED \<in> st \<longrightarrow> DIRTY \<in> st)"
| "hsm_permitted HsmReleaseExecutor st r \<longleftrightarrow> hr_action r = HaRelease \<and> ARCHIVED \<in> st \<and> RELEASED \<notin> st"
| "hsm_permitted HsmRestoreExecutor st r \<longleftrightarrow> hr_action r = HaRestore \<and> RELEASED \<in> st"
| "hsm_permitted HsmRemoveExecutor st r \<longleftrightarrow> hr_action r = HaRemove \<and> ARCHIVED \<in> st \<and> DIRTY \<notin> st"
| "hsm_permitted _ st r \<longleftrightarrow> False"

fun permitted :: "Executor \<Rightarrow> ExecEnv \<Rightarrow> EntryRow \<Rightarrow> effect \<Rightarrow> bool" where
  "permitted x env entry (Removed p) \<longleftrightarrow>
     x = PurgeExecutor \<and> resolve_real_path env (er_fid entry) = Some p \<and> e_kind entry \<in> {File, Directory}"
| "permitted x env entry (Submitted r) \<longleftrightarrow>
     e_kind entry = File \<and> hr_itemcount r = 1 \<and> hr_items r = [(er_fid entry, 0, - 1)] \<and>
     length (hr_data r) = unat (hr_data_len r) \<and>
     (\<exists>st. ex_hsm_state env (fid_vpath (ex_mount env) (er_fid entry)) = Inr st \<and> hsm_permitted x (hu_states st) r)"
| "permitted x env entry (Ran c args) \<longleftrightarrow>
     (\<exists>b. x = BackupX b \<and> c = ba_command (bx_adapter b)) \<or> (\<exists>b. x = CmdX b \<and> c = cx_command b)"
| "permitted x env entry (Posted url j) \<longleftrightarrow> (\<exists>a. x = AlertX a \<and> ax_webhook a = Some url \<and> j = alert_payload a entry)"
| "permitted x env entry (Logged f n u m) \<longleftrightarrow>
     (\<exists>a. x = AlertX a \<and> ax_log a \<and> f = er_fid entry \<and> n = e_size entry \<and> u = e_uid entry)"

definition exec_ok :: "Executor \<Rightarrow> ExecEnv \<Rightarrow> EntryRow \<Rightarrow> ExecResult \<times> effect list \<Rightarrow> bool" where
  "exec_ok x env entry r \<longleftrightarrow>
     length (filter (\<lambda>e. \<not> logged e) (snd r)) \<le> 1 \<and> length (filter logged (snd r)) \<le> 1 \<and>
     (\<forall>e \<in> set (snd r). permitted x env entry e) \<and>
     (fst r = ExDone ExSuccess \<longrightarrow>
        (\<exists>e \<in> set (snd r). \<not> logged e) \<or>
        (\<exists>a. x = AlertX a \<and> ax_webhook a = None \<and> (ax_log a \<longrightarrow> (\<exists>e \<in> set (snd r). logged e)))) \<and>
     ((\<exists>reason. fst r = ExDone (ExSkipped reason)) \<longrightarrow> snd r = [])"

lemma purge_file_ok:
  assumes "resolve_real_path env (er_fid entry) = Some p" "e_kind entry \<in> {File, Directory}"
  shows "exec_ok PurgeExecutor env entry (purge_file r reason p)"
proof (cases r)
  case (Inl e)
  then show ?thesis by (cases e) (simp_all add: exec_ok_def purge_file_def)
qed (use assms in \<open>auto simp: exec_ok_def purge_file_def\<close>)

lemma hsm_submit_one:
  assumes "hsm_submit llapi b mount = (r, sub)" "hb_fids b = [f]"
  shows "(r \<noteq> None \<and> sub = []) \<or>
    (\<exists>q. sub = [q] \<and> hr_action q = hb_action b \<and> hr_archive_id q = hb_archive_id b \<and> hr_itemcount q = 1 \<and>
       hr_items q = [(f, 0, - 1)] \<and> hr_data q = hb_data b \<and> length (hr_data q) = unat (hr_data_len q))"
  using assms by (auto simp: hsm_submit_def to_u32_def Let_def unat_of_nat take_bit_nat_eq_self split: if_splits)

lemma hsm_execute_ok:
  assumes "hb_fids b = [er_fid entry]"
    and "\<And>st r. skip st = None \<Longrightarrow> hr_action r = hb_action b \<Longrightarrow> hr_archive_id r = hb_archive_id b \<Longrightarrow>
      hr_data r = hb_data b \<Longrightarrow> hsm_permitted x st r"
  shows "exec_ok x env entry (hsm_execute env entry msg skip b)"
proof (cases "e_kind entry = File")
  case True
  show ?thesis
  proof (cases "ex_hsm_state env (fid_vpath (ex_mount env) (er_fid entry))")
    case (Inl e)
    with True show ?thesis by (simp add: exec_ok_def hsm_execute_def)
  next
    case (Inr st)
    obtain r sub where sub: "hsm_submit (ex_llapi env) b (ex_text env (ex_mount env)) = (r, sub)" by fastforce
    from Inr True assms(2) hsm_submit_one [OF sub assms(1)] show ?thesis
      by (cases "skip (hu_states st)"; cases r) (auto simp: exec_ok_def hsm_execute_def sub)
  qed
qed (simp add: exec_ok_def hsm_execute_def)

lemma cmd_not_skipped: "cmd_result t r \<noteq> ExDone (ExSkipped reason)"
proof -
  have "cmd_exit out \<noteq> ExDone (ExSkipped reason)" for out
    by (cases out rule: cmd_exit.cases) (auto split: option.splits)
  then show ?thesis by (cases r) (auto split: option.splits)
qed

lemma exec_ok_execute: "exec_ok x env entry (execute x env entry)"
proof (cases x)
  case PurgeExecutor
  show ?thesis
  proof (cases "resolve_real_path env (er_fid entry)")
    case None
    then show ?thesis by (simp add: PurgeExecutor purge_execute_def exec_ok_def)
  next
    case (Some p)
    then show ?thesis using purge_file_ok [OF Some]
      by (cases "e_kind entry") (simp_all add: PurgeExecutor purge_execute_def exec_ok_def)
  qed
next
  case (HsmArchiveExecutor i h)
  show ?thesis unfolding HsmArchiveExecutor execute.simps hsm_archive_execute_def
    by (rule hsm_execute_ok)
      (auto simp: hsm_add_fid_def hsm_request_new_def archive_skip_def Let_def split: option.splits if_splits)
next
  case (BackupX b)
  then show ?thesis
    by (auto simp: backup_execute_def exec_ok_def backup_run_def Let_def split: option.splits BackupError.splits)
next
  case (CmdX b)
  then show ?thesis
    by (auto simp: cmd_execute_def exec_ok_def Let_def cmd_not_skipped)
next
  case (AlertX b)
  then show ?thesis
    by (auto simp: alert_execute_def exec_ok_def Let_def split: option.splits)
next
  case HsmReleaseExecutor
  show ?thesis unfolding HsmReleaseExecutor execute.simps hsm_release_execute_def
    by (rule hsm_execute_ok)
      (auto simp: hsm_add_fid_def hsm_request_new_def release_skip_def split: if_splits)
next
  case HsmRestoreExecutor
  show ?thesis unfolding HsmRestoreExecutor execute.simps hsm_restore_execute_def
    by (rule hsm_execute_ok)
      (auto simp: hsm_add_fid_def hsm_request_new_def restore_skip_def split: if_splits)
next
  case HsmRemoveExecutor
  show ?thesis unfolding HsmRemoveExecutor execute.simps hsm_remove_execute_def
    by (rule hsm_execute_ok)
      (auto simp: hsm_add_fid_def hsm_request_new_def remove_skip_def split: if_splits)
qed (simp add: exec_ok_def)


end
