(* ===== verification/Rbh_Policy.thy ===== *)
theory Rbh_Policy
  imports Rbh_Classifier Rbh_Executor
begin

text \<open>
  Action policies (\<open>crates/rbh-policy\<close>): the definitions of \<open>model.rs\<close>, the table of
  \<open>store.rs\<close>, the capability checks of \<open>validation.rs\<close>, the schedules of \<open>reconcile.rs\<close>
  and the run of a policy with its dispatchers (\<open>task.rs\<close>).

  The parser of cron expressions and the scheduler are libraries and are inputs, and so is
  how the database evaluates a \<open>WHERE\<close> clause and orders rows. Workers run concurrently but
  share nothing: the outcome of each is a function of what its attempts meet. Counters are
  natural numbers; the rate limiter only delays and is not modelled.
\<close>

section \<open>Definitions\<close>

datatype PolicyKind =
  Purge | Migration | HsmArchive | HsmRelease | HsmRestore | HsmRemove | Alert | Backup

fun policy_kind_as_str :: "PolicyKind \<Rightarrow> string" where
  "policy_kind_as_str Purge = ''purge''"
| "policy_kind_as_str Migration = ''migration''"
| "policy_kind_as_str HsmArchive = ''hsm_archive''"
| "policy_kind_as_str HsmRelease = ''hsm_release''"
| "policy_kind_as_str HsmRestore = ''hsm_restore''"
| "policy_kind_as_str HsmRemove = ''hsm_remove''"
| "policy_kind_as_str Alert = ''alert''"
| "policy_kind_as_str Backup = ''backup''"

datatype LruSortAttr = LruNone | LruAtime | LruMtime | LruCtime | LruLastSeen

fun lru_column :: "LruSortAttr \<Rightarrow> string option" where
  "lru_column LruNone = None"
| "lru_column LruAtime = Some ''atime''"
| "lru_column LruMtime = Some ''mtime''"
| "lru_column LruCtime = Some ''ctime''"
| "lru_column LruLastSeen = Some ''last_seen''"

record CmdParams =
  cm_command :: string
  cm_args :: "string list"
  cm_timeout_secs :: "u64 option"
  cm_vars :: "(string \<times> string) list"

record AlertParams =
  ap_webhook :: "string option"
  ap_log :: bool
  ap_message :: "string option"

record RetryParams =
  max_attempts :: u32
  backoff_secs :: u64

record HsmParams =
  hp_archive_id :: "u32 option"
  hp_hints :: "string option"

record RateLimit =
  max_per_sec :: "u32 option"
  max_bytes_per_sec :: "u64 option"

record ActionOpts =
  max_count :: "u64 option"
  max_volume :: "u64 option"
  nb_threads :: "u32 option"
  timeout_secs :: "u64 option"
  lru_sort :: "LruSortAttr option"
  rate_limit :: "RateLimit option"
  retry :: "RetryParams option"
  opt_hsm :: "HsmParams option"
  backup :: "BackupCommandConfig option"
  cmd :: "CmdParams option"
  alert :: "AlertParams option"
  skip_hardlinked :: bool

record PolicyDef =
  pd_name :: string
  pd_filesystem :: string
  pd_kind :: PolicyKind
  match_tags :: "(string \<times> string) list"
  trigger :: string
  action :: ActionOpts
  pd_enabled :: bool

record PolicyRow =
  pr_id :: u64
  pr_name :: string
  pr_definition :: PolicyDef
  pr_enabled :: bool
  pr_created_at :: i64
  pr_updated_at :: i64

section \<open>The table\<close>

text \<open>\<open>cron_ok\<close>: which cron expressions the scheduler accepts.\<close>

definition validate_policy :: "(string \<Rightarrow> bool) \<Rightarrow> PolicyDef \<Rightarrow> PolicyError option" where
  "validate_policy cron_ok d =
     (if pd_name d = [] then Some (InvalidTrigger ''policy name must not be empty'')
      else (case parse_trigger (trigger d) of
              Inl e \<Rightarrow> Some (InvalidTrigger (''invalid trigger '' @ [CHR 0x27] @ trigger d @ [CHR 0x27] @
                          '': '' @ trigger_error_display e))
            | Inr (Cron expression) \<Rightarrow>
                if cron_ok expression then None else Some (InvalidTrigger ''invalid cron'')
            | Inr (Interval secs) \<Rightarrow>
                if secs = 0 then Some (InvalidTrigger ''interval must be > 0 seconds'') else None
            | Inr _ \<Rightarrow> None))"

record PolicyStore =
  ps_next :: u64
  ps_rows :: "PolicyRow list"

definition policy_create ::
  "(string \<Rightarrow> bool) \<Rightarrow> i64 \<Rightarrow> PolicyStore \<Rightarrow> PolicyDef \<Rightarrow> (PolicyError + u64) \<times> PolicyStore" where
  "policy_create cron_ok now t d =
     (case validate_policy cron_ok d of
        Some e \<Rightarrow> (Inl e, t)
      | None \<Rightarrow>
          if ps_next t = - 1 then (Inl (PDb ''auto-increment exhausted''), t)
          else if pd_name d \<in> pr_name ` set (ps_rows t)
          then (Inl (PDb ''duplicate entry for key name''), t\<lparr>ps_next := ps_next t + 1\<rparr>)
          else (Inr (ps_next t),
                t\<lparr>ps_rows := ps_rows t @ [\<lparr>pr_id = ps_next t, pr_name = pd_name d, pr_definition = d,
                    pr_enabled = pd_enabled d, pr_created_at = now, pr_updated_at = now\<rparr>],
                  ps_next := ps_next t + 1\<rparr>))"

definition policy_get :: "PolicyStore \<Rightarrow> u64 \<Rightarrow> PolicyError + PolicyRow" where
  "policy_get t i =
     (case find (\<lambda>r. pr_id r = i) (ps_rows t) of None \<Rightarrow> Inl (PNotFound i) | Some r \<Rightarrow> Inr r)"

definition policy_get_by_name :: "PolicyStore \<Rightarrow> string \<Rightarrow> PolicyError + PolicyRow" where
  "policy_get_by_name t n =
     (case find (\<lambda>r. pr_name r = n) (ps_rows t) of None \<Rightarrow> Inl (PNotFoundByName n) | Some r \<Rightarrow> Inr r)"

definition policy_list :: "PolicyStore \<Rightarrow> PolicyRow list" where
  "policy_list t = sort_key pr_id (ps_rows t)"

definition policy_update ::
  "(string \<Rightarrow> bool) \<Rightarrow> i64 \<Rightarrow> PolicyStore \<Rightarrow> u64 \<Rightarrow> PolicyDef \<Rightarrow> PolicyError option \<times> PolicyStore" where
  "policy_update cron_ok now t i d =
     (case validate_policy cron_ok d of
        Some e \<Rightarrow> (Some e, t)
      | None \<Rightarrow>
          if i \<notin> pr_id ` set (ps_rows t) then (Some (PNotFound i), t)
          else if \<exists>r \<in> set (ps_rows t). pr_id r \<noteq> i \<and> pr_name r = pd_name d
          then (Some (PDb ''duplicate entry for key name''), t)
          else (None, t\<lparr>ps_rows := map (\<lambda>r. if pr_id r = i
                  then r\<lparr>pr_name := pd_name d, pr_definition := d, pr_enabled := pd_enabled d,
                         pr_updated_at := now\<rparr>
                  else r) (ps_rows t)\<rparr>))"

definition policy_delete :: "PolicyStore \<Rightarrow> u64 \<Rightarrow> PolicyError option \<times> PolicyStore" where
  "policy_delete t i =
     (if i \<notin> pr_id ` set (ps_rows t) then (Some (PNotFound i), t)
      else (None, t\<lparr>ps_rows := filter (\<lambda>r. pr_id r \<noteq> i) (ps_rows t)\<rparr>))"

definition policy_bind_legacy :: "PolicyStore \<Rightarrow> string \<Rightarrow> nat \<times> PolicyStore" where
  "policy_bind_legacy t fs =
     (let legacy = (\<lambda>r. pd_filesystem (pr_definition r) = ''__legacy_lustre__'')
      in (length (filter legacy (ps_rows t)),
          t\<lparr>ps_rows := map (\<lambda>r. if legacy r
              then r\<lparr>pr_definition := (pr_definition r)\<lparr>pd_filesystem := fs\<rparr>\<rparr> else r) (ps_rows t)\<rparr>))"

section \<open>Capabilities\<close>

datatype TargetFilter = FFs | FOst "u32 list" | FPool string | FUser u32 | FGroup u32 | FProjid u32

definition require :: "FileSystemConfig \<Rightarrow> bool \<Rightarrow> string \<Rightarrow> string \<Rightarrow> PolicyError option" where
  "require config available capability reason =
     (if available then None else Some (UnsupportedCapability (fs_id config) capability reason))"

definition validate_threshold_target :: "ThresholdTarget \<Rightarrow> FileSystemConfig \<Rightarrow> PolicyError option" where
  "validate_threshold_target target config =
     (case target of
        TOst _ \<Rightarrow> require config (ost (capabilities config)) ''ost''
                  ''OST targeting is available only on Lustre''
      | TPool _ \<Rightarrow> require config (stripe (capabilities config)) ''stripe''
                  ''pool targeting requires backend stripe/pool metadata''
      | _ \<Rightarrow> None)"

definition validate_kind :: "PolicyDef \<Rightarrow> FileSystemConfig \<Rightarrow> PolicyError option" where
  "validate_kind d config =
     (case pd_kind d of
        Purge \<Rightarrow> require config (purge (capabilities config)) ''purge''
                  ''purge requires a filesystem with namespace deletion enabled''
      | Alert \<Rightarrow> require config (namespace (capabilities config)) ''namespace''
                  ''alert and backup require filesystem namespace resolution''
      | Backup \<Rightarrow> require config (namespace (capabilities config)) ''namespace''
                  ''alert and backup require filesystem namespace resolution''
      | Migration \<Rightarrow> None
      | _ \<Rightarrow> require config (hsm (capabilities config)) ''hsm''
                  ''HSM actions require a Lustre filesystem with HSM enabled'')"

definition validate_spec :: "TriggerSpec \<Rightarrow> FileSystemConfig \<Rightarrow> PolicyError option" where
  "validate_spec spec config =
     (case spec of
        ThresholdOstPct _ _ _ _ target \<Rightarrow>
          (case require config (ost (capabilities config)) ''ost''
              ''OST utilization triggers are available only on Lustre'' of
             Some e \<Rightarrow> Some e
           | None \<Rightarrow> validate_threshold_target target config)
      | ThresholdFsPct _ _ _ _ \<Rightarrow>
          require config (ost (capabilities config)) ''ost''
            ''filesystem utilization currently requires Lustre OST usage''
      | ThresholdCount _ _ _ _ target \<Rightarrow> validate_threshold_target target config
      | ThresholdVolume _ _ _ _ target \<Rightarrow> validate_threshold_target target config
      | _ \<Rightarrow> None)"

text \<open>Checks one after the other: the first error counts.\<close>

definition or_else :: "'e option \<Rightarrow> 'e option \<Rightarrow> 'e option" where
  "or_else a b = (case a of Some e \<Rightarrow> Some e | None \<Rightarrow> b)"

definition validate_policy_for_filesystem :: "PolicyDef \<Rightarrow> FileSystemConfig \<Rightarrow> PolicyError option" where
  "validate_policy_for_filesystem d config =
     (if pd_filesystem d \<noteq> fs_id config then Some (FilesystemMismatch (pd_filesystem d) (fs_id config))
      else if pd_kind d = Backup \<and> backup (action d) = None
      then Some (InvalidAction ''backup policies require action.backup command configuration'')
      else or_else (validate_kind d config)
        (case parse_trigger (trigger d) of
           Inl e \<Rightarrow> Some (InvalidTrigger (trigger_error_display e))
         | Inr spec \<Rightarrow>
             or_else (validate_spec spec config)
               (require config (fs_backend config = Lustre \<or> pd_kind d \<in> {Purge, Alert, Backup})
                  ''action_backend''
                  ''this action has no JuiceFS backend adapter; HSM, migration and Lustre layout actions are not emulated'')))"

definition validate_target_for_filesystem :: "TargetFilter \<Rightarrow> FileSystemConfig \<Rightarrow> PolicyError option" where
  "validate_target_for_filesystem target config =
     (case target of
        FOst _ \<Rightarrow> require config (ost (capabilities config)) ''ost''
                  ''OST targeting is available only on Lustre''
      | FPool _ \<Rightarrow> require config (stripe (capabilities config)) ''stripe''
                  ''pool targeting requires backend stripe/pool metadata''
      | _ \<Rightarrow> None)"

section \<open>Schedules\<close>

text \<open>
  The scheduler: the identifiers of the schedules whose names have a prefix, removing one,
  and adding one under a name. An operation may fail.
\<close>

record 's Scheduler =
  list_by_prefix :: "'s \<Rightarrow> string \<Rightarrow> string + nat list"
  sched_remove :: "'s \<Rightarrow> nat \<Rightarrow> string option \<times> 's"
  sched_add :: "'s \<Rightarrow> string \<Rightarrow> u64 \<Rightarrow> TriggerSpec \<Rightarrow> (string + nat) \<times> 's"

definition build_trigger :: "(string \<Rightarrow> bool) \<Rightarrow> TriggerSpec \<Rightarrow> PolicyError + TriggerSpec option" where
  "build_trigger cron_ok spec =
     (case spec of
        Interval secs \<Rightarrow>
          if secs = 0 then Inl (InvalidTrigger ''interval must be > 0 seconds'') else Inr (Some spec)
      | Cron expression \<Rightarrow>
          if cron_ok expression then Inr (Some spec) else Inl (InvalidTrigger ''invalid cron'')
      | Once _ \<Rightarrow> Inr (Some spec)
      | Immediate \<Rightarrow> Inr (Some spec)
      | Window _ _ (WindowRepeat secs) \<Rightarrow>
          if secs = 0 then Inl (InvalidTrigger ''window repeat interval must be > 0 seconds'')
          else Inr (Some spec)
      | Window _ _ WindowOnce \<Rightarrow> Inr (Some spec)
      | _ \<Rightarrow> Inr None)"

definition schedule_name :: "u64 \<Rightarrow> string" where
  "schedule_name policy_id = ''rbh.policy.'' @ dec_str (unat policy_id)"

fun remove_all :: "'s Scheduler \<Rightarrow> nat list \<Rightarrow> 's \<Rightarrow> PolicyError option \<times> 's" where
  "remove_all sch [] s = (None, s)"
| "remove_all sch (i # ids) s =
     (case sched_remove sch s i of
        (Some e, s1) \<Rightarrow> (Some (PScheduler e), s1)
      | (None, s1) \<Rightarrow> remove_all sch ids s1)"

definition remove_policy_schedule :: "'s Scheduler \<Rightarrow> 's \<Rightarrow> u64 \<Rightarrow> PolicyError option \<times> 's" where
  "remove_policy_schedule sch s policy_id =
     (case list_by_prefix sch s (schedule_name policy_id) of
        Inl e \<Rightarrow> (Some (PScheduler e), s)
      | Inr ids \<Rightarrow> remove_all sch ids s)"

definition reconcile_triggers ::
  "'s Scheduler \<Rightarrow> (string \<Rightarrow> bool) \<Rightarrow> 's \<Rightarrow> u64 \<Rightarrow> string \<Rightarrow> bool \<Rightarrow> (PolicyError + nat option) \<times> 's" where
  "reconcile_triggers sch cron_ok s policy_id trigger_str enabled =
     (case remove_policy_schedule sch s policy_id of
        (Some e, s1) \<Rightarrow> (Inl e, s1)
      | (None, s1) \<Rightarrow>
          if \<not> enabled then (Inr None, s1)
          else (case parse_trigger trigger_str of
                  Inl e \<Rightarrow> (Inl (InvalidTrigger (trigger_error_display e)), s1)
                | Inr spec \<Rightarrow>
                  (case build_trigger cron_ok spec of
                     Inl e \<Rightarrow> (Inl e, s1)
                   | Inr None \<Rightarrow> (Inr None, s1)
                   | Inr (Some t) \<Rightarrow>
                     (case sched_add sch s1 (schedule_name policy_id) policy_id t of
                        (Inl e, s2) \<Rightarrow> (Inl (PScheduler e), s2)
                      | (Inr i, s2) \<Rightarrow> (Inr (Some i), s2)))))"

section \<open>Workers\<close>

datatype WorkerOutcome = WSuccess | WSkipped | WFailed

definition attempt_limit :: "RetryParams option \<Rightarrow> nat" where
  "attempt_limit r = (case r of None \<Rightarrow> 1 | Some p \<Rightarrow> max 1 (unat (max_attempts p)))"

text \<open>
  One attempt of a backend action with its timeout: when it is not finished in time, a
  retryable failure is recorded first and then the attempt is awaited; an error of the
  recording is returned at once. \<open>None\<close> stands for an error value.
\<close>

definition completion_barrier ::
  "u64 option \<Rightarrow> bool \<Rightarrow> bool \<Rightarrow> BackendActionOutcome option \<Rightarrow> BackendActionOutcome option" where
  "completion_barrier timeout in_time recorded res =
     (case timeout of
        None \<Rightarrow> res
      | Some _ \<Rightarrow> if in_time then res else if \<not> recorded then None else res)"

text \<open>
  The attempts of one worker. \<open>cancelled k\<close>: the token is cancelled before attempt \<open>k\<close>;
  \<open>res k\<close>: what attempt \<open>k\<close> gives. The second component is the number of attempts made.
\<close>

function backend_worker ::
  "nat \<Rightarrow> (nat \<Rightarrow> bool) \<Rightarrow> (nat \<Rightarrow> BackendActionOutcome option) \<Rightarrow> nat \<Rightarrow> WorkerOutcome \<times> nat" where
  "backend_worker attempts cancelled res k =
     (if k > attempts then (WFailed, 0)
      else if cancelled k then (WSkipped, 0)
      else (case res k of
              Some AoSuccess \<Rightarrow> (WSuccess, 1)
            | Some AlreadyMissing \<Rightarrow> (WSkipped, 1)
            | Some (AoFailed _ False) \<Rightarrow> (WFailed, 1)
            | _ \<Rightarrow> if k < attempts then map_prod id Suc (backend_worker attempts cancelled res (k + 1))
                   else (WFailed, 1)))"
  by pat_completeness auto
termination
  by (relation "measure (\<lambda>(attempts, cancelled, res, k). Suc attempts - k)") auto

declare backend_worker.simps [simp del]

text \<open>The executors: a panic ends the worker without an outcome.\<close>

fun executor_outcome :: "ExecResult \<Rightarrow> WorkerOutcome option" where
  "executor_outcome (ExDone ExSuccess) = Some WSuccess"
| "executor_outcome (ExDone (ExSkipped _)) = Some WSkipped"
| "executor_outcome (ExDone (ExFailed _)) = Some WFailed"
| "executor_outcome (ExError _) = Some WFailed"
| "executor_outcome ExPanic = None"

definition executor_attempt :: "u64 option \<Rightarrow> bool \<Rightarrow> ExecResult \<Rightarrow> ExecResult" where
  "executor_attempt timeout in_time r =
     (case timeout of
        None \<Rightarrow> r
      | Some secs \<Rightarrow>
          if in_time then r else ExDone (ExFailed (''timeout after '' @ dec_str (unat secs) @ ''s'')))"

definition terminal :: "ExecResult \<Rightarrow> bool" where
  "terminal r = (case r of ExDone ExSuccess \<Rightarrow> True | ExDone (ExSkipped _) \<Rightarrow> True | ExPanic \<Rightarrow> True | _ \<Rightarrow> False)"

function executor_attempts ::
  "nat \<Rightarrow> (nat \<Rightarrow> bool) \<Rightarrow> (nat \<Rightarrow> ExecResult) \<Rightarrow> nat \<Rightarrow> ExecResult \<Rightarrow> ExecResult \<times> nat" where
  "executor_attempts attempts cancelled res k lst =
     (if k > attempts \<or> cancelled k then (lst, 0)
      else if terminal (res k) \<or> k = attempts then (res k, 1)
      else map_prod id Suc (executor_attempts attempts cancelled res (k + 1) (res k)))"
  by pat_completeness auto
termination
  by (relation "measure (\<lambda>(attempts, cancelled, res, k, lst). Suc attempts - k)") auto

declare executor_attempts.simps [simp del]

text \<open>\<open>cancelled 0\<close>: the token is cancelled when the worker starts.\<close>

definition executor_worker ::
  "nat \<Rightarrow> (nat \<Rightarrow> bool) \<Rightarrow> (nat \<Rightarrow> ExecResult) \<Rightarrow> WorkerOutcome option \<times> nat" where
  "executor_worker attempts cancelled res =
     (if cancelled 0 then (Some WSkipped, 0)
      else map_prod executor_outcome id
        (executor_attempts attempts cancelled res 1 (ExDone (ExFailed ''no attempts''))))"

section \<open>Dispatch\<close>

text \<open>
  The loops over the candidates, numbered from \<open>i\<close>: the candidates handed to a worker, and
  the number of those skipped for their links. \<open>cancel i\<close>: the token is cancelled when
  candidate \<open>i\<close> is looked at.
\<close>

fun dispatch_backend_loop ::
  "(nat \<Rightarrow> bool) \<Rightarrow> bool \<Rightarrow> u64 option \<Rightarrow> nat \<Rightarrow> u64 \<Rightarrow> 'a EntryView_scheme list \<Rightarrow>
   (nat \<times> 'a EntryView_scheme) list \<times> nat" where
  "dispatch_backend_loop cancel skip limit i vol [] = ([], 0)"
| "dispatch_backend_loop cancel skip limit i vol (entry # entries) =
     (if cancel i then ([], 0)
      else if skip \<and> e_nlink entry > 1
      then map_prod id Suc (dispatch_backend_loop cancel skip limit (i + 1) vol entries)
      else if (case limit of Some l \<Rightarrow> saturating_add vol (e_size entry) > l | None \<Rightarrow> False) then ([], 0)
      else map_prod (Cons (i, entry)) id
             (dispatch_backend_loop cancel skip limit (i + 1) (saturating_add vol (e_size entry)) entries))"

fun dispatch_workers_loop ::
  "(nat \<Rightarrow> bool) \<Rightarrow> bool \<Rightarrow> u64 option \<Rightarrow> nat \<Rightarrow> u64 \<Rightarrow> 'a EntryView_scheme list \<Rightarrow>
   (nat \<times> 'a EntryView_scheme) list \<times> nat" where
  "dispatch_workers_loop cancel skip limit i vol [] = ([], 0)"
| "dispatch_workers_loop cancel skip limit i vol (entry # entries) =
     (if cancel i then ([], 0)
      else if skip \<and> e_nlink entry > 1
      then map_prod id Suc (dispatch_workers_loop cancel skip limit (i + 1) vol entries)
      else (case limit of
              Some cap \<Rightarrow>
                if saturating_add vol (e_size entry) > cap then ([], 0)
                else map_prod (Cons (i, entry)) id
                       (dispatch_workers_loop cancel skip limit (i + 1)
                          (saturating_add vol (e_size entry)) entries)
            | None \<Rightarrow>
                map_prod (Cons (i, entry)) id
                  (dispatch_workers_loop cancel skip limit (i + 1) vol entries)))"

text \<open>Counting the results of the workers; a worker that panics counts as failed.\<close>

definition tally :: "nat \<Rightarrow> WorkerOutcome option list \<Rightarrow> nat \<times> nat \<times> nat" where
  "tally hardlinked results =
     (length (filter (\<lambda>r. r = Some WSuccess) results),
      hardlinked + length (filter (\<lambda>r. r = Some WSkipped) results),
      length (filter (\<lambda>r. r = Some WFailed \<or> r = None) results))"

text \<open>
  \<open>work i entry\<close>: the outcome of the worker of candidate \<open>i\<close>, \<open>None\<close> if it panics, and the
  number of its attempts. The result is the candidates sent, with those numbers, and the
  counts of successes, skips and failures.
\<close>

definition dispatch_backend_action ::
  "(nat \<Rightarrow> bool) \<Rightarrow> ActionOpts \<Rightarrow> (nat \<Rightarrow> ScopedEntryRow \<Rightarrow> WorkerOutcome option \<times> nat) \<Rightarrow>
   ScopedEntryRow list \<Rightarrow> (nat \<times> ScopedEntryRow \<times> nat) list \<times> nat \<times> nat \<times> nat" where
  "dispatch_backend_action cancel opts work candidates =
     (let (sent, hardlinked) =
        dispatch_backend_loop cancel (skip_hardlinked opts) (max_volume opts) 0 0 candidates
      in (map (\<lambda>(i, e). (i, e, snd (work i e))) sent, tally hardlinked (map (\<lambda>(i, e). fst (work i e)) sent)))"

definition dispatch_workers ::
  "(nat \<Rightarrow> bool) \<Rightarrow> ActionOpts \<Rightarrow> (nat \<Rightarrow> EntryRow \<Rightarrow> WorkerOutcome option \<times> nat) \<Rightarrow>
   EntryRow list \<Rightarrow> (nat \<times> EntryRow \<times> nat) list \<times> nat \<times> nat \<times> nat" where
  "dispatch_workers cancel opts work candidates =
     (let (sent, hardlinked) =
        dispatch_workers_loop cancel (skip_hardlinked opts) (max_volume opts) 0 0 candidates
      in (map (\<lambda>(i, e). (i, e, snd (work i e))) sent, tally hardlinked (map (\<lambda>(i, e). fst (work i e)) sent)))"

section \<open>The run of a policy\<close>

fun to_predicate :: "TargetFilter \<Rightarrow> Predicate" where
  "to_predicate FFs = PTrue"
| "to_predicate (FOst osts) = OnOst osts"
| "to_predicate (FPool n) = InPool n"
| "to_predicate (FUser u) = Cmp Uid OpEq (Num (int (unat u)))"
| "to_predicate (FGroup g) = Cmp Gid OpEq (Num (int (unat g)))"
| "to_predicate (FProjid q) = Cmp Projid OpEq (Num (int (unat q)))"

definition effective_predicate :: "(string \<times> string) list \<Rightarrow> TargetFilter \<Rightarrow> Predicate" where
  "effective_predicate tags target =
     (case to_predicate target of PTrue \<Rightarrow> Tags tags | other \<Rightarrow> PAnd [Tags tags, other])"

record PolicyRunTask =
  tk_policy_id :: u64
  tk_trigger_idx :: u32
  tk_target :: TargetFilter
  tk_dry_run :: bool

datatype BackendPolicyAction = BpPurge | BpAlert BackendAlert | BpBackup BackupExecutor

text \<open>
  \<open>rn_db\<close>: which rows the database finds for a clause and its parameters; \<open>rn_order\<close>: how it
  orders rows; \<open>rn_cancel\<close> and \<open>rn_stop\<close>: when the token is seen cancelled by the dispatcher
  and by the workers; \<open>rn_attempt\<close>: whether an attempt of a backend action ends in time,
  whether its timeout is recorded, and its result; \<open>rn_exec\<close>: whether an execution ends in
  time, and what the system answers to it.
\<close>

record RunEnv =
  rn_cancelled :: bool
  rn_db :: "string \<Rightarrow> SqlParam list \<Rightarrow> ScopedEntryRow \<Rightarrow> bool"
  rn_order :: "string option \<Rightarrow> ScopedEntryRow list \<Rightarrow> ScopedEntryRow list"
  rn_cancel :: "nat \<Rightarrow> bool"
  rn_stop :: "nat \<Rightarrow> nat \<Rightarrow> bool"
  rn_attempt :: "BackendPolicyAction \<Rightarrow> ScopedEntryRow \<Rightarrow> nat \<Rightarrow> bool \<times> bool \<times> BackendActionOutcome option"
  rn_exec :: "nat \<Rightarrow> nat \<Rightarrow> bool \<times> ExecEnv"

text \<open>The limit and the offset are bound as signed integers; they are below \<open>2 ^ 63\<close> here.\<close>

definition query_scoped_page ::
  "RunEnv \<Rightarrow> Catalog \<Rightarrow> string \<Rightarrow> string \<Rightarrow> SqlParam list \<Rightarrow> string option \<Rightarrow> u64 \<Rightarrow> u64 \<Rightarrow> ScopedEntryRow list" where
  "query_scoped_page env c fs clause params order_by limit offset =
     take (unat limit) (drop (unat offset) (rn_order env order_by
       (map snd (filter (\<lambda>(k, e). key_filesystem k = fs \<and> rn_db env clause params e)
          (scoped_entries c)))))"

definition policy_candidates :: "RunEnv \<Rightarrow> Catalog \<Rightarrow> PolicyDef \<Rightarrow> TargetFilter \<Rightarrow> ScopedEntryRow list" where
  "policy_candidates env c d target =
     (let (clause, params) = to_sql (effective_predicate (match_tags d) target);
          limit = (case max_count (action d) of Some n \<Rightarrow> n | None \<Rightarrow> 10000);
          order_by = map_option (\<lambda>col. col @ '' ASC'') (Option.bind (lru_sort (action d)) lru_column)
      in query_scoped_page env c (pd_filesystem d) clause params order_by limit 0)"

definition archive_params :: "ActionOpts \<Rightarrow> u32 \<times> string option" where
  "archive_params opts =
     (case opt_hsm opts of
        None \<Rightarrow> (1, None)
      | Some h \<Rightarrow> (case hp_archive_id h of None \<Rightarrow> 1 | Some i \<Rightarrow> i, hp_hints h))"

definition alert_params :: "ActionOpts \<Rightarrow> string option \<times> bool \<times> string option" where
  "alert_params opts =
     (case alert opts of
        None \<Rightarrow> (None, True, None)
      | Some a \<Rightarrow> (ap_webhook a, ap_log a, ap_message a))"

definition backup_from_config :: "BackupCommandConfig \<Rightarrow> ActionOpts \<Rightarrow> BackupExecutor" where
  "backup_from_config cfg opts =
     \<lparr>bx_adapter = backup_build cfg, bx_op = BkArchive, bx_archive_id = fst (archive_params opts),
      bx_hints = snd (archive_params opts), bx_dest_template = bc_dest_template cfg\<rparr>"

definition make_executor :: "PolicyDef \<Rightarrow> string + Executor" where
  "make_executor d =
     (case pd_kind d of
        Purge \<Rightarrow> Inr PurgeExecutor
      | HsmArchive \<Rightarrow> Inr (HsmArchiveExecutor (fst (archive_params (action d))) (snd (archive_params (action d))))
      | HsmRelease \<Rightarrow> Inr HsmReleaseExecutor
      | HsmRestore \<Rightarrow> Inr HsmRestoreExecutor
      | HsmRemove \<Rightarrow> Inr HsmRemoveExecutor
      | Migration \<Rightarrow>
          (case cmd (action d) of
             None \<Rightarrow> Inl ''migration policy has no cmd config''
           | Some c \<Rightarrow>
               Inr (CmdX \<lparr>cx_command = cm_command c, cx_args_template = cm_args c,
                 cx_timeout = (case cm_timeout_secs c of None \<Rightarrow> timeout_secs (action d) | Some t \<Rightarrow> Some t),
                 cx_vars = cm_vars c\<rparr>))
      | Alert \<Rightarrow>
          (let (webhook, log, message) = alert_params (action d)
           in Inr (AlertX \<lparr>ax_webhook = webhook, ax_log = log, ax_message = message\<rparr>))
      | Backup \<Rightarrow>
          (case backup (action d) of
             None \<Rightarrow> Inl ''backup policy has no backup config''
           | Some cfg \<Rightarrow> Inr (BackupX (backup_from_config cfg (action d)))))"

definition backend_policy_action :: "PolicyDef \<Rightarrow> string + BackendPolicyAction" where
  "backend_policy_action d =
     (case pd_kind d of
        Purge \<Rightarrow> Inr BpPurge
      | Alert \<Rightarrow>
          (let (webhook, log, message) = alert_params (action d)
           in Inr (BpAlert \<lparr>al_webhook = webhook, al_log = log, al_message = message\<rparr>))
      | Backup \<Rightarrow>
          (case backup (action d) of
             None \<Rightarrow> Inl ''backup policy has no backup config''
           | Some cfg \<Rightarrow> Inr (BpBackup (backup_from_config cfg (action d))))
      | _ \<Rightarrow> Inl (policy_kind_as_str (pd_kind d) @ '' is not a backend-neutral action''))"

datatype RunResult =
  RunCancelled | RunPolicyError PolicyError | RunError string | RunMisconfigured string | RunDone "nat \<times> nat \<times> nat"

text \<open>What a run dispatched: the candidates with the number of attempts on each.\<close>

datatype acted =
    NotActed
  | BackendActed BackendPolicyAction "(nat \<times> ScopedEntryRow \<times> nat) list"
  | Executed Executor "(nat \<times> EntryRow \<times> nat) list"

definition backend_attempts ::
  "RunEnv \<Rightarrow> ActionOpts \<Rightarrow> BackendPolicyAction \<Rightarrow> nat \<Rightarrow> ScopedEntryRow \<Rightarrow> WorkerOutcome option \<times> nat" where
  "backend_attempts env opts act i entry =
     map_prod Some id (backend_worker (attempt_limit (retry opts)) (rn_stop env i)
       (\<lambda>k. case rn_attempt env act entry k of
              (in_time, recorded, res) \<Rightarrow> completion_barrier (timeout_secs opts) in_time recorded res) 1)"

definition executor_work ::
  "RunEnv \<Rightarrow> ActionOpts \<Rightarrow> Executor \<Rightarrow> nat \<Rightarrow> EntryRow \<Rightarrow> WorkerOutcome option \<times> nat" where
  "executor_work env opts x i entry =
     executor_worker (attempt_limit (retry opts)) (rn_stop env i)
       (\<lambda>k. case rn_exec env i k of
              (in_time, answers) \<Rightarrow> executor_attempt (timeout_secs opts) in_time (fst (execute x answers entry)))"

definition run_backend ::
  "RunEnv \<Rightarrow> Catalog \<Rightarrow> PolicyDef \<Rightarrow> bool \<Rightarrow> ScopedEntryRow list \<Rightarrow> RunResult \<times> acted" where
  "run_backend env c d dry_run candidates =
     (if dry_run then (RunDone (0, length candidates, 0), NotActed)
      else (case action_backend_new c (pd_filesystem d) of
              Inl _ \<Rightarrow> (RunError ''no action backend'', NotActed)
            | Inr _ \<Rightarrow>
              (case backend_policy_action d of
                 Inl e \<Rightarrow> (RunError e, NotActed)
               | Inr act \<Rightarrow>
                 (let (sent, counts) = dispatch_backend_action (rn_cancel env) (action d)
                        (backend_attempts env (action d) act) candidates
                  in (RunDone counts, BackendActed act sent)))))"

definition run_executor ::
  "RunEnv \<Rightarrow> PolicyDef \<Rightarrow> bool \<Rightarrow> ScopedEntryRow list \<Rightarrow> RunResult \<times> acted" where
  "run_executor env d dry_run candidates =
     (if \<exists>r \<in> set candidates. to_lustre_compat r = None
      then (RunError (''filesystem '' @ pd_filesystem d @ '' requires an ActionBackend before policy execution''),
            NotActed)
      else (case (if dry_run then Inr DryRunExecutor else make_executor d) of
              Inl e \<Rightarrow> (RunMisconfigured e, NotActed)
            | Inr x \<Rightarrow>
              (let (sent, counts) = dispatch_workers (rn_cancel env) (action d)
                     (executor_work env (action d) x) (map (the \<circ> to_lustre_compat) candidates)
               in (RunDone counts, Executed x sent))))"

definition policy_run ::
  "RunEnv \<Rightarrow> PolicyStore \<Rightarrow> Catalog \<Rightarrow> PolicyRunTask \<Rightarrow> RunResult \<times> acted" where
  "policy_run env t c task =
     (if rn_cancelled env then (RunCancelled, NotActed)
      else (case policy_get t (tk_policy_id task) of
              Inl e \<Rightarrow> (RunPolicyError e, NotActed)
            | Inr row \<Rightarrow>
              (let d = pr_definition row in
               case get_filesystem c (pd_filesystem d) of
                 None \<Rightarrow> (RunError (''unknown filesystem: '' @ pd_filesystem d), NotActed)
               | Some config \<Rightarrow>
                 (case or_else (validate_policy_for_filesystem d config)
                         (validate_target_for_filesystem (tk_target task) config) of
                    Some e \<Rightarrow> (RunPolicyError e, NotActed)
                  | None \<Rightarrow>
                    (let candidates = policy_candidates env c d (tk_target task) in
                     if pd_kind d \<in> {Purge, Alert, Backup}
                     then run_backend env c d (tk_dry_run task) candidates
                     else run_executor env d (tk_dry_run task) candidates)))))"

text \<open>The effects of the executions of a run, each with its entry.\<close>

fun run_effects :: "RunEnv \<Rightarrow> acted \<Rightarrow> (EntryRow \<times> effect) list" where
  "run_effects env (Executed x sent) =
     concat (map (\<lambda>(i, entry, n). concat (map (\<lambda>k.
       map (Pair entry) (snd (execute x (snd (rn_exec env i k)) entry))) [1..<n + 1])) sent)"
| "run_effects env _ = []"

section \<open>Lemmas\<close>

lemma dispatch_volume_irrelevant:
  "dispatch_backend_loop cancel skip None i v es = dispatch_backend_loop cancel skip None i v' es"
proof (induction es arbitrary: i v v')
  case (Cons entry es)
  obtain r where "\<And>u. dispatch_backend_loop cancel skip None (Suc i) u es = r" using Cons by blast
  then show ?case by (cases skip) simp_all
qed simp

text \<open>The two dispatchers choose the same candidates.\<close>

lemma dispatch_loops_agree:
  "dispatch_workers_loop cancel skip limit i v es = dispatch_backend_loop cancel skip limit i v es"
proof (induction es arbitrary: i v)
  case (Cons entry es)
  obtain r where "\<And>u. dispatch_backend_loop cancel skip None (Suc i) u es = r"
    using dispatch_volume_irrelevant by blast
  with Cons show ?case by (cases limit; cases skip) simp_all
qed simp

text \<open>One turn of the loop.\<close>

lemma dispatch_loop_cases [consumes 1, case_names stop skipped sends]:
  assumes "dispatch_backend_loop cancel skip limit i v (entry # es) = (sent, sk)"
  obtains "sent = []" "sk = 0" "cancel i \<or> limit \<noteq> None"
  | sk' where "dispatch_backend_loop cancel skip limit (i + 1) v es = (sent, sk')" "sk = Suc sk'"
      "skip" "e_nlink entry > 1"
  | sent' where "dispatch_backend_loop cancel skip limit (i + 1) (saturating_add v (e_size entry)) es = (sent', sk)"
      "sent = (i, entry) # sent'" "\<not> (skip \<and> e_nlink entry > 1)"
      "\<forall>cap. limit = Some cap \<longrightarrow> \<not> saturating_add v (e_size entry) > cap"
  using assms
  by (cases "dispatch_backend_loop cancel skip limit (i + 1) v es";
      cases "dispatch_backend_loop cancel skip limit (i + 1) (saturating_add v (e_size entry)) es")
    (auto split: if_splits option.splits)

definition volume :: "'a EntryView_scheme list \<Rightarrow> nat" where
  "volume es = sum_list (map (\<lambda>e. unat (e_size e)) es)"

lemma volume_simps [simp]: "volume [] = 0" "volume (e # es) = unat (e_size e) + volume es"
  by (simp_all add: volume_def)

text \<open>What the loop sends, in terms of the candidates.\<close>

lemma dispatch_loop_sent:
  assumes "dispatch_backend_loop cancel skip limit i v es = (sent, sk)"
  shows "subseq (map snd sent) es \<and> set sent \<subseteq> set (enumerate i es) \<and> length sent + sk \<le> length es \<and>
    (skip \<longrightarrow> (\<forall>(k, e) \<in> set sent. e_nlink e \<le> 1)) \<and>
    ((\<forall>k. \<not> cancel k) \<and> limit = None \<longrightarrow> length sent + sk = length es)"
  using assms
proof (induction es arbitrary: i v sent sk)
  case (Cons entry es)
  from Cons.prems show ?case
  proof (cases rule: dispatch_loop_cases)
    case stop
    then show ?thesis by auto
  next
    case (skipped sk')
    with Cons.IH [OF skipped(1)] show ?thesis by auto
  next
    case (sends sent')
    with Cons.IH [OF sends(1)] show ?thesis by auto
  qed
qed simp

lemma saturating_le:
  fixes v d cap :: u64
  assumes "\<not> saturating_add v d > cap" "cap \<noteq> - 1"
  shows "unat (saturating_add v d) = unat v + unat d" "unat v + unat d \<le> unat cap"
proof -
  have "unat cap \<noteq> 2 ^ 64 - 1"
  proof
    assume "unat cap = 2 ^ 64 - 1"
    then have "unat cap = unat (- 1 :: u64)" by (simp add: unsigned_minus_1_eq_mask mask_eq_exp_minus_1)
    with \<open>cap \<noteq> - 1\<close> show False by (simp add: word_unat_eq_iff)
  qed
  moreover have "unat (saturating_add v d) \<le> unat cap"
    using assms(1) by (simp add: word_less_nat_alt)
  ultimately show "unat v + unat d \<le> unat cap"
    using unat_bounds(4) [of cap] unat_saturating_add [of v d] by (auto simp: min_def split: if_splits)
  then show "unat (saturating_add v d) = unat v + unat d"
    using unat_bounds(4) [of cap] unat_saturating_add [of v d] by simp
qed

lemma dispatch_loop_volume:
  assumes "dispatch_backend_loop cancel skip (Some cap) i v es = (sent, sk)" and "cap \<noteq> - 1"
    and "unat v \<le> unat cap"
  shows "unat v + volume (map snd sent) \<le> unat cap"
  using assms
proof (induction es arbitrary: i v sent sk)
  case (Cons entry es)
  from Cons.prems(1) show ?case
  proof (cases rule: dispatch_loop_cases)
    case stop
    with Cons.prems show ?thesis by simp
  next
    case (skipped sk')
    with Cons show ?thesis by blast
  next
    case (sends sent')
    with saturating_le [of cap v "e_size entry"] Cons.IH [OF sends(1)] Cons.prems(2)
    show ?thesis by simp
  qed
qed simp

section \<open>Workers and retries\<close>

fun retry_result :: "BackendActionOutcome option \<Rightarrow> bool" where
  "retry_result None = True"
| "retry_result (Some (AoFailed _ r)) = r"
| "retry_result _ = False"

text \<open>One turn of the loop.\<close>

lemma backend_worker_cases [consumes 1, case_names over cancelled final again]:
  assumes "backend_worker A c res k = (r, n)"
  obtains "k > A" "r = WFailed" "n = 0"
  | "k \<le> A" "c k" "r = WSkipped" "n = 0"
  | "k \<le> A" "\<not> c k" "n = 1" "r = WSuccess \<longleftrightarrow> res k = Some AoSuccess"
      "r = WSkipped \<longleftrightarrow> res k = Some AlreadyMissing" "retry_result (res k) \<longrightarrow> k = A"
  | m where "k < A" "\<not> c k" "retry_result (res k)" "n = Suc m" "backend_worker A c res (k + 1) = (r, m)"
proof -
  obtain r' m where rec: "backend_worker A c res (k + 1) = (r', m)" by fastforce
  have unfolded: "(if k > A then (WFailed, 0) else if c k then (WSkipped, 0)
      else (case res k of
              Some AoSuccess \<Rightarrow> (WSuccess, 1)
            | Some AlreadyMissing \<Rightarrow> (WSkipped, 1)
            | Some (AoFailed _ False) \<Rightarrow> (WFailed, 1)
            | _ \<Rightarrow> if k < A then (r', Suc m) else (WFailed, 1))) = (r, n)"
    using assms unfolding backend_worker.simps [of A c res k] rec map_prod_simp id_apply .
  show thesis
  proof (cases "res k")
    case None
    with unfolded rec that show thesis by (auto split: if_splits)
  next
    case (Some x)
    with unfolded rec that show thesis by (cases x) (auto split: if_splits bool.splits)
  qed
qed

text \<open>
  The attempts of a worker: their number, that all but the last met a result that asks for a
  retry, that the token was not cancelled before any of them, and the outcome.
\<close>

lemma backend_worker_spec:
  assumes "backend_worker A c res k = (r, n)"
  shows "n \<le> Suc A - k \<and> (\<forall>j. k \<le> j \<and> Suc j < k + n \<longrightarrow> retry_result (res j)) \<and>
    (\<forall>j. k \<le> j \<and> j < k + n \<longrightarrow> \<not> c j) \<and>
    (r = WSuccess \<longleftrightarrow> n > 0 \<and> res (k + n - 1) = Some AoSuccess) \<and>
    (k \<le> A \<and> r = WFailed \<longrightarrow> n > 0 \<and> res (k + n - 1) \<notin> {Some AoSuccess, Some AlreadyMissing} \<and>
       (retry_result (res (k + n - 1)) \<longrightarrow> k + n = Suc A)) \<and>
    (r = WSkipped \<longrightarrow> (n > 0 \<and> res (k + n - 1) = Some AlreadyMissing) \<or> c (k + n))"
  using assms
proof (induction "Suc A - k" arbitrary: k r n rule: less_induct)
  case less
  from less.prems show ?case
  proof (cases rule: backend_worker_cases)
    case (again m)
    then have IH: "m \<le> Suc A - (k + 1) \<and> (\<forall>j. k + 1 \<le> j \<and> Suc j < k + 1 + m \<longrightarrow> retry_result (res j)) \<and>
      (\<forall>j. k + 1 \<le> j \<and> j < k + 1 + m \<longrightarrow> \<not> c j) \<and>
      (r = WSuccess \<longleftrightarrow> m > 0 \<and> res (k + 1 + m - 1) = Some AoSuccess) \<and>
      (k + 1 \<le> A \<and> r = WFailed \<longrightarrow> m > 0 \<and> res (k + 1 + m - 1) \<notin> {Some AoSuccess, Some AlreadyMissing} \<and>
         (retry_result (res (k + 1 + m - 1)) \<longrightarrow> k + 1 + m = Suc A)) \<and>
      (r = WSkipped \<longrightarrow> (m > 0 \<and> res (k + 1 + m - 1) = Some AlreadyMissing) \<or> c (k + 1 + m))"
      using less.hyps [of "k + 1" r m] less.prems by auto
    have "k + 1 \<le> j \<or> j = k" if "k \<le> j" for j using that by linarith
    moreover have "res k \<noteq> Some AoSuccess" "res k \<noteq> Some AlreadyMissing" using again(3) by auto
    ultimately show ?thesis using IH again
      by (auto simp: Suc_le_eq le_less)
  next
    case final
    then show ?thesis
      by (cases "res k"; cases r) (auto simp: le_less_Suc_eq split: BackendActionOutcome.splits)
  qed auto
qed

lemma executor_attempts_spec:
  assumes "executor_attempts A c res k lst = (r, n)"
  shows "n \<le> Suc A - k \<and> (\<forall>j. k \<le> j \<and> Suc j < k + n \<longrightarrow> \<not> terminal (res j)) \<and>
    (\<forall>j. k \<le> j \<and> j < k + n \<longrightarrow> \<not> c j) \<and> r = (if n = 0 then lst else res (k + n - 1)) \<and>
    (k \<le> A \<longrightarrow> c (k + n) \<or> (n > 0 \<and> (terminal r \<or> k + n = Suc A)))"
  using assms
proof (induction "Suc A - k" arbitrary: k lst r n rule: less_induct)
  case less
  obtain r' m where rec: "executor_attempts A c res (k + 1) (res k) = (r', m)" by fastforce
  have unfolded: "(if k > A \<or> c k then (lst, 0) else if terminal (res k) \<or> k = A then (res k, 1)
      else (r', Suc m)) = (r, n)"
    using less.prems unfolding executor_attempts.simps [of A c res k lst] rec map_prod_simp id_apply .
  show ?case
  proof (cases "k > A \<or> c k \<or> terminal (res k) \<or> k = A")
    case True
    with unfolded show ?thesis by (auto simp: le_less_Suc_eq split: if_splits)
  next
    case False
    then have shorter: "Suc A - (k + 1) < Suc A - k" by linarith
    have IH: "m \<le> Suc A - (k + 1) \<and> (\<forall>j. k + 1 \<le> j \<and> Suc j < k + 1 + m \<longrightarrow> \<not> terminal (res j)) \<and>
      (\<forall>j. k + 1 \<le> j \<and> j < k + 1 + m \<longrightarrow> \<not> c j) \<and> r' = (if m = 0 then res k else res (k + 1 + m - 1)) \<and>
      (k + 1 \<le> A \<longrightarrow> c (k + 1 + m) \<or> (m > 0 \<and> (terminal r' \<or> k + 1 + m = Suc A)))"
      using less.hyps [OF shorter rec] by auto
    have eq: "r = r'" "n = Suc m" using unfolded False by auto
    have split: "k + 1 \<le> j \<or> j = k" if "k \<le> j" for j using that by linarith
    have "\<forall>j. k \<le> j \<and> Suc j < k + n \<longrightarrow> \<not> terminal (res j)"
      using IH False split unfolding eq by (metis add_Suc_right add_Suc plus_1_eq_Suc add.commute)
    moreover have "\<forall>j. k \<le> j \<and> j < k + n \<longrightarrow> \<not> c j"
      using IH False split unfolding eq by (metis add_Suc_right add_Suc plus_1_eq_Suc add.commute)
    moreover have "n \<le> Suc A - k" "r = res (k + n - 1)" "c (k + n) \<or> terminal r \<or> k + n = Suc A"
      using IH False unfolding eq by auto
    ultimately show ?thesis using eq by simp
  qed
qed

lemma executor_worker_spec:
  assumes "executor_worker A stop res = (r, n)" "1 \<le> A"
  shows "n \<le> A \<and> (\<forall>j. 1 \<le> j \<and> j < n \<longrightarrow> \<not> terminal (res j)) \<and> (\<forall>j. 1 \<le> j \<and> j \<le> n \<longrightarrow> \<not> stop j) \<and>
    (if n = 0 then r = Some (if stop 0 then WSkipped else WFailed) \<and> (stop 0 \<or> stop 1)
     else r = executor_outcome (res n) \<and> (terminal (res n) \<or> n = A \<or> stop (n + 1)))"
proof (cases "stop 0")
  case False
  obtain x where x: "executor_attempts A stop res 1 (ExDone (ExFailed ''no attempts'')) = (x, n)" "r = executor_outcome x"
    using assms(1) False by (auto simp: executor_worker_def map_prod_def split: prod.splits)
  have less: "Suc j < 1 + n" if "j < n" for j using that by simp
  from executor_attempts_spec [OF x(1)] x(2) False assms(2) less show ?thesis by auto
qed (use assms in \<open>auto simp: executor_worker_def\<close>)

text \<open>
  C18: both kinds of workers try an entry at most as often as the policy allows and never once
  the run is cancelled. A backend action is tried again only after an error, of whatever
  kind, or a failure reported as retryable; the worker reports success exactly when its last
  attempt succeeded, failure only when the last attempt failed for good or was the last one
  allowed, and a skip when the object was missing or the run was cancelled before the next
  attempt, even after a failed one. An executor is tried again after every error or failure;
  its worker reports the outcome of its last attempt, also when a cancellation follows, and
  without an attempt a skip or a failure, by when the cancellation came.
\<close>

theorem worker_retries:
  assumes "backend_worker (attempt_limit p) cancelled res 1 = (r, n)"
    and "executor_worker (attempt_limit p) stop ex = (r', n')"
  shows "n \<le> attempt_limit p \<and> (\<forall>j. 1 \<le> j \<and> j < n \<longrightarrow> retry_result (res j)) \<and>
    (\<forall>j. 1 \<le> j \<and> j \<le> n \<longrightarrow> \<not> cancelled j) \<and>
    (r = WSuccess \<longleftrightarrow> n > 0 \<and> res n = Some AoSuccess) \<and>
    (r = WFailed \<longrightarrow> n > 0 \<and> res n \<notin> {Some AoSuccess, Some AlreadyMissing} \<and>
       (retry_result (res n) \<longrightarrow> n = attempt_limit p)) \<and>
    (r = WSkipped \<longrightarrow> n > 0 \<and> res n = Some AlreadyMissing \<or> cancelled (n + 1)) \<and>
    n' \<le> attempt_limit p \<and> (\<forall>j. 1 \<le> j \<and> j < n' \<longrightarrow> \<not> terminal (ex j)) \<and>
    (\<forall>j. 1 \<le> j \<and> j \<le> n' \<longrightarrow> \<not> stop j) \<and>
    (if n' = 0 then r' = Some (if stop 0 then WSkipped else WFailed) \<and> (stop 0 \<or> stop 1)
     else r' = executor_outcome (ex n') \<and> (terminal (ex n') \<or> n' = attempt_limit p \<or> stop (n' + 1)))"
proof -
  have limit: "1 \<le> attempt_limit p" by (simp add: attempt_limit_def split: option.splits)
  from limit backend_worker_spec [OF assms(1)]
  have "n \<le> attempt_limit p \<and> (\<forall>j. 1 \<le> j \<and> j < n \<longrightarrow> retry_result (res j)) \<and>
    (\<forall>j. 1 \<le> j \<and> j \<le> n \<longrightarrow> \<not> cancelled j) \<and>
    (r = WSuccess \<longleftrightarrow> n > 0 \<and> res n = Some AoSuccess) \<and>
    (r = WFailed \<longrightarrow> n > 0 \<and> res n \<notin> {Some AoSuccess, Some AlreadyMissing} \<and>
       (retry_result (res n) \<longrightarrow> n = attempt_limit p)) \<and>
    (r = WSkipped \<longrightarrow> n > 0 \<and> res n = Some AlreadyMissing \<or> cancelled (n + 1))" by simp
  then show ?thesis
    by (elim conjE, intro conjI executor_worker_spec [OF assms(2) limit, THEN conjunct1]
        executor_worker_spec [OF assms(2) limit, THEN conjunct2, THEN conjunct1]
        executor_worker_spec [OF assms(2) limit, THEN conjunct2, THEN conjunct2, THEN conjunct1]
        executor_worker_spec [OF assms(2) limit, THEN conjunct2, THEN conjunct2, THEN conjunct2])
qed

theorem worker_retries_witness:
  "retry_result (Some (AoFailed ''busy'' True)) \<and>
   backend_worker (attempt_limit (Some \<lparr>max_attempts = 3, backoff_secs = 0\<rparr>)) (\<lambda>_. False)
     (\<lambda>k. if k = 1 then Some (AoFailed ''busy'' True) else Some AoSuccess) 1 = (WSuccess, 2) \<and>
   executor_worker (attempt_limit (Some \<lparr>max_attempts = 3, backoff_secs = 0\<rparr>)) (\<lambda>k. k = 2)
     (\<lambda>k. ExDone (ExFailed ''busy'')) = (Some WFailed, 1)"
proof -
  have run: "backend_worker (attempt_limit (Some \<lparr>max_attempts = 3, backoff_secs = 0\<rparr>)) (\<lambda>_. False)
     (\<lambda>k. if k = 1 then Some (AoFailed ''busy'' True) else Some AoSuccess) 1 = (WSuccess, 2)"
    by (simp add: attempt_limit_def backend_worker.simps)
  have run': "executor_worker (attempt_limit (Some \<lparr>max_attempts = 3, backoff_secs = 0\<rparr>)) (\<lambda>k. k = 2)
     (\<lambda>k. ExDone (ExFailed ''busy'')) = (Some WFailed, 1)"
  proof -
    have limit: "attempt_limit (Some \<lparr>max_attempts = 3, backoff_secs = 0\<rparr>) = 3" by (simp add: attempt_limit_def)
    have "executor_attempts 3 (\<lambda>k. k = 2) (\<lambda>k. ExDone (ExFailed ''busy'')) 2 lst = (lst, 0)" for lst
      by (subst executor_attempts.simps) simp
    then have "executor_attempts 3 (\<lambda>k. k = 2) (\<lambda>k. ExDone (ExFailed ''busy'')) 1 lst = (ExDone (ExFailed ''busy''), 1)" for lst
      by (subst executor_attempts.simps) (simp add: terminal_def flip: numeral_2_eq_2)
    then show ?thesis unfolding limit executor_worker_def by simp
  qed
  have "retry_result ((\<lambda>k. if k = 1 then Some (AoFailed ''busy'' True) else Some AoSuccess) (1 :: nat))"
    using worker_retries [OF run run'] by auto
  with run run' show ?thesis by simp
qed

section \<open>Dispatch bounds\<close>

definition dispatch_ok ::
  "(nat \<Rightarrow> bool) \<Rightarrow> ActionOpts \<Rightarrow> 'a EntryView_scheme list \<Rightarrow> (nat \<times> 'a EntryView_scheme \<times> nat) list \<Rightarrow>
   nat \<times> nat \<times> nat \<Rightarrow> bool" where
  "dispatch_ok cancel opts es acted counts \<longleftrightarrow>
     subseq (map (fst \<circ> snd) acted) es \<and>
     (\<forall>(i, e, n) \<in> set acted. (i, e) \<in> set (enumerate 0 es)) \<and>
     (skip_hardlinked opts \<longrightarrow> (\<forall>(i, e, n) \<in> set acted. e_nlink e \<le> 1)) \<and>
     (\<forall>cap. max_volume opts = Some cap \<and> cap \<noteq> - 1 \<longrightarrow> volume (map (fst \<circ> snd) acted) \<le> unat cap) \<and>
     (case counts of (success, skipped, failed) \<Rightarrow>
        length acted \<le> success + skipped + failed \<and> success + skipped + failed \<le> length es \<and>
        ((\<forall>k. \<not> cancel k) \<and> max_volume opts = None \<longrightarrow> success + skipped + failed = length es))"

lemma tally_total:
  "tally h results = (s, k, f) \<Longrightarrow> s + k + f = h + length results"
proof (induction results arbitrary: s k f)
  case (Cons r rs)
  then show ?case by (cases r; cases "the r") (auto simp: tally_def)
qed (simp add: tally_def)

lemma dispatch_ok_loop:
  assumes "dispatch_backend_loop cancel (skip_hardlinked opts) (max_volume opts) 0 0 es = (sent, h)"
  shows "dispatch_ok cancel opts es (map (\<lambda>(i, e). (i, e, snd (work i e))) sent)
    (tally h (map (\<lambda>(i, e). fst (work i e)) sent))"
proof -
  obtain s k f where counts: "tally h (map (\<lambda>(i, e). fst (work i e)) sent) = (s, k, f)" by (cases "tally h (map (\<lambda>(i, e). fst (work i e)) sent)")
  have entries: "map ((fst \<circ> snd) \<circ> (\<lambda>(i, e). (i, e, snd (work i e)))) sent = map snd sent"
    by (simp add: comp_def case_prod_unfold)
  have "volume (map snd sent) \<le> unat cap" if "max_volume opts = Some cap" "cap \<noteq> - 1" for cap
    using dispatch_loop_volume [of cancel "skip_hardlinked opts" cap 0 0 es sent h] assms that by simp
  with dispatch_loop_sent [OF assms] tally_total [OF counts] show ?thesis
    by (auto simp: dispatch_ok_def counts entries)
qed

lemma dispatch_backend_ok:
  "dispatch_backend_action cancel opts work es = (sent, counts) \<Longrightarrow> dispatch_ok cancel opts es sent counts"
  using dispatch_ok_loop [of cancel opts es _ _ work]
  by (auto simp: dispatch_backend_action_def split: prod.splits)

lemma dispatch_workers_ok:
  "dispatch_workers cancel opts work es = (sent, counts) \<Longrightarrow> dispatch_ok cancel opts es sent counts"
  using dispatch_ok_loop [of cancel opts es _ _ work]
  by (auto simp: dispatch_workers_def dispatch_loops_agree split: prod.splits)

text \<open>
  C17: both dispatchers act on candidates of the query only, in its order and each at most
  once; never on hard-linked ones when the policy skips them; on a total size within the
  policy's volume limit (unless that is the largest 64-bit number, where the saturating sum
  is no bound); and every candidate they sent is counted exactly once. With no limit and no
  cancellation the counts cover all candidates.
\<close>

theorem dispatch_bounds:
  "(case dispatch_backend_action cancel opts work es of (sent, counts) \<Rightarrow> dispatch_ok cancel opts es sent counts) \<and>
   (case dispatch_workers cancel opts work' rows of (sent, counts) \<Rightarrow> dispatch_ok cancel opts rows sent counts)"
  using dispatch_backend_ok dispatch_workers_ok by (auto split: prod.splits)

section \<open>What a run may do\<close>

text \<open>What the kind of a policy needs of its filesystem.\<close>

definition authorized :: "PolicyDef \<Rightarrow> FileSystemConfig \<Rightarrow> bool" where
  "authorized d config \<longleftrightarrow> fs_id config = pd_filesystem d \<and>
     (case pd_kind d of
        Purge \<Rightarrow> purge (capabilities config)
      | Alert \<Rightarrow> namespace (capabilities config)
      | Backup \<Rightarrow> namespace (capabilities config) \<and> backup (action d) \<noteq> None
      | Migration \<Rightarrow> fs_backend config = Lustre
      | _ \<Rightarrow> hsm (capabilities config) \<and> fs_backend config = Lustre)"

fun target_authorized :: "TargetFilter \<Rightarrow> FileSystemConfig \<Rightarrow> bool" where
  "target_authorized (FOst _) config = ost (capabilities config)"
| "target_authorized (FPool _) config = stripe (capabilities config)"
| "target_authorized _ config = True"

text \<open>The rows a policy selects: of its filesystem, and found for its tags and the target.\<close>

definition is_candidate :: "RunEnv \<Rightarrow> Catalog \<Rightarrow> PolicyDef \<Rightarrow> TargetFilter \<Rightarrow> ScopedEntryRow \<Rightarrow> bool" where
  "is_candidate env c d target e \<longleftrightarrow>
     (\<exists>k. (k, e) \<in> set (scoped_entries c) \<and> key_filesystem k = pd_filesystem d) \<and>
     rn_db env (fst (to_sql (effective_predicate (match_tags d) target)))
       (snd (to_sql (effective_predicate (match_tags d) target))) e"

definition count_limit :: "ActionOpts \<Rightarrow> nat" where
  "count_limit opts = (case max_count opts of Some n \<Rightarrow> unat n | None \<Rightarrow> 10000)"

definition run_ok :: "RunEnv \<Rightarrow> Catalog \<Rightarrow> PolicyDef \<Rightarrow> PolicyRunTask \<Rightarrow> acted \<Rightarrow> bool" where
  "run_ok env c d task acted \<longleftrightarrow>
     (case acted of
        NotActed \<Rightarrow> True
      | BackendActed act sent \<Rightarrow>
          \<not> tk_dry_run task \<and> backend_policy_action d = Inr act \<and> length sent \<le> count_limit (action d) \<and>
          (\<forall>(i, e, n) \<in> set sent. is_candidate env c d (tk_target task) e \<and> n \<le> attempt_limit (retry (action d)))
      | Executed x sent \<Rightarrow>
          (if tk_dry_run task then x = DryRunExecutor else make_executor d = Inr x) \<and>
          length sent \<le> count_limit (action d) \<and>
          (\<forall>(i, e, n) \<in> set sent. n \<le> attempt_limit (retry (action d)) \<and>
             (\<exists>r. is_candidate env c d (tk_target task) r \<and> to_lustre_compat r = Some e)))"

lemma authorized_iff:
  assumes "validate_policy_for_filesystem d config = None"
  shows "authorized d config"
  using assms
  by (cases "pd_kind d")
    (auto simp: validate_policy_for_filesystem_def authorized_def or_else_def validate_kind_def require_def
      split: if_splits option.splits sum.splits)

lemma target_authorized_iff:
  "validate_target_for_filesystem target config = None \<longleftrightarrow> target_authorized target config"
  by (cases target) (simp_all add: validate_target_for_filesystem_def require_def)

lemma policy_candidates_ok:
  assumes order: "\<And>o' es. mset (rn_order env o' es) = mset es"
  shows "length (policy_candidates env c d target) \<le> count_limit (action d)"
    and "e \<in> set (policy_candidates env c d target) \<Longrightarrow> is_candidate env c d target e"
proof -
  have set_order: "set (rn_order env o' es) = set es" for o' es
    using order [of o' es] by (metis set_mset_mset)
  show "length (policy_candidates env c d target) \<le> count_limit (action d)"
    by (simp add: policy_candidates_def query_scoped_page_def count_limit_def case_prod_unfold Let_def
        split: option.splits)
  show "is_candidate env c d target e" if "e \<in> set (policy_candidates env c d target)"
  proof -
    from that have "e \<in> set (rn_order env (map_option (\<lambda>col. col @ '' ASC'') (Option.bind (lru_sort (action d)) lru_column))
        (map snd (filter (\<lambda>(k, e). key_filesystem k = pd_filesystem d \<and>
          rn_db env (fst (to_sql (effective_predicate (match_tags d) target)))
            (snd (to_sql (effective_predicate (match_tags d) target))) e) (scoped_entries c))))"
      by (auto simp: policy_candidates_def query_scoped_page_def case_prod_unfold Let_def dest!: in_set_takeD in_set_dropD)
    then show ?thesis unfolding set_order by (auto simp: is_candidate_def)
  qed
qed

lemma dispatch_ok_members:
  assumes "dispatch_ok cancel opts es sent counts"
  shows "length sent \<le> length es" "(i, e, n) \<in> set sent \<Longrightarrow> e \<in> set es"
proof -
  show "length sent \<le> length es"
    using assms by (auto simp: dispatch_ok_def dest: list_emb_length)
  show "e \<in> set es" if "(i, e, n) \<in> set sent"
  proof -
    from assms that have "(i, e) \<in> set (enumerate 0 es)" by (auto simp: dispatch_ok_def)
    then show ?thesis by (auto simp: in_set_enumerate_eq)
  qed
qed

lemma dispatch_attempts:
  "dispatch_backend_action cancel opts work es = (sent, counts) \<Longrightarrow> (i, e, n) \<in> set sent \<Longrightarrow> n = snd (work i e)"
  "dispatch_workers cancel opts work' rows = (sent', counts') \<Longrightarrow> (i, e', n) \<in> set sent' \<Longrightarrow> n = snd (work' i e')"
  by (auto simp: dispatch_backend_action_def dispatch_workers_def split: prod.splits)

lemma attempts_bounded:
  "snd (backend_attempts env opts act i e) \<le> attempt_limit (retry opts)"
  "snd (executor_work env opts x i e') \<le> attempt_limit (retry opts)"
proof -
  have "snd (backend_worker A c res 1) \<le> A" for A c res
    using backend_worker_spec [of A c res 1] by (cases "backend_worker A c res 1") auto
  then show "snd (backend_attempts env opts act i e) \<le> attempt_limit (retry opts)"
    by (simp add: backend_attempts_def)
  have "snd (executor_attempts A c res 1 lst) \<le> A" for A c res lst
    using executor_attempts_spec [of A c res 1 lst] by (cases "executor_attempts A c res 1 lst") auto
  then show "snd (executor_work env opts x i e') \<le> attempt_limit (retry opts)"
    by (simp add: executor_work_def executor_worker_def)
qed

lemma run_backend_ok:
  assumes "run_backend env c d (tk_dry_run task) es = (r, acted)" "length es \<le> count_limit (action d)"
    and "\<And>e. e \<in> set es \<Longrightarrow> is_candidate env c d (tk_target task) e"
  shows "run_ok env c d task acted"
proof (cases "acted = NotActed")
  case False
  then obtain act sent counts where act: "\<not> tk_dry_run task" "backend_policy_action d = Inr act" "acted = BackendActed act sent"
      and disp: "dispatch_backend_action (rn_cancel env) (action d) (backend_attempts env (action d) act) es = (sent, counts)"
    using assms(1) by (auto simp: run_backend_def split: if_splits sum.splits prod.splits)
  note ok = dispatch_ok_members [OF dispatch_backend_ok [OF disp]]
  have "n \<le> attempt_limit (retry (action d))" if "(i, e, n) \<in> set sent" for i e n
    using dispatch_attempts(1) [OF disp that] attempts_bounded(1) by simp
  with act ok assms(2,3) show ?thesis by (auto simp: run_ok_def)
qed (simp add: run_ok_def)

lemma run_executor_ok:
  assumes "run_executor env d (tk_dry_run task) es = (r, acted)" "length es \<le> count_limit (action d)"
    and "\<And>e. e \<in> set es \<Longrightarrow> is_candidate env c d (tk_target task) e"
  shows "run_ok env c d task acted"
proof (cases "acted = NotActed")
  case False
  then obtain x sent counts where x: "(if tk_dry_run task then x = DryRunExecutor else make_executor d = Inr x)"
      and lustre: "\<forall>r \<in> set es. to_lustre_compat r \<noteq> None" and act: "acted = Executed x sent"
      and disp: "dispatch_workers (rn_cancel env) (action d) (executor_work env (action d) x)
        (map (the \<circ> to_lustre_compat) es) = (sent, counts)"
    using assms(1) by (auto simp: run_executor_def split: if_splits sum.splits prod.splits)
  note ok = dispatch_ok_members [OF dispatch_workers_ok [OF disp]]
  have row: "\<exists>r. is_candidate env c d (tk_target task) r \<and> to_lustre_compat r = Some e" if "(i, e, n) \<in> set sent" for i e n
  proof -
    from ok(2) [OF that] obtain r where "r \<in> set es" "e = the (to_lustre_compat r)" by auto
    with lustre assms(3) show ?thesis by (intro exI [of _ r]) auto
  qed
  have "n \<le> attempt_limit (retry (action d))" if "(i, e, n) \<in> set sent" for i e n
    using dispatch_attempts(2) [OF disp that] attempts_bounded(2) by simp
  with x act ok(1) row assms(2) show ?thesis by (auto simp: run_ok_def)
qed (simp add: run_ok_def)

lemma run_effects_permitted:
  assumes "(entry, eff) \<in> set (run_effects env acted)"
  obtains x sent i n answers where "acted = Executed x sent" "(i, entry, n) \<in> set sent"
    "permitted x answers entry eff" "x \<noteq> DryRunExecutor"
proof -
  from assms obtain x sent i n k where "acted = Executed x sent" "(i, entry, n) \<in> set sent"
    "eff \<in> set (snd (execute x (snd (rn_exec env i k)) entry))"
    by (cases acted) auto
  moreover from this(3) have "permitted x (snd (rn_exec env i k)) entry eff" "x \<noteq> DryRunExecutor"
    using exec_ok_execute [of x "snd (rn_exec env i k)" entry] by (auto simp: exec_ok_def)
  ultimately show thesis using that by blast
qed

lemma policy_run_cases:
  assumes "policy_run env t c task = (r, acted)"
  obtains "acted = NotActed"
  | row config d es where "\<not> rn_cancelled env" "policy_get t (tk_policy_id task) = Inr row" "d = pr_definition row"
      "get_filesystem c (pd_filesystem d) = Some config"
      "validate_policy_for_filesystem d config = None" "validate_target_for_filesystem (tk_target task) config = None"
      "es = policy_candidates env c d (tk_target task)"
      "if pd_kind d \<in> {Purge, Alert, Backup} then run_backend env c d (tk_dry_run task) es = (r, acted)
       else run_executor env d (tk_dry_run task) es = (r, acted)"
  using assms
  by (auto simp: policy_run_def or_else_def Let_def split: if_splits sum.splits option.splits)

text \<open>
  C5: a run acts only for a stored policy, on a registered filesystem that is the policy's
  own and has the capabilities its kind and target need; only on rows of that filesystem
  that the database finds for the policy's tags and the target, at most as many as the
  policy allows and with at most the allowed attempts on each; with exactly the action the
  policy describes. A dry run has no effect, and every effect of an execution is one that
  its executor may have on its entry.
\<close>

theorem policy_run_authorized:
  assumes "policy_run env t c task = (r, acted)" "\<And>o' es. mset (rn_order env o' es) = mset es"
  shows "acted = NotActed \<or>
    (\<exists>row config. \<not> rn_cancelled env \<and> policy_get t (tk_policy_id task) = Inr row \<and>
       get_filesystem c (pd_filesystem (pr_definition row)) = Some config \<and>
       authorized (pr_definition row) config \<and> target_authorized (tk_target task) config \<and>
       run_ok env c (pr_definition row) task acted \<and>
       (\<forall>(entry, eff) \<in> set (run_effects env acted).
          \<not> tk_dry_run task \<and> (\<exists>x answers. make_executor (pr_definition row) = Inr x \<and> permitted x answers entry eff)))"
  using assms(1)
proof (cases rule: policy_run_cases)
  case (2 row config d es)
  note es = policy_candidates_ok [OF assms(2), where c = c and d = d and target = "tk_target task"]
  have ok: "run_ok env c d task acted"
    using 2(8) run_backend_ok run_executor_ok es unfolding 2(7) by (metis (no_types, lifting))
  have "\<not> tk_dry_run task \<and> (\<exists>x answers. make_executor d = Inr x \<and> permitted x answers entry eff)"
    if "(entry, eff) \<in> set (run_effects env acted)" for entry eff
    using that by (rule run_effects_permitted) (use ok in \<open>auto simp: run_ok_def split: if_splits\<close>)
  with ok 2 authorized_iff target_authorized_iff show ?thesis by blast
qed simp

definition demo_opts :: ActionOpts where
  "demo_opts = \<lparr>max_count = Some 5, max_volume = Some 10000000, nb_threads = None, timeout_secs = None,
     lru_sort = Some LruAtime, rate_limit = None, retry = None, opt_hsm = None, backup = None, cmd = None,
     alert = None, skip_hardlinked = True\<rparr>"

definition demo_policy :: PolicyDef where
  "demo_policy = \<lparr>pd_name = ''old'', pd_filesystem = ''lustre-a'', pd_kind = Purge,
     match_tags = [(''age'', ''old'')], trigger = ''cron:0 2 * * *'', action = demo_opts, pd_enabled = True\<rparr>"

definition demo_policies :: PolicyStore where
  "demo_policies = \<lparr>ps_next = 2, ps_rows = [\<lparr>pr_id = 1, pr_name = ''old'', pr_definition = demo_policy,
     pr_enabled = True, pr_created_at = 0, pr_updated_at = 0\<rparr>]\<rparr>"

definition demo_run :: RunEnv where
  "demo_run = \<lparr>rn_cancelled = False, rn_db = (\<lambda>_ _ _. True), rn_order = (\<lambda>_ es. es), rn_cancel = (\<lambda>_. False),
     rn_stop = (\<lambda>_ _. False), rn_attempt = (\<lambda>_ _ _. (True, True, Some AoSuccess)),
     rn_exec = (\<lambda>_ _. (True, cmd_demo_env))\<rparr>"

definition demo_task :: PolicyRunTask where
  "demo_task = \<lparr>tk_policy_id = 1, tk_trigger_idx = 0, tk_target = FUser 1000, tk_dry_run = False\<rparr>"

lemmas policy_demo_defs = demo_run_def demo_policies_def demo_policy_def demo_opts_def demo_task_def

lemma demo_trigger: "parse_trigger ''cron:0 2 * * *'' = Inr (Cron ''0 0 2 * * *'')"
  by code_simp

lemma demo_candidates:
  "policy_candidates demo_run hsm_demo_catalog demo_policy (FUser 1000) = [from_lustre ''lustre-a'' sample_attrs]"
  by (simp add: policy_candidates_def query_scoped_page_def policy_demo_defs hsm_demo_catalog_def case_prod_unfold Let_def)

lemma demo_policy_run:
  "policy_run demo_run demo_policies hsm_demo_catalog demo_task =
     (RunDone (1, 0, 0), BackendActed BpPurge [(0, from_lustre ''lustre-a'' sample_attrs, 1)])"
proof -
  let ?config = "snd (hd (filesystems demo_catalog))"
  have fs: "get_filesystem hsm_demo_catalog ''lustre-a'' = Some ?config"
    by (simp add: get_filesystem_def hsm_demo_catalog_def demo_catalog_def)
  have valid: "validate_policy_for_filesystem demo_policy ?config = None"
    "validate_target_for_filesystem (FUser 1000) ?config = None"
    by (simp_all add: validate_policy_for_filesystem_def validate_target_for_filesystem_def validate_kind_def
        validate_spec_def require_def or_else_def policy_demo_defs demo_catalog_def demo_trigger)
  have row: "policy_get demo_policies 1 = Inr (hd (ps_rows demo_policies))"
    "pr_definition (hd (ps_rows demo_policies)) = demo_policy"
    by (simp_all add: policy_get_def demo_policies_def)
  have new: "\<exists>b. action_backend_new hsm_demo_catalog ''lustre-a'' = Inr b"
    by (simp add: action_backend_new_def adapter_new_def fs) (simp add: demo_catalog_def)
  have worker: "backend_worker 1 (\<lambda>_. False) (\<lambda>k. Some AoSuccess) 1 = (WSuccess, 1)"
    by (simp add: backend_worker.simps)
  have loop: "dispatch_backend_loop (\<lambda>_. False) True (Some 10000000) 0 0 [from_lustre ''lustre-a'' sample_attrs] =
      ([(0, from_lustre ''lustre-a'' sample_attrs)], 0)"
    by (simp add: from_lustre_def sample_attrs_def saturating_add_def)
  have "run_backend demo_run hsm_demo_catalog demo_policy False [from_lustre ''lustre-a'' sample_attrs] =
     (RunDone (1, 0, 0), BackendActed BpPurge [(0, from_lustre ''lustre-a'' sample_attrs, 1)])"
    using new worker loop
    by (auto simp: run_backend_def dispatch_backend_action_def backend_policy_action_def backend_attempts_def
        policy_demo_defs attempt_limit_def completion_barrier_def tally_def)
  with fs valid row demo_candidates show ?thesis
    by (simp add: policy_run_def or_else_def demo_task_def demo_run_def demo_policy_def)
qed

theorem policy_run_authorized_witness:
  "run_ok demo_run hsm_demo_catalog demo_policy demo_task
     (BackendActed BpPurge [(0, from_lustre ''lustre-a'' sample_attrs, 1)])"
proof -
  have "mset (rn_order demo_run o' es) = mset es" for o' es by (simp add: demo_run_def)
  from policy_run_authorized [OF demo_policy_run this] show ?thesis
    by (auto simp: policy_get_def demo_policies_def demo_task_def)
qed

section \<open>Schedules\<close>

text \<open>
  What the scheduler documents of the operations used: \<open>view\<close> is the table of schedules, by
  identifier, with their names. Listing gives the schedules whose name has the prefix,
  removing one takes it out, and adding one takes a new identifier.
\<close>

definition scheduler_laws :: "'s Scheduler \<Rightarrow> ('s \<Rightarrow> nat \<Rightarrow> string option) \<Rightarrow> bool" where
  "scheduler_laws sch view \<longleftrightarrow>
     (\<forall>s p ids. list_by_prefix sch s p = Inr ids \<longrightarrow> set ids = {i. \<exists>n. view s i = Some n \<and> prefix p n}) \<and>
     (\<forall>s i s'. sched_remove sch s i = (None, s') \<longrightarrow> view s' = (view s)(i := None)) \<and>
     (\<forall>s n p t i s'. sched_add sch s n p t = (Inr i, s') \<longrightarrow> view s i = None \<and> view s' = (view s)(i := Some n))"

lemma remove_all_view:
  assumes "scheduler_laws sch view" "remove_all sch ids s = (None, s')"
  shows "view s' = (\<lambda>i. if i \<in> set ids then None else view s i)"
  using assms(2)
proof (induction ids arbitrary: s)
  case (Cons i ids)
  then obtain s1 where "sched_remove sch s i = (None, s1)" "remove_all sch ids s1 = (None, s')"
    by (auto split: prod.splits option.splits)
  with Cons.IH [of s1] assms(1) show ?case by (fastforce simp: scheduler_laws_def)
qed simp

text \<open>The schedules left after those of a policy are removed.\<close>

definition without_prefix :: "string \<Rightarrow> (nat \<Rightarrow> string option) \<Rightarrow> nat \<Rightarrow> string option" where
  "without_prefix p m = (\<lambda>i. case m i of None \<Rightarrow> None | Some n \<Rightarrow> if prefix p n then None else Some n)"

lemma remove_policy_schedule_view:
  assumes "scheduler_laws sch view" "remove_policy_schedule sch s policy_id = (None, s')"
  shows "view s' = without_prefix (schedule_name policy_id) (view s)"
proof -
  from assms(2) obtain ids where ids: "list_by_prefix sch s (schedule_name policy_id) = Inr ids"
      "remove_all sch ids s = (None, s')"
    by (auto simp: remove_policy_schedule_def split: sum.splits)
  with assms(1) have "set ids = {i. \<exists>n. view s i = Some n \<and> prefix (schedule_name policy_id) n}"
    by (auto simp: scheduler_laws_def)
  with remove_all_view [OF assms(1) ids(2)] show ?thesis
    by (auto simp: without_prefix_def fun_eq_iff split: option.splits)
qed

lemma reconcile_view:
  assumes "scheduler_laws sch view" "reconcile_triggers sch cron_ok s policy_id str enabled = (Inr r, s')"
  shows "view s' = (case r of
      None \<Rightarrow> without_prefix (schedule_name policy_id) (view s)
    | Some i \<Rightarrow> (without_prefix (schedule_name policy_id) (view s))(i := Some (schedule_name policy_id))) \<and>
    (r = None \<longleftrightarrow> \<not> enabled \<or> (\<exists>spec. parse_trigger str = Inr spec \<and> build_trigger cron_ok spec = Inr None)) \<and>
    (enabled \<longrightarrow> (\<exists>spec. parse_trigger str = Inr spec \<and> (\<exists>b. build_trigger cron_ok spec = Inr b)))"
proof -
  from assms(2) obtain s1 where rm: "remove_policy_schedule sch s policy_id = (None, s1)"
    by (auto simp: reconcile_triggers_def split: prod.splits option.splits)
  note view1 = remove_policy_schedule_view [OF assms(1) rm]
  show ?thesis
  proof (cases enabled)
    case False
    with assms(2) rm view1 show ?thesis by (auto simp: reconcile_triggers_def)
  next
    case True
    with assms(2) rm obtain spec b where spec: "parse_trigger str = Inr spec" "build_trigger cron_ok spec = Inr b"
      by (auto simp: reconcile_triggers_def split: sum.splits)
    show ?thesis
    proof (cases b)
      case None
      with True assms(2) rm spec view1 show ?thesis by (auto simp: reconcile_triggers_def)
    next
      case (Some t)
      with True assms(2) rm spec obtain i where
        "sched_add sch s1 (schedule_name policy_id) policy_id t = (Inr i, s')" "r = Some i"
        by (auto simp: reconcile_triggers_def split: prod.splits sum.splits)
      with assms(1) view1 True spec Some show ?thesis by (auto simp: scheduler_laws_def)
    qed
  qed
qed

text \<open>
  C27: a successful reconciliation removes every schedule whose name begins with the policy's
  and, for an enabled policy with a time trigger, adds exactly one under the policy's name;
  it touches no other schedule. A trigger that does not parse or is invalid is an error and
  nothing is added.
\<close>

theorem reconcile_schedules:
  assumes "scheduler_laws sch view" "reconcile_triggers sch cron_ok s policy_id str enabled = (Inr r, s')"
  shows "view s' = (case r of
      None \<Rightarrow> without_prefix (schedule_name policy_id) (view s)
    | Some i \<Rightarrow> (without_prefix (schedule_name policy_id) (view s))(i := Some (schedule_name policy_id))) \<and>
    (r = None \<longleftrightarrow> \<not> enabled \<or> (\<exists>spec. parse_trigger str = Inr spec \<and> build_trigger cron_ok spec = Inr None)) \<and>
    (enabled \<longrightarrow> (\<exists>spec. parse_trigger str = Inr spec \<and> (\<exists>b. build_trigger cron_ok spec = Inr b)))"
  using reconcile_view [OF assms] .

text \<open>
  The names of different policies can be prefixes of each other: reconciling policy 1 also
  removes the schedule of policy 10.
\<close>

lemma schedule_prefix_clash:
  "prefix (schedule_name 1) (schedule_name 10) \<and>
   without_prefix (schedule_name 1) ((\<lambda>_. None)(7 := Some (schedule_name 10))) = (\<lambda>_. None)"
proof -
  have "schedule_name 1 = ''rbh.policy.1''" "schedule_name 10 = ''rbh.policy.10''"
    by code_simp+
  then show ?thesis by (auto simp: without_prefix_def)
qed

text \<open>A scheduler that keeps its table in memory.\<close>

definition memory_scheduler :: "(nat \<times> (nat \<times> string) list) Scheduler" where
  "memory_scheduler =
     \<lparr>list_by_prefix = (\<lambda>(k, m) p. Inr (map fst (filter (\<lambda>(i, n). map_of m i = Some n \<and> prefix p n) m))),
      sched_remove = (\<lambda>(k, m) i. (None, (k, filter (\<lambda>x. fst x \<noteq> i) m))),
      sched_add = (\<lambda>(k, m) n p t.
        let i = Suc (Max (insert k (fst ` set m))) in (Inr i, (i, (i, n) # m)))\<rparr>"

lemma memory_scheduler_laws: "scheduler_laws memory_scheduler (map_of \<circ> snd)"
proof -
  have "map_of (filter (\<lambda>x. fst x \<noteq> i) m) = (map_of m)(i := None)" for i and m :: "(nat \<times> string) list"
    by (induction m) (auto simp: fun_eq_iff)
  moreover have "map_of m (Suc (Max (insert k (fst ` set m)))) = None" for k and m :: "(nat \<times> string) list"
  proof -
    have "x \<le> Max (insert k (fst ` set m))" if "x \<in> fst ` set m" for x using that by (intro Max_ge) auto
    then have "Suc (Max (insert k (fst ` set m))) \<notin> fst ` set m" using Suc_n_not_le_n by blast
    then show ?thesis by (simp add: map_of_eq_None_iff)
  qed
  ultimately show ?thesis
    by (auto simp: scheduler_laws_def memory_scheduler_def Let_def image_iff dest: map_of_SomeD)
qed

theorem reconcile_schedules_witness:
  "\<exists>s'. reconcile_triggers memory_scheduler (\<lambda>_. True) (3, [(3, ''rbh.policy.2'')]) 2 ''cron:0 2 * * *'' True =
       (Inr (Some 4), s') \<and>
     (map_of \<circ> snd) s' = (\<lambda>i. if i = 4 then Some (schedule_name 2) else None)"
proof -
  have n: "schedule_name 2 = ''rbh.policy.2''"
    by code_simp
  have run: "reconcile_triggers memory_scheduler (\<lambda>_. True) (3, [(3, ''rbh.policy.2'')]) 2 ''cron:0 2 * * *'' True =
      (Inr (Some 4), (4, [(4, ''rbh.policy.2'')]))"
    by (simp add: reconcile_triggers_def remove_policy_schedule_def memory_scheduler_def demo_trigger build_trigger_def n Let_def)
  from reconcile_schedules [OF memory_scheduler_laws run] show ?thesis
    unfolding run by (auto simp: without_prefix_def n fun_eq_iff)
qed

end
