(* ===== verification/Rbh_Float.thy ===== *)
theory Rbh_Float
  imports Complex_Main Rbh_Prelude
begin

text \<open>
  The floating-point numbers of the sources: \<open>f64\<close> rounds a rational number to 53 significant
  bits, ties to even. Each operation of the language is the exact one, rounded. The
  exponent is not bounded: the sources compute ratios and rates of 64-bit counters, far from
  overflow and from subnormal numbers. The facts used are that rounding is monotone, exact
  on the integers up to \<open>2 ^ 53\<close>, and off by at most one part in \<open>2 ^ 53\<close>.
\<close>

fun flog2 :: "nat \<Rightarrow> nat" where
  "flog2 n = (if n \<le> 1 then 0 else Suc (flog2 (n div 2)))"

declare flog2.simps [simp del]

definition log2_floor :: "rat \<Rightarrow> int" where
  "log2_floor q =
     (let (a, b) = quotient_of q; k = int (flog2 (nat a)) - int (flog2 (nat b))
      in if 2 powi k \<le> q then k else k - 1)"

definition round_even :: "rat \<Rightarrow> int" where
  "round_even x =
     (let f = \<lfloor>x\<rfloor>; d = x - of_int f
      in if d < 1 / 2 \<or> (d = 1 / 2 \<and> even f) then f else f + 1)"

definition f64_pos :: "rat \<Rightarrow> rat" where
  "f64_pos q = (let u = 2 powi (log2_floor q - 52) in of_int (round_even (q / u)) * u)"

definition f64 :: "rat \<Rightarrow> rat" where
  "f64 q = (if q = 0 then 0 else if q < 0 then - f64_pos (- q) else f64_pos q)"

definition f64_of_u64 :: "u64 \<Rightarrow> rat" where
  "f64_of_u64 w = f64 (of_nat (unat w))"

definition f64_div :: "rat \<Rightarrow> rat \<Rightarrow> rat" where
  "f64_div x y = f64 (x / y)"

definition f64_mul :: "rat \<Rightarrow> rat \<Rightarrow> rat" where
  "f64_mul x y = f64 (x * y)"

section \<open>The exponent\<close>

lemma flog2_bounds: "0 < n \<Longrightarrow> 2 ^ flog2 n \<le> n \<and> n < 2 ^ Suc (flog2 n)"
proof (induction n rule: flog2.induct)
  case (1 n)
  show ?case
  proof (cases "n \<le> 1")
    case True
    with 1 show ?thesis by (simp add: flog2.simps)
  next
    case False
    with 1 have IH: "2 ^ flog2 (n div 2) \<le> n div 2" "n div 2 < 2 ^ Suc (flog2 (n div 2))" by auto
    have "flog2 n = Suc (flog2 (n div 2))" using False by (subst flog2.simps) simp
    with IH show ?thesis by (simp add: less_mult_imp_div_less) linarith
  qed
qed

lemma powi_Suc: "(2 :: rat) powi (k + 1) = 2 * 2 powi k"
  by (simp add: power_int_add)

lemma log2_floor_bounds:
  assumes "q > 0"
  shows "2 powi (log2_floor q) \<le> q" "q < 2 powi (log2_floor q + 1)"
proof -
  obtain a b where ab: "quotient_of q = (a, b)" by fastforce
  then have b: "b > 0" by (rule quotient_of_denom_pos)
  have q: "q = of_int a / of_int b" using ab by (rule quotient_of_div)
  with assms b have a: "a > 0" by (simp add: zero_less_divide_iff)
  define k where "k = int (flog2 (nat a)) - int (flog2 (nat b))"
  have powa: "(2 :: rat) ^ flog2 (nat a) \<le> of_int a" "of_int a < (2 :: rat) ^ Suc (flog2 (nat a))"
    using flog2_bounds [of "nat a"] a
    by (metis nat_0_le of_nat_le_iff of_int_of_nat_eq of_nat_numeral of_nat_power order_less_imp_le zero_less_nat_eq)
      (metis a flog2_bounds nat_0_le of_nat_less_iff of_int_of_nat_eq of_nat_numeral of_nat_power order_less_imp_le zero_less_nat_eq)
  have powb: "(2 :: rat) ^ flog2 (nat b) \<le> of_int b" "of_int b < (2 :: rat) ^ Suc (flog2 (nat b))"
    using flog2_bounds [of "nat b"] b
    by (metis nat_0_le of_nat_le_iff of_int_of_nat_eq of_nat_numeral of_nat_power order_less_imp_le zero_less_nat_eq)
      (metis b flog2_bounds nat_0_le of_nat_less_iff of_int_of_nat_eq of_nat_numeral of_nat_power order_less_imp_le zero_less_nat_eq)
  have pk: "(2 :: rat) powi k = 2 ^ flog2 (nat a) / 2 ^ flog2 (nat b)"
    by (simp add: k_def power_int_diff)
  have "q < 2 * 2 powi k"
  proof -
    have "q < 2 ^ Suc (flog2 (nat a)) / 2 ^ flog2 (nat b)"
      unfolding q using powa powb a b by (intro frac_less) auto
    then show ?thesis by (simp add: pk)
  qed
  moreover have "2 powi (k - 1) \<le> q"
  proof -
    have "2 ^ flog2 (nat a) / 2 ^ Suc (flog2 (nat b)) \<le> q"
      unfolding q using powa powb a b by (intro frac_le) auto
    then show ?thesis using powi_Suc [of "k - 1"] by (simp add: pk)
  qed
  moreover have "log2_floor q = (if 2 powi k \<le> q then k else k - 1)"
    by (simp add: log2_floor_def ab k_def)
  ultimately show "2 powi (log2_floor q) \<le> q" "q < 2 powi (log2_floor q + 1)"
    using powi_Suc [of k] powi_Suc [of "k - 1"] by (auto split: if_splits)
qed

text \<open>The exponent is determined by the bounds, and monotone.\<close>

lemma log2_floor_mono:
  assumes "0 < p" "p \<le> q"
  shows "log2_floor p \<le> log2_floor q"
proof (rule ccontr)
  assume "\<not> log2_floor p \<le> log2_floor q"
  then have "(2 :: rat) powi (log2_floor q + 1) \<le> 2 powi (log2_floor p)"
    by (intro power_int_increasing) auto
  also have "\<dots> \<le> p" using assms(1) by (rule log2_floor_bounds)
  also have "\<dots> < 2 powi (log2_floor q + 1)" using assms log2_floor_bounds(2) [of q] by simp
  finally show False by simp
qed

section \<open>Rounding\<close>

lemma round_even_int [simp]: "round_even (of_int n) = n"
  by (simp add: round_even_def)

lemma round_even_near: "\<bar>of_int (round_even x) - x\<bar> \<le> 1 / 2"
  by (auto simp: round_even_def Let_def abs_if) linarith+

lemma round_even_bounds: "\<lfloor>x\<rfloor> \<le> round_even x" "round_even x \<le> \<lfloor>x\<rfloor> + 1"
  by (auto simp: round_even_def Let_def)

lemma round_even_mono:
  assumes "x \<le> y"
  shows "round_even x \<le> round_even y"
proof (cases "\<lfloor>x\<rfloor> = \<lfloor>y\<rfloor>")
  case True
  with assms show ?thesis by (auto simp: round_even_def Let_def)
next
  case False
  with assms floor_mono [OF assms] have "\<lfloor>x\<rfloor> + 1 \<le> \<lfloor>y\<rfloor>" by linarith
  with round_even_bounds(2) [of x] round_even_bounds(1) [of y] show ?thesis by linarith
qed

lemma round_even_ge: "of_int n \<le> x \<Longrightarrow> n \<le> round_even x"
  using round_even_mono [of "of_int n" x] by simp

lemma round_even_le: "x \<le> of_int n \<Longrightarrow> round_even x \<le> n"
  using round_even_mono [of x "of_int n"] by simp

text \<open>The significand has 53 bits.\<close>

lemma significand_bounds:
  fixes q :: rat
  assumes "q > 0"
  defines "u \<equiv> 2 powi (log2_floor q - 52)"
  shows "u > 0" "2 ^ 52 \<le> q / u" "q / u < 2 ^ 53"
    "2 ^ 52 \<le> round_even (q / u)" "round_even (q / u) \<le> 2 ^ 53"
proof -
  show u: "u > 0" by (simp add: u_def)
  have "u * 2 ^ 52 = 2 powi (log2_floor q)" by (simp add: u_def power_int_diff)
  with log2_floor_bounds(1) [OF assms(1)] u show ge: "2 ^ 52 \<le> q / u" by (simp add: field_simps)
  have "u * 2 ^ 53 = 2 powi (log2_floor q + 1)" by (simp add: u_def power_int_diff power_int_add)
  with log2_floor_bounds(2) [OF assms(1)] u show le: "q / u < 2 ^ 53" by (simp add: field_simps)
  show "2 ^ 52 \<le> round_even (q / u)" using ge by (intro round_even_ge) simp
  show "round_even (q / u) \<le> 2 ^ 53" using le by (intro round_even_le) simp
qed

lemma f64_pos_mono:
  assumes "0 < p" "p \<le> q"
  shows "f64_pos p \<le> f64_pos q"
proof -
  define u v :: rat where "u = 2 powi (log2_floor p - 52)" and "v = 2 powi (log2_floor q - 52)"
  note p = significand_bounds [OF assms(1), folded u_def]
  note q = significand_bounds [of q, folded v_def]
  have q0: "q > 0" using assms by simp
  show ?thesis
  proof (cases "log2_floor p = log2_floor q")
    case True
    then have "u = v" by (simp add: u_def v_def)
    with assms p(1) show ?thesis
      by (simp add: f64_pos_def Let_def flip: u_def v_def) (simp add: round_even_mono divide_right_mono)
  next
    case False
    with log2_floor_mono [OF assms] have "log2_floor p + 1 \<le> log2_floor q" by simp
    then have "2 * u \<le> v"
      using power_int_increasing [of "log2_floor p - 52 + 1" "log2_floor q - 52" "2 :: rat"] powi_Suc [of "log2_floor p - 52"]
      by (simp add: u_def v_def)
    have "rat_of_int (round_even (p / u)) \<le> rat_of_int (2 ^ 53)" using p(5) by (simp only: of_int_le_iff)
    then have "of_int (round_even (p / u)) * u \<le> 2 ^ 53 * u" using p(1) by (intro mult_right_mono) simp_all
    also have "\<dots> \<le> 2 ^ 52 * v" using \<open>2 * u \<le> v\<close> by simp
    also have "\<dots> \<le> of_int (round_even (q / v)) * v"
    proof -
      have "rat_of_int (2 ^ 52) \<le> rat_of_int (round_even (q / v))" using q(4) [OF q0] by (simp only: of_int_le_iff)
      then show ?thesis using q(1) [OF q0] by (intro mult_right_mono) simp_all
    qed
    finally show ?thesis by (simp add: f64_pos_def Let_def flip: u_def v_def)
  qed
qed

lemma f64_pos_pos: "q > 0 \<Longrightarrow> f64_pos q > 0"
  using significand_bounds(1,4) [of q] by (auto simp: f64_pos_def Let_def intro!: mult_pos_pos)

lemma f64_mono: "0 \<le> p \<Longrightarrow> p \<le> q \<Longrightarrow> f64 p \<le> f64 q"
  using f64_pos_mono [of p q] f64_pos_pos [of q] by (auto simp: f64_def)

lemma f64_nonneg: "0 \<le> q \<Longrightarrow> 0 \<le> f64 q"
  using f64_mono [of 0 q] by (simp add: f64_def)

text \<open>Rounding is off by at most one part in \<open>2 ^ 53\<close>.\<close>

lemma f64_error:
  assumes "0 \<le> q"
  shows "\<bar>f64 q - q\<bar> \<le> q / 2 ^ 53"
proof (cases "q = 0")
  case False
  with assms have q: "q > 0" by simp
  define u :: rat where "u = 2 powi (log2_floor q - 52)"
  note b = significand_bounds [OF q, folded u_def]
  have "\<bar>of_int (round_even (q / u)) * u - q\<bar> = \<bar>of_int (round_even (q / u)) - q / u\<bar> * u"
    using b(1) by (simp add: abs_mult_pos left_diff_distrib)
  also have "\<dots> \<le> 1 / 2 * u" using b(1) round_even_near by (intro mult_right_mono) auto
  also have "\<dots> \<le> q / 2 ^ 53" using b(1,2) by (simp add: field_simps)
  finally show ?thesis using q by (simp add: f64_def f64_pos_def Let_def flip: u_def)
qed (simp add: f64_def)

text \<open>Integers up to \<open>2 ^ 53\<close> are exact.\<close>

lemma f64_exact:
  assumes "n < 2 ^ 53"
  shows "f64 (of_nat n) = of_nat n"
proof (cases "n = 0")
  case False
  then have q: "(of_nat n :: rat) > 0" by simp
  define e where "e = log2_floor (of_nat n) - 52"
  have "e \<le> 0"
  proof (rule ccontr)
    assume "\<not> e \<le> 0"
    then have "(2 :: rat) powi 53 \<le> 2 powi (log2_floor (of_nat n))" by (intro power_int_increasing) (auto simp: e_def)
    also have "\<dots> \<le> of_nat n" using q by (rule log2_floor_bounds)
    finally have "rat_of_nat (2 ^ 53) \<le> rat_of_nat n" by simp
    with assms show False by (simp only: of_nat_le_iff)
  qed
  then have "(of_nat n :: rat) / 2 powi e = of_int (int n * 2 ^ nat (- e))"
    by (simp add: power_int_def power_divide)
  then have "round_even (of_nat n / 2 powi e) = int n * 2 ^ nat (- e)" by (metis round_even_int)
  moreover have "of_int (int n * 2 ^ nat (- e)) * (2 :: rat) powi e = of_nat n"
    using \<open>e \<le> 0\<close> by (simp add: power_int_def power_divide)
  ultimately have "f64_pos (of_nat n) = of_nat n" by (simp add: f64_pos_def Let_def flip: e_def)
  with q show ?thesis by (simp add: f64_def)
qed (simp add: f64_def)

section \<open>Evaluation\<close>

lemma log2_floor_unique:
  assumes "2 powi e \<le> q" "q < 2 powi (e + 1)"
  shows "log2_floor q = e"
proof -
  have q: "q > 0" using assms(1) zero_less_power_int [of "2 :: rat" e] by linarith
  note b = log2_floor_bounds [OF q]
  have "(2 :: rat) powi e < 2 powi (log2_floor q + 1)" "(2 :: rat) powi (log2_floor q) < 2 powi (e + 1)"
    using assms b by linarith+
  then have "e < log2_floor q + 1" "log2_floor q < e + 1"
    by (meson linorder_not_less one_le_numeral power_int_increasing)+
  then show ?thesis by simp
qed

text \<open>The value of a rounding, from the exponent and the significand.\<close>

lemma f64_eval:
  assumes "2 powi e \<le> q" "q < 2 powi (e + 1)"
    and "of_int n - 1 / 2 < q / 2 powi (e - 52)" "q / 2 powi (e - 52) < of_int n + 1 / 2"
  shows "f64 q = of_int n * 2 powi (e - 52)"
proof -
  have "(0 :: rat) < 2 powi e" by simp
  with assms(1) have q: "q > 0" by linarith
  have "round_even (q / 2 powi (e - 52)) = n"
    using round_even_near [of "q / 2 powi (e - 52)"] assms(3,4) by linarith
  with q show ?thesis by (simp add: f64_def f64_pos_def log2_floor_unique [OF assms(1,2)])
qed

lemma f64_relative:
  assumes "0 \<le> q"
  shows "q * (1 - 1 / 2 ^ 53) \<le> f64 q" "f64 q \<le> q * (1 + 1 / 2 ^ 53)"
proof -
  define e where "e = q / 2 ^ 53"
  have "f64 q - q \<le> e" "q - f64 q \<le> e" using f64_error [OF assms] unfolding e_def [symmetric] by linarith+
  moreover have "q * (1 - 1 / 2 ^ 53) = q - e" "q * (1 + 1 / 2 ^ 53) = q + e" by (simp_all add: e_def algebra_simps)
  ultimately show "q * (1 - 1 / 2 ^ 53) \<le> f64 q" "f64 q \<le> q * (1 + 1 / 2 ^ 53)" by linarith+
qed

end
