(* ===== verification/Rbh_Mdt.thy ===== *)
theory Rbh_Mdt
  imports Rbh_Float Rbh_Trigger Rbh_Executor
begin

text \<open>
  Targets of a Lustre filesystem (\<open>crates/lustre-api/src/mdt.rs\<close>): the names of the metadata
  targets, the usage of the object targets, and the changelog users, read from the output
  of \<open>lctl\<close>. The answers of \<open>liblustreapi\<close> per index and of the command are inputs.
\<close>

section \<open>Standard library\<close>

definition saturating_mul :: "u64 \<Rightarrow> u64 \<Rightarrow> u64" where
  "saturating_mul a b = (if unat a * unat b < 2 ^ 64 then a * b else - 1)"

definition strip_cr :: "string \<Rightarrow> string" where
  "strip_cr l = (if l \<noteq> [] \<and> last l = CHR 0x0D then butlast l else l)"

text \<open>\<open>str::lines\<close>: a final line break does not start a line.\<close>

definition str_lines :: "string \<Rightarrow> string list" where
  "str_lines s =
     (let ls = split_on (CHR 0x0A) s
      in map strip_cr (butlast ls) @ (if last ls = [] then [] else [strip_cr (last ls)]))"

definition check_rc :: "int \<Rightarrow> string \<Rightarrow> LustreApiError option" where
  "check_rc rc op = (if rc < 0 then Some (LaFfi op (- rc)) else None)"

section \<open>Targets\<close>

record obd_statfs =
  os_uuid :: bytes
  os_bsize :: u32
  os_blocks :: u64
  os_bfree :: u64
  os_bavail :: u64

text \<open>A target: a negative return code, or what was read.\<close>

type_synonym obd = "int + obd_statfs"

record OstUsage =
  ou_index :: u32
  ou_name :: string
  total_bytes :: u64
  used_bytes :: u64
  free_bytes :: u64
  avail_bytes :: u64

definition obd_name :: "obd_statfs \<Rightarrow> string" where
  "obd_name st =
     (let full = from_utf8_lossy (takeWhile (\<lambda>c. c \<noteq> CHR 0x00) (os_uuid st))
      in case strip_suffix ''_UUID'' full of None \<Rightarrow> full | Some s \<Rightarrow> s)"

definition ENODEV :: int where "ENODEV = 19"

definition EAGAIN :: int where "EAGAIN = 11"

text \<open>Gaps in the index space are skipped, any other error ends the enumeration.\<close>

fun mdt_loop :: "obd list \<Rightarrow> LustreApiError + string list" where
  "mdt_loop [] = Inr []"
| "mdt_loop (Inl rc # slots) =
     (if rc = - ENODEV \<or> rc = - EAGAIN then mdt_loop slots
      else Inl (LaFfi ''llapi_obd_statfs'' (- rc)))"
| "mdt_loop (Inr st # slots) = map_sum id (Cons (obd_name st)) (mdt_loop slots)"

text \<open>\<open>cnt\<close>: the return code and the number of slots; \<open>slot\<close>: the answer per index.\<close>

definition active_mdt_names :: "bytes \<Rightarrow> int \<times> int \<Rightarrow> (nat \<Rightarrow> obd) \<Rightarrow> LustreApiError + string list" where
  "active_mdt_names mount cnt slot =
     (if CHR 0x00 \<in> set mount then Inl PathContainsNul
      else (case check_rc (fst cnt) ''llapi_get_obd_count'' of
              Some e \<Rightarrow> Inl e
            | None \<Rightarrow>
                if snd cnt < 0 then Inl (IntegerOverflow ''llapi_get_obd_count returned negative'')
                else mdt_loop (map slot [0..<nat (snd cnt)])))"

definition ost_of :: "nat \<Rightarrow> obd_statfs \<Rightarrow> OstUsage" where
  "ost_of i st =
     (let bsize = ucast (os_bsize st);
          total = saturating_mul (os_blocks st) bsize;
          free = saturating_mul (os_bfree st) bsize
      in \<lparr>ou_index = of_nat i, ou_name = obd_name st, total_bytes = total,
          used_bytes = saturating_sub total free, free_bytes = free,
          avail_bytes = saturating_mul (os_bavail st) bsize\<rparr>)"

fun ost_loop :: "(nat \<times> obd) list \<Rightarrow> LustreApiError + OstUsage list" where
  "ost_loop [] = Inr []"
| "ost_loop ((i, Inl rc) # slots) =
     (if rc = - ENODEV \<or> rc = - EAGAIN then ost_loop slots
      else Inl (LaFfi ''llapi_obd_statfs(OST)'' (- rc)))"
| "ost_loop ((i, Inr st) # slots) = map_sum id (Cons (ost_of i st)) (ost_loop slots)"

definition ost_usage :: "bytes \<Rightarrow> int \<times> int \<Rightarrow> (nat \<Rightarrow> obd) \<Rightarrow> LustreApiError + OstUsage list" where
  "ost_usage mount cnt slot =
     (if CHR 0x00 \<in> set mount then Inl PathContainsNul
      else (case check_rc (fst cnt) ''llapi_get_obd_count(OST)'' of
              Some e \<Rightarrow> Inl e
            | None \<Rightarrow>
                if snd cnt < 0 then Inl (IntegerOverflow ''llapi_get_obd_count returned negative'')
                else ost_loop (map (\<lambda>i. (i, slot i)) [0..<nat (snd cnt)])))"

definition used_ratio :: "OstUsage \<Rightarrow> rat" where
  "used_ratio u =
     (if total_bytes u = 0 then 0 else f64_div (f64_of_u64 (used_bytes u)) (f64_of_u64 (total_bytes u)))"

section \<open>Changelog users\<close>

record ChangelogUser =
  cu_id :: string
  current_index :: i64

text \<open>What became of the command: it could not be run, or its exit code and outputs.\<close>

datatype lctl = LctlIo ErrorKind | LctlExit "int option" bytes bytes

definition lctl_output :: "string \<Rightarrow> lctl \<Rightarrow> LustreApiError + string" where
  "lctl_output op r =
     (case r of
        LctlIo e \<Rightarrow> Inl (LaIo e)
      | LctlExit c out err \<Rightarrow>
          if c = Some 0 then Inr (from_utf8_lossy out)
          else Inl (LaFfi op (case c of None \<Rightarrow> - 1 | Some n \<Rightarrow> n)))"

definition user_of :: "string list \<Rightarrow> ChangelogUser option" where
  "user_of parts =
     (case parts of
        p0 # p1 # _ \<Rightarrow>
          (case parse_i64 (takeWhile (\<lambda>c. c \<in> set ''0123456789'') p1) of
             None \<Rightarrow> None
           | Some i \<Rightarrow> Some \<lparr>cu_id = (case split_once (CHR ''-'') p0 of None \<Rightarrow> p0 | Some (a, _) \<Rightarrow> a),
                            current_index = i\<rparr>)
      | _ \<Rightarrow> None)"

fun users_loop :: "bool \<Rightarrow> string list \<Rightarrow> ChangelogUser list" where
  "users_loop in_section [] = []"
| "users_loop in_section (raw # rest) =
     (let l = trim raw in
      if prefix ''ID'' l \<and> str_contains ''index'' l \<and> str_contains ''mask'' l then users_loop True rest
      else if \<not> in_section \<or> l = [] then users_loop in_section rest
      else (case user_of (split_whitespace l) of
              None \<Rightarrow> users_loop in_section rest
            | Some u \<Rightarrow> u # users_loop in_section rest))"

definition changelog_users :: "lctl \<Rightarrow> LustreApiError + ChangelogUser list" where
  "changelog_users r = map_sum id (users_loop False \<circ> str_lines) (lctl_output ''lctl get_param changelog_users'' r)"

text \<open>The text between the first two quotes of a line.\<close>

definition quoted :: "string \<Rightarrow> string option" where
  "quoted l =
     (case split_once (CHR 0x27) l of
        None \<Rightarrow> None
      | Some (_, rest) \<Rightarrow> map_option fst (split_once (CHR 0x27) rest))"

definition register_changelog_user :: "lctl \<Rightarrow> LustreApiError + string" where
  "register_changelog_user r =
     (case lctl_output ''lctl changelog_register'' r of
        Inl e \<Rightarrow> Inl e
      | Inr out \<Rightarrow>
          (case find (\<lambda>l. quoted l \<noteq> None) (str_lines out) of
             None \<Rightarrow> Inl (LaFfi ''lctl changelog_register (parse)'' (- 1))
           | Some l \<Rightarrow> Inr (the (quoted l))))"

definition deregister_changelog_user :: "lctl \<Rightarrow> LustreApiError option" where
  "deregister_changelog_user r =
     (case lctl_output ''lctl changelog_deregister'' r of Inl e \<Rightarrow> Some e | Inr _ \<Rightarrow> None)"

section \<open>Lemmas\<close>

lemma used_le_total: "used_bytes (ost_of i st) \<le> total_bytes (ost_of i st)"
  by (simp add: ost_of_def Let_def word_le_nat_alt unat_saturating_sub)

lemma f64_one [simp]: "f64 1 = 1"
  using f64_exact [of 1] by simp

text \<open>The ratio is monotone, and at most one for the usages that are read.\<close>

lemma f64_pos_of_u64: "w \<noteq> 0 \<Longrightarrow> f64_of_u64 w > 0"
  using f64_pos_pos [of "of_nat (unat w)"] by (simp add: f64_of_u64_def f64_def unat_gt_0 del: of_nat_unat)

lemma used_ratio_bounds:
  assumes "used_bytes u \<le> total_bytes u"
  shows "0 \<le> used_ratio u" "used_ratio u \<le> 1"
proof -
  have le: "f64_of_u64 (used_bytes u) \<le> f64_of_u64 (total_bytes u)"
    using assms unfolding f64_of_u64_def by (intro f64_mono) (simp_all add: word_le_nat_alt del: of_nat_unat)
  have nonneg: "0 \<le> f64_of_u64 (used_bytes u)" by (simp add: f64_of_u64_def f64_nonneg del: of_nat_unat)
  show "0 \<le> used_ratio u" using nonneg le by (simp add: used_ratio_def f64_div_def f64_nonneg)
  show "used_ratio u \<le> 1"
  proof (cases "total_bytes u = 0")
    case False
    with le nonneg f64_pos_of_u64 [OF False] have "f64_of_u64 (used_bytes u) / f64_of_u64 (total_bytes u) \<le> 1" by simp
    then have "f64 (f64_of_u64 (used_bytes u) / f64_of_u64 (total_bytes u)) \<le> f64 1"
      using nonneg le by (intro f64_mono) auto
    with False show ?thesis by (simp add: used_ratio_def f64_div_def)
  qed (simp add: used_ratio_def)
qed

text \<open>The enumeration reports every target that answers, in the order of the indices.\<close>

lemma ost_loop_spec:
  "ost_loop slots = Inr us \<Longrightarrow>
     us = concat (map (\<lambda>(i, r). case r of Inl _ \<Rightarrow> [] | Inr st \<Rightarrow> [ost_of i st]) slots) \<and>
     (\<forall>(i, r) \<in> set slots. \<forall>rc. r = Inl rc \<longrightarrow> rc = - ENODEV \<or> rc = - EAGAIN)"
proof (induction slots arbitrary: us rule: ost_loop.induct)
  case (3 i st slots)
  then show ?case by (cases "ost_loop slots") auto
qed (auto split: if_splits)

lemma ost_usage_spec:
  assumes "ost_usage mount cnt slot = Inr us" "u \<in> set us"
  shows "\<exists>i st. i < nat (snd cnt) \<and> slot i = Inr st \<and> u = ost_of i st"
proof -
  from assms(1) have "ost_loop (map (\<lambda>i. (i, slot i)) [0..<nat (snd cnt)]) = Inr us"
    by (auto simp: ost_usage_def split: if_splits option.splits)
  from ost_loop_spec [OF this] assms(2) show ?thesis by (auto split: sum.splits) metis
qed

end
