(* ===== verification/Rbh_Import.thy ===== *)
theory Rbh_Import
  imports Rbh_Policy Rbh_Mdt
begin

text \<open>
  The importer of robinhood configuration files (\<open>crates/rbh-config-import/src/lib.rs\<close>): comments
  are removed, the file is split into blocks, and the blocks that define file classes and
  policies are translated.

  A hash map is a list of pairs with the latest insertion first, read with \<open>map_of\<close>. The
  file is valid UTF-8 and every cut is at an ASCII byte, so no slice fails to decode.
  \<open>dbg\<close> prints a trigger for a warning that no file can cause.
\<close>

section \<open>Comments\<close>

fun strip_block_comments :: "bool \<Rightarrow> string \<Rightarrow> string" where
  "strip_block_comments inside [] = []"
| "strip_block_comments False (c # cs) =
     (if c = CHR ''/'' \<and> cs \<noteq> [] \<and> hd cs = CHR ''*'' then strip_block_comments True (tl cs)
      else c # strip_block_comments False cs)"
| "strip_block_comments True (c # cs) =
     (if c = CHR ''*'' \<and> cs \<noteq> [] \<and> hd cs = CHR ''/'' then strip_block_comments False (tl cs)
      else if c = CHR 0x0A then c # strip_block_comments True cs
      else strip_block_comments True cs)"

definition cut_line :: "string \<Rightarrow> string" where
  "cut_line l =
     (let hash = find_sub ''#'' l; slash = find_sub ''//'' l;
          cut = (case (hash, slash) of
                   (Some a, Some b) \<Rightarrow> min a b
                 | (Some a, None) \<Rightarrow> a
                 | (None, Some b) \<Rightarrow> b
                 | (None, None) \<Rightarrow> length l)
      in take cut l)"

definition strip_comments :: "string \<Rightarrow> string" where
  "strip_comments src = join [CHR 0x0A] (map cut_line (str_lines (strip_block_comments False src)))"

section \<open>Blocks\<close>

definition is_ascii_whitespace :: "char \<Rightarrow> bool" where
  "is_ascii_whitespace c = (c \<in> {CHR '' '', CHR 0x09, CHR 0x0A, CHR 0x0C, CHR 0x0D})"

text \<open>The body up to the brace that closes depth \<open>d\<close>, and what follows it.\<close>

fun block_body :: "nat \<Rightarrow> string \<Rightarrow> (string \<times> string) option" where
  "block_body d [] = None"
| "block_body d (c # cs) =
     (let d' = (if c = CHR ''{'' then d + 1 else if c = CHR ''}'' then d - 1 else d)
      in if d' = 0 then Some ([], cs) else map_option (\<lambda>(b, r). (c # b, r)) (block_body d' cs))"

lemma block_body_length: "block_body d s = Some (b, r) \<Longrightarrow> length r < length s"
  by (induction d s arbitrary: b r rule: block_body.induct) (auto simp: Let_def split: if_splits, fastforce+)

lemma block_body_shorter:
  "block_body d (tl (dropWhile p (dropWhile q s))) = Some (b, r) \<Longrightarrow> length r < length s"
proof (drule block_body_length)
  assume "length r < length (tl (dropWhile p (dropWhile q s)))"
  also have "\<dots> \<le> length (dropWhile q s)" using length_dropWhile_le [of p "dropWhile q s"] by simp
  also have "\<dots> \<le> length s" by (rule length_dropWhile_le)
  finally show ?thesis .
qed

function split_top_level_blocks :: "string \<Rightarrow> string + (string \<times> string) list" where
  "split_top_level_blocks src =
     (let s = dropWhile is_ascii_whitespace src;
          header = takeWhile (\<lambda>c. c \<noteq> CHR ''{'') s;
          rest = dropWhile (\<lambda>c. c \<noteq> CHR ''{'') s
      in if rest = [] then Inr []
         else (case block_body 1 (tl rest) of
                 None \<Rightarrow> Inl (''unbalanced '' @ [CHR 0x27] @ ''{'' @ [CHR 0x27] @ '' for block: '' @ trim header)
               | Some (body, r) \<Rightarrow> map_sum id (Cons (trim header, body)) (split_top_level_blocks r)))"
  by pat_completeness auto
termination
  by (relation "measure length") (auto dest: block_body_shorter)

declare split_top_level_blocks.simps [simp del]

definition trim_end_semi :: "string \<Rightarrow> string" where
  "trim_end_semi s = rev (dropWhile (\<lambda>c. c = CHR '';'') (rev s))"

definition trim_quotes :: "string \<Rightarrow> string" where
  "trim_quotes s = rev (dropWhile (\<lambda>c. c = CHR ''\"'') (rev (dropWhile (\<lambda>c. c = CHR ''\"'') s)))"

text \<open>\<open>str::split_once\<close>, \<open>str::split\<close> and \<open>str::replacen\<close> with a string pattern.\<close>

definition split_once_sub :: "string \<Rightarrow> string \<Rightarrow> (string \<times> string) option" where
  "split_once_sub p s = map_option (\<lambda>i. (take i s, drop (i + length p) s)) (find_sub p s)"

lemma split_once_sub_shorter: "split_once_sub p s = Some (a, b) \<Longrightarrow> p \<noteq> [] \<Longrightarrow> length b < length s"
  by (cases s; cases p) (auto simp: split_once_sub_def)

function split_sub :: "string \<Rightarrow> string \<Rightarrow> string list" where
  "split_sub p s =
     (if p = [] then [s]
      else (case split_once_sub p s of None \<Rightarrow> [s] | Some (a, b) \<Rightarrow> a # split_sub p b))"
  by pat_completeness auto
termination
  by (relation "measure (length \<circ> snd)") (auto dest: split_once_sub_shorter)

declare split_sub.simps [simp del]

definition remove_first :: "string \<Rightarrow> string \<Rightarrow> string" where
  "remove_first needle s = (case split_once_sub needle s of None \<Rightarrow> s | Some (a, b) \<Rightarrow> a @ b)"

definition key_value :: "string \<Rightarrow> (string \<times> string) option" where
  "key_value line =
     (case split_once (CHR ''='') line of
        None \<Rightarrow> None
      | Some (k, v) \<Rightarrow>
        (let k = trim k; v = trim (trim_end_semi (trim v))
         in if k \<noteq> [] \<and> v \<noteq> [] then Some (k, v) else None))"

definition split_body :: "string \<Rightarrow> (string \<times> string) list \<times> (string \<times> string) list" where
  "split_body body =
     (let blks = (case split_top_level_blocks body of Inl _ \<Rightarrow> [] | Inr bs \<Rightarrow> bs);
          plain = fold (\<lambda>(h, b). remove_first (h @ ''{'' @ b @ ''}'')) blks body
      in (blks, rev (List.map_filter key_value (str_lines plain))))"

section \<open>Expressions\<close>

fun map_field :: "string \<Rightarrow> Field option" where
  "map_field s =
     map_of [(''size'', Size), (''uid'', Uid), (''gid'', Gid), (''projid'', Projid), (''mode'', Mode),
       (''last_mod'', Mtime), (''mtime'', Mtime), (''last_access'', Atime), (''atime'', Atime),
       (''ctime'', Ctime), (''creation_time'', Ctime), (''nlink'', Nlink), (''links'', Nlink), (''name'', Kind)] s"

definition checked_mul_i64 :: "i64 \<Rightarrow> i64 \<Rightarrow> i64 option" where
  "checked_mul_i64 a b = (if i64_min \<le> a * b \<and> a * b \<le> i64_max then Some (a * b) else None)"

definition scaled :: "i64 \<Rightarrow> string \<Rightarrow> i64 option" where
  "scaled k n = Option.bind (parse_i64 n) (\<lambda>v. checked_mul_i64 v k)"

definition byte_units :: "(string \<times> i64) list" where
  "byte_units = [(''K'', 1024), (''M'', 1024 ^ 2), (''G'', 1024 ^ 3), (''T'', 1024 ^ 4)]"

definition import_time_units :: "(string \<times> i64) list" where
  "import_time_units = [(''d'', 86400), (''h'', 3600)]"

definition parse_value :: "string \<Rightarrow> i64 option" where
  "parse_value str =
     (let s = trim str in
      case parse_i64 s of
        Some n \<Rightarrow> Some n
      | None \<Rightarrow>
        (case Option.bind (strip_suffix ''B'' s) (strip_suffixes byte_units) of
           Some (n, k) \<Rightarrow> scaled k n
         | None \<Rightarrow>
           (case strip_suffixes import_time_units s of
              Some (n, k) \<Rightarrow> scaled k n
            | None \<Rightarrow> None)))"

definition parse_duration_secs :: "string \<Rightarrow> u64 option" where
  "parse_duration_secs s = Option.bind (parse_value s) (\<lambda>v. if 0 \<le> v then Some (word_of_int v) else None)"

fun glob_to_sql_like :: "string \<Rightarrow> string" where
  "glob_to_sql_like [] = []"
| "glob_to_sql_like (c # cs) =
     (if c = CHR ''*'' then CHR ''%'' # glob_to_sql_like cs
      else if c = CHR ''?'' then CHR ''_'' # glob_to_sql_like cs
      else if c = CHR ''%'' \<or> c = CHR ''_'' then CHR 0x5C # c # glob_to_sql_like cs
      else c # glob_to_sql_like cs)"

definition atom_ops :: "(string \<times> CmpOp) list" where
  "atom_ops = [(''>='', OpGe), (''<='', OpLe), (''=='', OpEq), (''!='', OpNe), (''>'', OpGt), (''<'', OpLt)]"

fun try_ops :: "(string \<times> CmpOp) list \<Rightarrow> string \<Rightarrow> Predicate option" where
  "try_ops [] s = None"
| "try_ops ((op_str, cmp_op) # ops) s =
     (case split_once_sub op_str s of
        None \<Rightarrow> try_ops ops s
      | Some (l, r) \<Rightarrow>
        (let lhs = trim l; rhs = trim r in
         case map_field lhs of
           None \<Rightarrow> try_ops ops s
         | Some field \<Rightarrow>
           (case parse_value rhs of
              Some v \<Rightarrow> Some (Cmp field cmp_op (Num v))
            | None \<Rightarrow>
                if lhs = ''name'' \<and> rhs \<noteq> [] \<and> hd rhs = CHR ''\"''
                then Some (NameLike (glob_to_sql_like (trim_quotes rhs)))
                else try_ops ops s)))"

definition parse_atom :: "string \<Rightarrow> Predicate option" where
  "parse_atom str =
     (let s = trim (trim_end_semi (trim str)) in
      case Option.bind (strip_prefix ''type =='' s)
             (\<lambda>rest. map_of [(''file'', 0), (''directory'', 1), (''dir'', 1), (''symlink'', 2)] (trim rest)) of
        Some k \<Rightarrow> Some (Cmp Kind OpEq (Num k))
      | None \<Rightarrow> try_ops atom_ops s)"

definition atoms :: "string \<Rightarrow> string list" where
  "atoms src =
     filter (\<lambda>s. s \<noteq> [])
       (map trim
         (concat (map (split_sub ''&&'')
           (concat (map (split_sub '' and '') (concat (map (split_on (CHR '';'')) (split_on (CHR 0x0A) src))))))))"

definition parse_expression :: "string \<Rightarrow> Predicate" where
  "parse_expression src =
     (case List.map_filter parse_atom (atoms src) of [] \<Rightarrow> PTrue | [p] \<Rightarrow> p | ps \<Rightarrow> PAnd ps)"

section \<open>Policies\<close>

definition parse_fileclass :: "string \<Rightarrow> string \<Rightarrow> string + string \<times> Predicate" where
  "parse_fileclass nm body =
     (case find (\<lambda>(h, _). trim h = ''definition'') (fst (split_body body)) of
        None \<Rightarrow> Inl ''missing definition block''
      | Some (_, def) \<Rightarrow> Inr (nm, parse_expression def))"

text \<open>The triggers of the blocks, with the warnings.\<close>

definition trigger_block :: "string \<Rightarrow> bool" where
  "trigger_block hdr \<longleftrightarrow> suffix ''_trigger'' (trim hdr) \<or> trim hdr = ''trigger''"

definition parse_trigger_body :: "string \<Rightarrow> TriggerSpec list \<times> string list" where
  "parse_trigger_body body =
     (let kvs = map_of (snd (split_body body));
          kind = (case kvs ''trigger_on'' of None \<Rightarrow> ''scheduled'' | Some v \<Rightarrow> trim_end_semi (trim v));
          check = (case Option.bind (kvs ''check_interval'') (\<lambda>v. parse_duration_secs (trim_end_semi (trim v))) of
                     None \<Rightarrow> 86400 | Some n \<Rightarrow> n)
      in if kind = ''scheduled'' \<or> kind = ''periodic'' then ([Interval check], [])
         else if kind = ''cron'' then
           ((case kvs ''expression'' of None \<Rightarrow> [] | Some expr \<Rightarrow> [Cron (trim_quotes (trim expr))]), [])
         else ([], [''trigger_on '' @ debug_str kind @ '' not translated'']))"

definition parse_triggers :: "(string \<times> string) list \<Rightarrow> TriggerSpec list \<times> string list" where
  "parse_triggers blks =
     (let rs = map (\<lambda>(_, body). parse_trigger_body body) (filter (\<lambda>(hdr, _). trigger_block hdr) blks)
      in (concat (map fst rs), concat (map snd rs)))"

fun triggers_to_string :: "(TriggerSpec \<Rightarrow> string) \<Rightarrow> TriggerSpec list \<Rightarrow> string \<times> string list" where
  "triggers_to_string dbg [] = (''24h'', [])"
| "triggers_to_string dbg (Interval secs # _) =
     ((if secs mod 3600 = 0 then dec_str (unat (secs div 3600)) @ ''h''
       else if secs mod 60 = 0 then dec_str (unat (secs div 60)) @ ''m''
       else dec_str (unat secs) @ ''s''), [])"
| "triggers_to_string dbg (Cron expression # _) = (''cron:'' @ expression, [])"
| "triggers_to_string dbg (other # _) =
     (''24h'', [''trigger '' @ dbg other @ '' converted to daily fallback''])"

definition contains :: "string \<Rightarrow> string \<Rightarrow> bool" where
  "contains s p \<longleftrightarrow> find_sub p s \<noteq> None"

definition import_scope ::
  "(string \<times> string) list \<Rightarrow> (string \<Rightarrow> string option) \<Rightarrow> (string \<Rightarrow> Predicate option) \<Rightarrow> Predicate \<times> string list" where
  "import_scope blks kvs fileclasses =
     (case find (\<lambda>(h, _). trim h = ''scope'') blks of
        Some (_, b) \<Rightarrow> (parse_expression b, [])
      | None \<Rightarrow>
        (case kvs ''scope'' of
           None \<Rightarrow> (PTrue, [])
         | Some v \<Rightarrow>
           (let nm = trim (trim_end_semi (trim v)) in
            case fileclasses nm of
              Some p \<Rightarrow> (p, [])
            | None \<Rightarrow> (PTrue, [''scope references unknown fileclass: '' @ nm]))))"

definition import_kind :: "string \<Rightarrow> (string \<Rightarrow> string option) \<Rightarrow> PolicyKind \<times> string list" where
  "import_kind nm kvs =
     (if contains nm ''archive'' then (HsmArchive, [])
      else if contains nm ''release'' then (HsmRelease, [])
      else if contains nm ''remove'' \<or> contains nm ''purge'' \<or> contains nm ''cleanup'' then (Purge, [])
      else if contains nm ''alert'' then (Alert, [])
      else (case kvs ''default_action'' of
              Some v \<Rightarrow>
                (let da = trim v in
                 if prefix ''lhsm.archive'' da then (HsmArchive, [])
                 else if prefix ''lhsm.release'' da then (HsmRelease, [])
                 else if prefix ''common.unlink'' da \<or> prefix ''rm'' da then (Purge, [])
                 else (Purge, [''default_action '' @ debug_str da @ '' not recognised, defaulting to purge'']))
            | None \<Rightarrow> (Purge, [''no default_action for policy '' @ nm @ '', defaulting to purge''])))"

definition import_lru :: "(string \<Rightarrow> string option) \<Rightarrow> LruSortAttr option \<times> string list" where
  "import_lru kvs =
     (case kvs ''default_lru_sort_attr'' of
        None \<Rightarrow> (None, [])
      | Some v \<Rightarrow>
        (let v = trim (trim_end_semi (trim v)) in
         if v = ''last_mod'' then (Some LruMtime, [])
         else if v = ''last_access'' then (Some LruAtime, [])
         else if v = ''creation_time'' \<or> v = ''ctime'' then (Some LruCtime, [])
         else if v = ''rm_time'' then (None, [])
         else (None, [''unknown lru_sort_attr: '' @ v])))"

definition action_opts_default :: ActionOpts where
  "action_opts_default =
     \<lparr>max_count = None, max_volume = None, nb_threads = None, timeout_secs = None, lru_sort = None,
      rate_limit = None, retry = None, opt_hsm = None, backup = None, cmd = None, alert = None,
      skip_hardlinked = False\<rparr>"

definition parse_policy ::
  "(TriggerSpec \<Rightarrow> string) \<Rightarrow> string \<Rightarrow> string \<Rightarrow> (string \<Rightarrow> Predicate option) \<Rightarrow> string \<Rightarrow> PolicyDef \<times> string list" where
  "parse_policy dbg nm body fileclasses fs =
     (let (blks, kv) = split_body body;
          kvs = map_of kv;
          (_, w1) = import_scope blks kvs fileclasses;
          (kind, w2) = import_kind nm kvs;
          (lru, w3) = import_lru kvs;
          (triggers, w4) = parse_triggers blks;
          (trigger_str, w5) = triggers_to_string dbg triggers
      in (\<lparr>pd_name = nm, pd_filesystem = fs, pd_kind = kind, match_tags = [], trigger = trigger_str,
           action = action_opts_default\<lparr>lru_sort := lru\<rparr>, pd_enabled = True\<rparr>,
          w1 @ w2 @ w3 @ w4 @ w5))"

section \<open>Files\<close>

record ImportResult =
  ir_policies :: "PolicyDef list"
  ir_warnings :: "string list"
  ir_fileclasses :: "(string \<times> Predicate) list"

definition first_word :: "string \<Rightarrow> string" where
  "first_word s = (case split_whitespace s of [] \<Rightarrow> [] | w # _ \<Rightarrow> w)"

definition import_fileclass :: "string \<Rightarrow> string \<Rightarrow> ImportResult \<Rightarrow> ImportResult" where
  "import_fileclass nm body out =
     (case parse_fileclass (trim nm) body of
        Inr c \<Rightarrow> out\<lparr>ir_fileclasses := c # ir_fileclasses out\<rparr>
      | Inl e \<Rightarrow> out\<lparr>ir_warnings := ir_warnings out @ [''FileClass '' @ nm @ '': '' @ e]\<rparr>)"

definition import_block :: "(TriggerSpec \<Rightarrow> string) \<Rightarrow> string \<Rightarrow> string \<times> string \<Rightarrow> ImportResult \<Rightarrow> ImportResult" where
  "import_block dbg fs block out =
     (let hdr = trim (fst block); body = snd block in
      case strip_prefix ''FileClass '' hdr of
        Some nm \<Rightarrow> import_fileclass nm body out
      | None \<Rightarrow>
        (case strip_prefix ''define_policy '' hdr of
           Some nm \<Rightarrow>
             (let (pol, warns) = parse_policy dbg (trim nm) body (map_of (ir_fileclasses out)) fs
              in out\<lparr>ir_warnings := ir_warnings out @ warns, ir_policies := ir_policies out @ [pol]\<rparr>)
         | None \<Rightarrow>
           (case strip_prefix (''FileClass'' @ [CHR 0x09]) hdr of
              Some nm \<Rightarrow> import_fileclass nm body out
            | None \<Rightarrow> out\<lparr>ir_warnings := ir_warnings out @ [''skipped unhandled block: '' @ first_word hdr]\<rparr>)))"

definition import_conf :: "(TriggerSpec \<Rightarrow> string) \<Rightarrow> string \<Rightarrow> string \<Rightarrow> string + ImportResult" where
  "import_conf dbg src fs =
     map_sum id
       (\<lambda>blks. fold (import_block dbg fs) blks \<lparr>ir_policies = [], ir_warnings = [], ir_fileclasses = []\<rparr>)
       (split_top_level_blocks (strip_comments src))"

section \<open>Blocks of a file\<close>

text \<open>The depth of braces after a text; a closing brace outside every block is ignored.\<close>

fun open_depth :: "nat \<Rightarrow> string \<Rightarrow> nat" where
  "open_depth d [] = d"
| "open_depth d (c # cs) =
     open_depth (if c = CHR ''{'' then d + 1 else if c = CHR ''}'' then d - 1 else d) cs"

lemma open_depth_append [simp]: "open_depth d (s @ t) = open_depth (open_depth d s) t"
  by (induction d s rule: open_depth.induct) auto

lemma open_depth_header: "CHR ''{'' \<notin> set s \<Longrightarrow> open_depth 0 s = 0"
  by (induction s) auto

lemma block_body_None: "block_body d s = None \<Longrightarrow> 0 < d \<Longrightarrow> 0 < open_depth d s"
  by (induction d s rule: block_body.induct) (auto simp: Let_def split: if_splits)

lemma block_body_Some: "block_body d s = Some (b, r) \<Longrightarrow> 0 < d \<Longrightarrow> open_depth d s = open_depth 0 r"
  by (induction d s arbitrary: b r rule: block_body.induct) (auto simp: Let_def split: if_splits)

lemma split_step:
  assumes "\<forall>c \<in> set ws. is_ascii_whitespace c" "CHR ''{'' \<notin> set h" "h = [] \<or> \<not> is_ascii_whitespace (hd h)"
  shows "split_top_level_blocks (ws @ h @ CHR ''{'' # t) =
    (case block_body 1 t of
       None \<Rightarrow> Inl (''unbalanced '' @ [CHR 0x27] @ ''{'' @ [CHR 0x27] @ '' for block: '' @ trim h)
     | Some (body, r) \<Rightarrow> map_sum id (Cons (trim h, body)) (split_top_level_blocks r))"
proof -
  have "dropWhile is_ascii_whitespace (ws @ h @ CHR ''{'' # t) = h @ CHR ''{'' # t"
    using assms by (cases h) (auto simp: dropWhile_append1 dropWhile_append3 is_ascii_whitespace_def dropWhile_eq_Nil_conv)
  moreover have "takeWhile (\<lambda>c. c \<noteq> CHR ''{'') (h @ CHR ''{'' # t) = h"
    "dropWhile (\<lambda>c. c \<noteq> CHR ''{'') (h @ CHR ''{'' # t) = CHR ''{'' # t"
    using assms(2) by (induction h) auto
  ultimately show ?thesis
    unfolding split_top_level_blocks.simps [of "ws @ h @ CHR ''{'' # t"] Let_def by (simp only: list.simps if_False list.sel)
qed

lemma split_end: "CHR ''{'' \<notin> set s \<Longrightarrow> split_top_level_blocks s = Inr []"
  by (subst split_top_level_blocks.simps)
    (auto simp: Let_def dropWhile_eq_Nil_conv dest: set_dropWhileD)

text \<open>Every text is of one of the two forms.\<close>

lemma split_cases:
  obtains "CHR ''{'' \<notin> set s"
  | ws h t where "s = ws @ h @ CHR ''{'' # t" "\<forall>c \<in> set ws. is_ascii_whitespace c" "CHR ''{'' \<notin> set h"
      "h = [] \<or> \<not> is_ascii_whitespace (hd h)"
proof (cases "CHR ''{'' \<in> set s")
  case True
  let ?s = "dropWhile is_ascii_whitespace s"
  have "CHR ''{'' \<in> set ?s"
  proof -
    have "CHR ''{'' \<notin> set (takeWhile is_ascii_whitespace s)"
      by (auto simp: is_ascii_whitespace_def dest: set_takeWhileD)
    with True takeWhile_dropWhile_id [of is_ascii_whitespace s] show ?thesis by (metis Un_iff set_append)
  qed
  then obtain h t where st: "?s = h @ CHR ''{'' # t" "CHR ''{'' \<notin> set h" by (metis split_list_first)
  have "h = [] \<or> \<not> is_ascii_whitespace (hd h)"
    using hd_dropWhile [of is_ascii_whitespace s] st(1) by (cases h) auto
  moreover have "s = takeWhile is_ascii_whitespace s @ h @ CHR ''{'' # t"
    using takeWhile_dropWhile_id [of is_ascii_whitespace s] st(1) by simp
  ultimately show thesis using that(2) st(2) set_takeWhileD by metis
qed (use that in blast)

lemma split_error_iff: "(\<exists>e. split_top_level_blocks s = Inl e) \<longleftrightarrow> 0 < open_depth 0 s"
proof (induction s rule: length_induct)
  case (1 s)
  show ?case
  proof (cases rule: split_cases [of s])
    case 1
    then show ?thesis by (simp add: split_end open_depth_header)
  next
    case (2 ws h t)
    have "CHR ''{'' \<notin> set (ws @ h)" using 2 by (auto simp: is_ascii_whitespace_def)
    then have depth: "open_depth 0 s = open_depth 1 t" using 2(1) open_depth_header [of "ws @ h"] by simp
    note step = split_step [OF 2(2,3,4), of t, folded 2(1)]
    show ?thesis
    proof (cases "block_body 1 t")
      case None
      with step depth block_body_None [of 1 t] show ?thesis by simp
    next
      case (Some br)
      obtain b r where [simp]: "br = (b, r)" by (cases br)
      from Some block_body_length have "length r < length s" using 2(1) by fastforce
      with 1 have "(\<exists>e. split_top_level_blocks r = Inl e) \<longleftrightarrow> 0 < open_depth 0 r" by blast
      with Some step depth block_body_Some [of 1 t b r] show ?thesis
        by (cases "split_top_level_blocks r") auto
    qed
  qed
qed

fun balanced :: "nat \<Rightarrow> string \<Rightarrow> bool" where
  "balanced d [] = (d = 0)"
| "balanced d (c # cs) =
     (if c = CHR ''{'' then balanced (d + 1) cs
      else if c = CHR ''}'' then 0 < d \<and> balanced (d - 1) cs
      else balanced d cs)"

lemma block_body_balanced: "balanced d b \<Longrightarrow> block_body (Suc d) (b @ CHR ''}'' # r) = Some (b, r)"
  by (induction d b rule: balanced.induct) (auto simp: Let_def split: if_splits)

lemma trim_spaces:
  assumes "h \<noteq> []" "\<not> is_ws (hd h)" "\<not> is_ws (last h)" "\<forall>c \<in> set ws. is_ws c"
  shows "trim (h @ ws) = h"
proof -
  have "dropWhile is_ws (h @ ws) = h @ ws" using assms by (simp add: dropWhile_eq_self_iff)
  moreover have "dropWhile is_ws (rev ws @ rev h) = dropWhile is_ws (rev h)" using assms(4) by (intro dropWhile_append2) auto
  moreover have "dropWhile is_ws (rev h) = rev h" using assms by (simp add: dropWhile_eq_self_iff hd_rev)
  ultimately show ?thesis by (simp add: trim_def)
qed

lemma split_print:
  assumes "\<forall>(ws, h, ws', b) \<in> set bs. (\<forall>c \<in> set (ws @ ws'). is_ascii_whitespace c) \<and>
      CHR ''{'' \<notin> set h \<and> (h = [] \<or> \<not> is_ws (hd h) \<and> \<not> is_ws (last h)) \<and> h \<noteq> [] \<and> balanced 0 b"
    and "CHR ''{'' \<notin> set ws2"
  shows "split_top_level_blocks (concat (map (\<lambda>(ws, h, ws', b). ws @ h @ ws' @ ''{'' @ b @ ''}'') bs) @ ws2) =
    Inr (map (\<lambda>(ws, h, ws', b). (h, b)) bs)"
  using assms
proof (induction bs)
  case (Cons x bs)
  obtain ws h ws' b where x [simp]: "x = (ws, h, ws', b)" by (cases x)
  let ?r = "concat (map (\<lambda>(ws, h, ws', b). ws @ h @ ws' @ ''{'' @ b @ ''}'') bs) @ ws2"
  have ascii: "is_ws c" if "is_ascii_whitespace c" for c
    using that by (auto simp: is_ascii_whitespace_def is_ws_def)
  have brace: "\<not> is_ws (CHR ''{'')" by (simp add: is_ws_def)
  have ws: "\<forall>c \<in> set ws. is_ascii_whitespace c" "\<forall>c \<in> set ws'. is_ws c" and h: "CHR ''{'' \<notin> set h" "h \<noteq> []"
    "\<not> is_ws (hd h)" "\<not> is_ws (last h)" and b: "balanced 0 b"
    using Cons.prems ascii by auto
  have hd: "\<not> is_ascii_whitespace (hd (h @ ws'))" using h ascii by auto
  have nb: "CHR ''{'' \<notin> set (h @ ws')" using h(1) ws(2) brace by auto
  have tr: "trim (h @ ws') = h" using h ws(2) by (simp add: trim_spaces)
  have "split_top_level_blocks (ws @ (h @ ws') @ CHR ''{'' # b @ CHR ''}'' # ?r) =
     map_sum id (Cons (h, b)) (split_top_level_blocks ?r)"
    using split_step [OF ws(1) nb, of "b @ CHR ''}'' # ?r"] hd block_body_balanced [OF b, of ?r] tr by simp
  with Cons show ?case by simp
qed (simp add: split_end)

section \<open>Comments\<close>

lemma find_sub_Some: "find_sub p s = Some i \<Longrightarrow> \<exists>t. drop i s = p @ t \<and> i \<le> length s"
  by (induction p s arbitrary: i rule: find_sub.induct)
    (auto simp: strip_prefix_Some split: if_splits)

lemma find_sub_None: "find_sub p s = None \<Longrightarrow> s \<noteq> a @ p @ b"
proof (induction p s arbitrary: a rule: find_sub.induct)
  case (1 p)
  then show ?case by (auto split: if_splits)
next
  case (2 p c cs)
  from 2(2) have "strip_prefix p (c # cs) = None" "find_sub p cs = None" by (auto split: if_splits)
  with 2(1) strip_prefix_Some [of p "c # cs"] show ?case by (cases a) auto
qed

lemma find_sub_first: "find_sub p s = Some i \<Longrightarrow> p \<noteq> [] \<Longrightarrow> j \<le> i + length p - 1 \<Longrightarrow> take j s \<noteq> a @ p @ b"
proof (induction p s arbitrary: i j a rule: find_sub.induct)
  case (1 p)
  then show ?case by (auto split: if_splits)
next
  case (2 p c cs)
  show ?case
  proof (cases "strip_prefix p (c # cs) = None")
    case True
    with 2(2) obtain k where k: "find_sub p cs = Some k" "i = Suc k" by auto
    show ?thesis
    proof (cases j)
      case 0
      with 2(3) show ?thesis by simp
    next
      case (Suc j')
      show ?thesis
      proof
        assume eq: "take j (c # cs) = a @ p @ b"
        show False
        proof (cases a)
          case Nil
          with eq have "c # cs = p @ b @ drop j (c # cs)" by (metis append_Nil append_assoc append_take_drop_id)
          with True show False by (metis option.distinct(1) strip_prefix_append)
        next
          case (Cons x a')
          with eq Suc have "take j' cs = a' @ p @ b" by simp
          with 2(1) [of k j' a'] True k 2(3,4) Suc show False by (cases p) auto
        qed
      qed
    qed
  next
    case False
    with 2 have "i = 0" by auto
    with 2(4) have "length (take j (c # cs)) < length p" using 2(3) by (cases p) auto
    moreover have "length p \<le> length (a @ p @ b)" by simp
    ultimately show ?thesis by (metis linorder_not_less)
  qed
qed

lemma cut_line_clean:
  "CHR ''#'' \<notin> set (cut_line l)" "cut_line l \<noteq> a @ ''//'' @ b" "prefix (cut_line l) l"
proof -
  obtain cut where cut: "cut_line l = take cut l" "find_sub ''#'' l = None \<or> cut \<le> the (find_sub ''#'' l)"
    "find_sub ''//'' l = None \<or> cut \<le> the (find_sub ''//'' l)"
    by (auto simp: cut_line_def Let_def split: option.splits)
  show "CHR ''#'' \<notin> set (cut_line l)"
  proof
    assume "CHR ''#'' \<in> set (cut_line l)"
    then obtain a b where split: "take cut l = a @ ''#'' @ b" using cut(1) by (metis append_Cons append_Nil split_list)
    then have "l = a @ ''#'' @ b @ drop cut l" by (metis append_assoc append_take_drop_id)
    then have "find_sub ''#'' l \<noteq> None" using find_sub_None by blast
    with cut(2) find_sub_first [of "''#''" l _ cut a b] split show False by auto
  qed
  show "cut_line l \<noteq> a @ ''//'' @ b"
  proof
    assume "cut_line l = a @ ''//'' @ b"
    then have split: "take cut l = a @ ''//'' @ b" using cut(1) by simp
    then have "l = a @ ''//'' @ b @ drop cut l" by (metis append_assoc append_take_drop_id)
    then have "find_sub ''//'' l \<noteq> None" using find_sub_None by blast
    with cut(3) find_sub_first [of "''//''" l _ cut a b] split show False by auto
  qed
  show "prefix (cut_line l) l" using cut(1) by (simp add: take_is_prefix)
qed

lemma newline_count_blocks:
  "count_list (strip_block_comments i s) (CHR 0x0A) = count_list s (CHR 0x0A)"
proof (induction i s rule: strip_block_comments.induct)
  case (2 c cs)
  then show ?case by (cases cs) auto
next
  case (3 c cs)
  then show ?case by (cases cs) auto
qed simp

section \<open>Globs\<close>

text \<open>
  The meaning of a shell pattern without bracket classes: a star stands for any text, a
  question mark for one byte, a backslash makes the next character stand for itself, as every
  other character does. Patterns with an opening bracket are outside this relation.
\<close>

inductive globs :: "bytes \<Rightarrow> string \<Rightarrow> bool" where
  globs_nil: "globs [] []"
| globs_star: "globs t p \<Longrightarrow> globs (s @ t) (CHR ''*'' # p)"
| globs_one: "globs t p \<Longrightarrow> globs (c # t) (CHR ''?'' # p)"
| globs_quote: "globs t p \<Longrightarrow> globs (c # t) (CHR 0x5C # c # p)"
| globs_char: "globs t p \<Longrightarrow> c \<notin> {CHR ''*'', CHR ''?'', CHR ''['', CHR 0x5C} \<Longrightarrow> globs (c # t) (c # p)"

inductive_cases globs_nilE: "globs t []"
inductive_cases globs_consE: "globs t (x # p)"
inductive_cases sql_nilE: "sql_likes t []"
inductive_cases sql_consE: "sql_likes t (x # p)"

text \<open>The patterns of the configuration files: no bracket class and no quoting.\<close>

definition plain_glob :: "string \<Rightarrow> bool" where
  "plain_glob p \<longleftrightarrow> CHR ''['' \<notin> set p \<and> CHR 0x5C \<notin> set p"

lemma plain_glob_Cons [simp]: "plain_glob (c # p) \<longleftrightarrow> c \<noteq> CHR ''['' \<and> c \<noteq> CHR 0x5C \<and> plain_glob p"
  by (auto simp: plain_glob_def)

lemma glob_length: "CHR ''%'' \<notin> set p \<Longrightarrow> CHR ''_'' \<notin> set p \<Longrightarrow> length (glob_to_sql_like p) = length p"
  by (induction p) auto

lemma glob_backslash:
  "plain_glob p \<Longrightarrow> CHR ''%'' \<notin> set p \<Longrightarrow> CHR ''_'' \<notin> set p \<Longrightarrow> CHR 0x5C \<notin> set (glob_to_sql_like p)"
  by (induction p) auto

lemma globs_sql: "globs t p \<Longrightarrow> plain_glob p \<Longrightarrow> sql_likes t (glob_to_sql_like p)"
  by (induction rule: globs.induct) (auto intro: sql_likes.intros)

lemma sql_globs: "sql_likes t (glob_to_sql_like p) \<Longrightarrow> plain_glob p \<Longrightarrow> globs t p"
proof (induction p arbitrary: t)
  case Nil
  then show ?case by (auto elim: sql_nilE intro: globs_nil)
next
  case (Cons x p)
  then show ?case by (auto split: if_splits elim!: sql_consE intro: globs.intros)
qed

section \<open>Triggers\<close>

lemma trigger_unit:
  fixes secs k :: u64
  assumes "secs mod k = 0"
  shows "secs div k * k = secs"
  using assms by (metis add.right_neutral div_mult_mod_eq)

lemma interval_string:
  "parse_trigger (fst (triggers_to_string dbg (Interval secs # ts))) = Inr (Interval secs)"
  using parse_interval [of "CHR ''h''" 3600 "secs div 3600"] parse_interval [of "CHR ''m''" 60 "secs div 60"]
    parse_interval [of "CHR ''s''" 1 secs] trigger_unit [of secs 3600] trigger_unit [of secs 60] by simp

lemma day_string: "parse_trigger ''24h'' = Inr (Interval 86400)"
proof -
  have "''24h'' = dec_str (unat (24 :: u64)) @ ''h''" by code_simp
  moreover have "parse_trigger (dec_str (unat (24 :: u64)) @ ''h'') = Inr (Interval (24 * 3600))"
    by (rule parse_interval) simp
  ultimately show ?thesis by (simp only:) simp
qed

lemma cron_string:
  assumes "trim e = e" "e \<noteq> []" "lower_char (last e) \<notin> {CHR ''h'', CHR ''m'', CHR ''s''}"
  shows "parse_trigger (''cron:'' @ e) = Inr (Cron (cron_expression e))"
proof -
  have e: "\<not> is_ws (last e)"
  proof -
    have "dropWhile is_ws (rev (dropWhile is_ws e)) = rev e" using arg_cong [OF assms(1), of rev] by (simp add: trim_def)
    moreover have "rev e \<noteq> []" using assms(2) by simp
    ultimately show ?thesis using hd_dropWhile [of is_ws "rev (dropWhile is_ws e)"] by (metis hd_rev)
  qed
  have tr: "trim (''cron:'' @ e) = ''cron:'' @ e"
    using assms(2) e by (intro trim_ends) (auto simp: is_ws_def)
  have suf: "strip_suffixes interval_units (to_lowercase (''cron:'' @ e)) = None"
    using assms(2,3) unfolding interval_units_def by (simp add: strip_suffix_last_neq last_map)
  show ?thesis
    unfolding parse_trigger_def Let_def tr try_parse_interval_def suf option.case
    using assms(1,2) by simp
qed

lemma parse_triggers_shape:
  "spec \<in> set (fst (parse_triggers blks)) \<Longrightarrow> (\<exists>n. spec = Interval n) \<or> (\<exists>e. spec = Cron e)"
  by (auto simp: parse_triggers_def Let_def parse_trigger_body_def split: if_splits option.splits)

lemma triggers_string_shape:
  assumes "\<forall>spec \<in> set specs. (\<exists>n. spec = Interval n) \<or> (\<exists>e. spec = Cron e)"
  shows "(\<exists>n. parse_trigger (fst (triggers_to_string dbg specs)) = Inr (Interval n)) \<or>
    (\<exists>e. Cron e \<in> set specs \<and> fst (triggers_to_string dbg specs) = ''cron:'' @ e)"
proof (cases specs)
  case Nil
  then show ?thesis using day_string by simp
next
  case (Cons spec rest)
  with assms show ?thesis using interval_string by auto
qed

section \<open>Policies\<close>

definition imported :: "string \<Rightarrow> PolicyDef \<Rightarrow> bool" where
  "imported fs p \<longleftrightarrow> pd_filesystem p = fs \<and> pd_enabled p \<and> match_tags p = [] \<and> max_count (action p) = None \<and>
     max_volume (action p) = None \<and>
     ((\<exists>n. parse_trigger (trigger p) = Inr (Interval n)) \<or> (\<exists>e. trigger p = ''cron:'' @ e))"

lemma parse_policy_imported: "parse_policy dbg nm body fileclasses fs = (p, w) \<Longrightarrow> imported fs p"
  using triggers_string_shape [of "fst (parse_triggers (fst (split_body body)))" dbg] parse_triggers_shape
  by (fastforce simp: parse_policy_def Let_def imported_def action_opts_default_def case_prod_beta)

lemma import_block_policies:
  "\<forall>p \<in> set (ir_policies out). imported fs p \<Longrightarrow> p \<in> set (ir_policies (import_block dbg fs blk out)) \<Longrightarrow> imported fs p"
  by (auto simp: import_block_def import_fileclass_def Let_def case_prod_beta
      intro: parse_policy_imported [OF prod.collapse [symmetric]] split: option.splits sum.splits)

lemma import_blocks_policies:
  "\<forall>p \<in> set (ir_policies out). imported fs p \<Longrightarrow> \<forall>p \<in> set (ir_policies (fold (import_block dbg fs) blks out)). imported fs p"
  by (induction blks arbitrary: out) (simp, metis fold_simps(2) import_block_policies)

section \<open>Properties\<close>

lemma length_split_on: "length (split_on d s) = Suc (count_list s d)"
  by (induction s) (auto split: list.splits)

lemma split_on_free: "l \<in> set (split_on d s) \<Longrightarrow> d \<notin> set l"
  by (induction s arbitrary: l) (auto split: if_splits list.splits)

lemma split_on_join_self: "ls \<noteq> [] \<Longrightarrow> \<forall>l \<in> set ls. d \<notin> set l \<Longrightarrow> split_on d (join [d] ls) = ls"
  by (induction "[d]" ls rule: join.induct) (auto simp: split_on_none split_on_append)

lemma cut_line_newline: "d \<notin> set l \<Longrightarrow> d \<notin> set (cut_line l)"
  using set_mono_prefix [OF cut_line_clean(3)] by blast

lemma str_lines_free: "l \<in> set (str_lines s) \<Longrightarrow> CHR 0x0A \<notin> set l"
  using split_on_free [of _ "CHR 0x0A" s]
  by (auto simp: str_lines_def strip_cr_def Let_def split: if_splits dest: in_set_butlastD)

text \<open>
  Comments are removed and nothing else of a line is added: the text that is parsed has
  no \<open>#\<close>, each of its lines starts the corresponding line of the text without block
  comments and has no \<open>//\<close>, and lines keep their numbers, up to a line break at the end.
\<close>

theorem comments_removed:
  assumes "ls = str_lines (strip_block_comments False src)" "ls \<noteq> []"
  shows "split_on (CHR 0x0A) (strip_comments src) = map cut_line ls \<and>
    (\<forall>l \<in> set ls. prefix (cut_line l) l \<and> CHR ''#'' \<notin> set (cut_line l) \<and> (\<forall>a b. cut_line l \<noteq> a @ ''//'' @ b)) \<and>
    length ls \<le> Suc (count_list src (CHR 0x0A)) \<and> count_list src (CHR 0x0A) \<le> length ls"
proof -
  have "split_on (CHR 0x0A) (strip_comments src) = map cut_line ls"
    unfolding strip_comments_def assms(1) [symmetric]
    using assms(2) str_lines_free cut_line_newline by (intro split_on_join_self) (auto simp: assms(1))
  moreover have "length ls \<le> Suc (count_list src (CHR 0x0A)) \<and> count_list src (CHR 0x0A) \<le> length ls"
    using length_split_on [of "CHR 0x0A" "strip_block_comments False src"] newline_count_blocks [of False src]
    by (auto simp: assms(1) str_lines_def Let_def)
  ultimately show ?thesis using cut_line_clean by blast
qed

theorem comments_removed_witness:
  "split_on (CHR 0x0A) (strip_comments (''a # b'' @ [CHR 0x0A] @ ''c // d'')) = [''a '', ''c '']"
proof -
  have "str_lines (strip_block_comments False (''a # b'' @ [CHR 0x0A] @ ''c // d'')) = [''a # b'', ''c // d'']"
    "map cut_line [''a # b'', ''c // d''] = [''a '', ''c '']"
    by code_simp+
  with comments_removed [of "[''a # b'', ''c // d'']" "''a # b'' @ [CHR 0x0A] @ ''c // d''"] show ?thesis by simp
qed

text \<open>
  C37: the splitter reads back every file of blocks: whatever white space surrounds the
  headers, however the braces of the bodies nest, and whatever brace-free text ends the file.
\<close>

theorem split_blocks_roundtrip:
  assumes "\<forall>(ws, h, ws', b) \<in> set bs. (\<forall>c \<in> set (ws @ ws'). is_ascii_whitespace c) \<and>
      CHR ''{'' \<notin> set h \<and> h \<noteq> [] \<and> \<not> is_ws (hd h) \<and> \<not> is_ws (last h) \<and> balanced 0 b"
    and "CHR ''{'' \<notin> set rest"
  shows "split_top_level_blocks (concat (map (\<lambda>(ws, h, ws', b). ws @ h @ ws' @ ''{'' @ b @ ''}'') bs) @ rest) =
    Inr (map (\<lambda>(ws, h, ws', b). (h, b)) bs)"
  using assms by (intro split_print) auto

theorem split_blocks_roundtrip_witness:
  "split_top_level_blocks '' scope { a { b } c }x{}}'' = Inr [(''scope'', '' a { b } c ''), (''x'', [])]"
  using split_blocks_roundtrip [of "[('' '', ''scope'', '' '', '' a { b } c ''), ([], ''x'', [], [])]" "''}''"]
  by (simp add: is_ascii_whitespace_def is_ws_def)

text \<open>
  C38: an import fails exactly when some opening brace of the comment-free text is never
  closed; nothing else in a file is an error.
\<close>

theorem import_fails_iff:
  "(\<exists>e. import_conf dbg src fs = Inl e) \<longleftrightarrow> 0 < open_depth 0 (strip_comments src)"
  unfolding split_error_iff [symmetric] import_conf_def
  by (cases "split_top_level_blocks (strip_comments src)") auto

text \<open>
  C36: every imported policy belongs to the filesystem given, is enabled, has no limit on files
  or volume and no tag to select by: whatever scope the file states, the candidates of a run of
  it are the first 10000 entries of the filesystem, in its order, where 10000 is the limit of
  the run for a policy that sets none. The database evaluates the condition \<open>1=1\<close> to true.
\<close>

theorem import_unrestricted:
  assumes "import_conf dbg src fs = Inr r" "p \<in> set (ir_policies r)" "\<And>e. rn_db env ''1=1'' [] e"
  shows "pd_filesystem p = fs \<and> pd_enabled p \<and> match_tags p = [] \<and>
    max_count (action p) = None \<and> max_volume (action p) = None \<and>
    policy_candidates env c p FFs =
      take 10000 (rn_order env (map_option (\<lambda>col. col @ '' ASC'') (Option.bind (lru_sort (action p)) lru_column))
        (map snd (filter (\<lambda>(k, e). key_filesystem k = fs) (scoped_entries c))))"
proof -
  from assms(1,2) have p: "imported fs p"
    using import_blocks_policies [of "\<lparr>ir_policies = [], ir_warnings = [], ir_fileclasses = []\<rparr>" fs dbg]
    by (auto simp: import_conf_def map_sum_Inr)
  then have "to_sql (effective_predicate (match_tags p) FFs) = (''1=1'', [])"
    by (simp add: imported_def effective_predicate_def to_sql_def)
  with p assms(3) show ?thesis
    by (simp add: imported_def policy_candidates_def query_scoped_page_def)
qed

theorem import_unrestricted_witness:
  "\<exists>r p. import_conf (\<lambda>_. []) ''define_policy old { scope { type == directory } }'' ''lustre-a'' = Inr r \<and> ir_policies r = [p] \<and>
     pd_kind p = Purge \<and> policy_candidates demo_run hsm_demo_catalog p FFs = [from_lustre ''lustre-a'' sample_attrs]"
proof -
  have "map_sum (\<lambda>_. ()) (map pd_kind \<circ> ir_policies)
      (import_conf (\<lambda>_. []) ''define_policy old { scope { type == directory } }'' ''lustre-a'') = Inr [Purge]"
    by code_simp
  then obtain r p where r: "import_conf (\<lambda>_. []) ''define_policy old { scope { type == directory } }'' ''lustre-a'' = Inr r"
      "ir_policies r = [p]" "pd_kind p = Purge"
    by (cases "import_conf (\<lambda>_. []) ''define_policy old { scope { type == directory } }'' ''lustre-a''") auto
  have "policy_candidates demo_run hsm_demo_catalog p FFs = [from_lustre ''lustre-a'' sample_attrs]"
    using import_unrestricted [OF r(1), of p demo_run hsm_demo_catalog] r(2)
    by (simp add: demo_run_def hsm_demo_catalog_def)
  with r show ?thesis by blast
qed

text \<open>
  C39: for a pattern without bracket classes and backslashes, the \<open>LIKE\<close> pattern it becomes has
  in SQL the meaning of the shell pattern. The in-memory matcher agrees when the pattern has
  no \<open>%\<close>, no \<open>_\<close> and at most 256 bytes; a longer one matches nothing, and the escapes that are
  put before \<open>%\<close> and \<open>_\<close> are not understood there. Bracket classes are not translated: they
  match only themselves.
\<close>

theorem glob_import:
  assumes "plain_glob p"
  shows "(sql_likes t (glob_to_sql_like p) \<longleftrightarrow> globs t p) \<and>
    (CHR ''%'' \<notin> set p \<and> CHR ''_'' \<notin> set p \<longrightarrow>
       (like_match t (glob_to_sql_like p) \<longleftrightarrow> length p \<le> 256 \<and> globs t p)) \<and>
    globs ''a_b'' ''a_b'' \<and> \<not> like_match ''a_b'' (glob_to_sql_like ''a_b'') \<and>
    \<not> like_match ''a'' (glob_to_sql_like ''[ab]'')"
proof (intro conjI impI)
  show sql: "sql_likes t (glob_to_sql_like p) \<longleftrightarrow> globs t p"
    using globs_sql sql_globs assms by blast
  assume p: "CHR ''%'' \<notin> set p \<and> CHR ''_'' \<notin> set p"
  show "like_match t (glob_to_sql_like p) \<longleftrightarrow> length p \<le> 256 \<and> globs t p"
  proof (cases "length p \<le> 256")
    case True
    with p have "like_match t (glob_to_sql_like p) \<longleftrightarrow> likes t (glob_to_sql_like p)"
      by (simp add: like_match_likes MAX_LIKE_PATTERN_LEN_def glob_length)
    with True p sql glob_backslash [OF assms] likes_sql_likes show ?thesis by blast
  next
    case False
    with p show ?thesis by (subst like_match.simps) (simp add: MAX_LIKE_PATTERN_LEN_def glob_length)
  qed
next
  show "globs ''a_b'' ''a_b''" by (auto intro!: globs.intros)
  show "\<not> like_match ''a_b'' (glob_to_sql_like ''a_b'')" "\<not> like_match ''a'' (glob_to_sql_like ''[ab]'')"
    by (simp_all add: like_match_Cons MAX_LIKE_PATTERN_LEN_def)
qed

theorem glob_import_witness:
  "like_match ''core.12'' (glob_to_sql_like ''core.*'') \<and> sql_likes ''a_b'' (glob_to_sql_like ''a_b'')"
proof
  have "globs (''12'' @ []) ''*''" by (rule globs_star) (rule globs_nil)
  then have "globs ''core.12'' ''core.*''" by (auto intro!: globs_char)
  with glob_import [of "''core.*''" "''core.12''"] show "like_match ''core.12'' (glob_to_sql_like ''core.*'')"
    by (simp add: plain_glob_def)
  show "sql_likes ''a_b'' (glob_to_sql_like ''a_b'')"
    using glob_import [of "''a_b''" "''a_b''"] by (simp add: plain_glob_def)
qed

text \<open>
  The printed form of a trigger is read back: an interval of any number of seconds
  exactly, and a cron expression when its last letter is not the suffix of an interval.
\<close>

theorem import_trigger_roundtrip:
  "parse_trigger (fst (triggers_to_string dbg (Interval secs # ts))) = Inr (Interval secs) \<and>
   (trim e = e \<and> e \<noteq> [] \<and> lower_char (last e) \<notin> {CHR ''h'', CHR ''m'', CHR ''s''} \<longrightarrow>
      parse_trigger (fst (triggers_to_string dbg (Cron e # ts))) = Inr (Cron (cron_expression e)))"
  using interval_string cron_string by simp

theorem import_trigger_roundtrip_witness:
  "parse_trigger (fst (triggers_to_string (\<lambda>_. []) [Cron ''0 2 * * *''])) = Inr (Cron (cron_expression ''0 2 * * *''))"
proof -
  have "trim ''0 2 * * *'' = ''0 2 * * *''" by code_simp
  then show ?thesis
    using import_trigger_roundtrip [of "\<lambda>_. []" 0 "[]" "''0 2 * * *''"] by (simp add: lower_char_def)
qed

text \<open>
  A trigger block that follows a setting in the body of a policy is lost without a
  warning, because the text of the setting becomes part of the header of the block; the
  policy then runs every day.
\<close>

theorem trigger_after_setting_lost:
  assumes "setting \<noteq> []" "CHR ''{'' \<notin> set setting" "\<not> is_ws (hd setting)" "balanced 0 b"
  shows "parse_triggers (fst (split_body (setting @ ''; trigger {'' @ b @ ''}''))) = ([], [])"
proof -
  have hdr: "split_top_level_blocks (setting @ ''; trigger {'' @ b @ ''}'') = Inr [(setting @ ''; trigger'', b)]"
    using split_print [of "[('''', setting @ ''; trigger'', '' '', b)]" "[]"] assms
    by (simp add: is_ascii_whitespace_def is_ws_def)
  have "trim (setting @ ''; trigger'') = setting @ ''; trigger''"
    using assms by (intro trim_ends) (auto simp: is_ws_def)
  moreover have "\<not> suffix ''_trigger'' (setting @ ''; trigger'')"
    by (auto simp: suffix_def)
  ultimately have "\<not> trigger_block (setting @ ''; trigger'')"
    using assms(1) by (auto simp: trigger_block_def append_eq_Cons_conv)
  then show ?thesis unfolding split_body_def hdr sum.case Let_def fst_conv by (simp add: parse_triggers_def)
qed

theorem trigger_after_setting_lost_witness:
  "parse_triggers (fst (split_body ''scope = big; trigger { check_interval = 1h; }'')) = ([], [])"
  using trigger_after_setting_lost [of "''scope = big''" "'' check_interval = 1h; ''"] by (simp add: is_ws_def)

end
