(* ===== verification/Rbh_Threshold.thy ===== *)
theory Rbh_Threshold
  imports Rbh_Policy Rbh_Mdt
begin

text \<open>
  The threshold checker of the daemon (\<open>crates/rbh-daemon/src/thresholds.rs\<close>): once per tick it
  looks at the enabled policies of its filesystem whose trigger is a threshold, measures, and
  schedules a run when the high watermark is reached.

  The clock, the rows the database finds, the usage of the object targets and whether the
  scheduler takes a task are inputs of a cycle. The state between cycles is the two tables
  of times.
\<close>

section \<open>Triggers\<close>

datatype Measure = MCount u64 | MVolume u64 | MOstPct u32 | MFsPct u32

record ThresholdParams =
  th_check :: u64
  th_wait :: u64
  th_target :: ThresholdTarget
  th_measure :: Measure

fun decode_threshold :: "TriggerSpec \<Rightarrow> ThresholdParams option" where
  "decode_threshold (ThresholdCount chk high low wait target) =
     Some \<lparr>th_check = chk, th_wait = wait, th_target = target, th_measure = MCount high\<rparr>"
| "decode_threshold (ThresholdVolume chk high low wait target) =
     Some \<lparr>th_check = chk, th_wait = wait, th_target = target, th_measure = MVolume high\<rparr>"
| "decode_threshold (ThresholdOstPct chk high low wait target) =
     Some \<lparr>th_check = chk, th_wait = wait, th_target = target, th_measure = MOstPct high\<rparr>"
| "decode_threshold (ThresholdFsPct chk high low wait) =
     Some \<lparr>th_check = chk, th_wait = wait, th_target = TFs, th_measure = MFsPct high\<rparr>"
| "decode_threshold _ = None"

fun resolve_target :: "ThresholdTarget \<Rightarrow> TargetFilter" where
  "resolve_target TFs = FFs"
| "resolve_target (TOst osts) = FOst osts"
| "resolve_target (TPool n) = FPool n"
| "resolve_target (TUser u) = FUser u"
| "resolve_target (TGroup g) = FGroup g"

section \<open>Measures\<close>

fun first_ost_over_pct :: "OstUsage list \<Rightarrow> ThresholdTarget \<Rightarrow> u32 \<Rightarrow> u32 option" where
  "first_ost_over_pct [] target high_pct = None"
| "first_ost_over_pct (u # us) target high_pct =
     (case target of
        TUser _ \<Rightarrow> None
      | TGroup _ \<Rightarrow> None
      | _ \<Rightarrow>
          if (case target of TOst osts \<Rightarrow> ou_index u \<in> set osts | TPool n \<Rightarrow> prefix n (ou_name u) | _ \<Rightarrow> True) \<and>
             used_ratio u \<ge> f64_div (f64 (of_nat (unat high_pct))) 100
          then Some (ou_index u)
          else first_ost_over_pct us target high_pct)"

definition fs_pct_reached :: "OstUsage list \<Rightarrow> u32 \<Rightarrow> bool" where
  "fs_pct_reached usages high_pct =
     (let total = sum_list (map total_bytes usages);
          used = sum_list (map used_bytes usages);
          agg = (if total = 0 then 0 else f64_mul (f64_div (f64_of_u64 used) (f64_of_u64 total)) 100)
      in agg \<ge> f64 (of_nat (unat high_pct)))"

definition scoped_where ::
  "(string \<Rightarrow> SqlParam list \<Rightarrow> ScopedEntryRow \<Rightarrow> bool) \<Rightarrow> Catalog \<Rightarrow> string \<Rightarrow> string \<Rightarrow> SqlParam list \<Rightarrow>
   ScopedEntryRow list" where
  "scoped_where db c fs clause params =
     map snd (filter (\<lambda>(k, e). key_filesystem k = fs \<and> db clause params e) (scoped_entries c))"

definition count_scoped_where ::
  "(string \<Rightarrow> SqlParam list \<Rightarrow> ScopedEntryRow \<Rightarrow> bool) \<Rightarrow> Catalog \<Rightarrow> string \<Rightarrow> string \<Rightarrow> SqlParam list \<Rightarrow> u64" where
  "count_scoped_where db c fs clause params = word_of_nat (length (scoped_where db c fs clause params))"

text \<open>A sum beyond 64 bits is cut by the cast to the largest number.\<close>

definition sum_scoped_size_where ::
  "(string \<Rightarrow> SqlParam list \<Rightarrow> ScopedEntryRow \<Rightarrow> bool) \<Rightarrow> Catalog \<Rightarrow> string \<Rightarrow> string \<Rightarrow> SqlParam list \<Rightarrow> u64" where
  "sum_scoped_size_where db c fs clause params =
     word_of_nat (min (2 ^ 64 - 1) (volume (scoped_where db c fs clause params)))"

section \<open>A cycle\<close>

record ThresholdEnv =
  te_now :: u64
  te_db :: "string \<Rightarrow> SqlParam list \<Rightarrow> ScopedEntryRow \<Rightarrow> bool"
  te_ost :: "u64 \<Rightarrow> OstUsage list option"
  te_fire_now :: "u64 \<Rightarrow> u64"
  te_add :: "PolicyRunTask \<Rightarrow> string \<Rightarrow> bool"

text \<open>The tables of the times of the last firing and of the next check, by policy and trigger.\<close>

record Checker =
  last_fired :: "(u64 \<times> u32) \<Rightarrow> u64 option"
  next_check :: "(u64 \<times> u32) \<Rightarrow> u64 option"

definition checker_init :: Checker where
  "checker_init = \<lparr>last_fired = (\<lambda>_. None), next_check = (\<lambda>_. None)\<rparr>"

text \<open>Whether the watermark is reached, and the target of the run; \<open>None\<close>: no usage was read.\<close>

definition evaluate_measure ::
  "ThresholdEnv \<Rightarrow> Catalog \<Rightarrow> string \<Rightarrow> PolicyRow \<Rightarrow> ThresholdParams \<Rightarrow> TargetFilter \<Rightarrow> (bool \<times> TargetFilter) option" where
  "evaluate_measure env c fs policy params target =
     (let (clause, sql) = to_sql (effective_predicate (match_tags (pr_definition policy)) target) in
      case th_measure params of
        MCount high \<Rightarrow> Some (count_scoped_where (te_db env) c fs clause sql \<ge> high, target)
      | MVolume high \<Rightarrow> Some (sum_scoped_size_where (te_db env) c fs clause sql \<ge> high, target)
      | MOstPct high_pct \<Rightarrow>
          (case te_ost env (pr_id policy) of
             None \<Rightarrow> None
           | Some usages \<Rightarrow>
             (case first_ost_over_pct usages (th_target params) high_pct of
                Some hot \<Rightarrow> Some (True, FOst [hot])
              | None \<Rightarrow> Some (False, target)))
      | MFsPct high_pct \<Rightarrow>
          (case te_ost env (pr_id policy) of
             None \<Rightarrow> None
           | Some usages \<Rightarrow> Some (fs_pct_reached usages high_pct, target)))"

definition fire_name :: "ThresholdEnv \<Rightarrow> u64 \<Rightarrow> string" where
  "fire_name env i =
     ''rbh.policy.'' @ dec_str (unat i) @ ''.threshold.0.'' @ dec_str (unat (te_fire_now env i))"

definition fire :: "ThresholdEnv \<Rightarrow> PolicyRow \<Rightarrow> TargetFilter \<Rightarrow> PolicyRunTask option" where
  "fire env policy target =
     (let task = \<lparr>tk_policy_id = pr_id policy, tk_trigger_idx = 0, tk_target = target, tk_dry_run = False\<rparr>
      in if te_add env task (fire_name env (pr_id policy)) then Some task else None)"

definition in_cooldown :: "Checker \<Rightarrow> (u64 \<times> u32) \<Rightarrow> u64 \<Rightarrow> u64 \<Rightarrow> bool" where
  "in_cooldown ck key now wait =
     (case last_fired ck key of None \<Rightarrow> False | Some lst \<Rightarrow> now < lst + wait)"

text \<open>One policy: the new tables and the task that was scheduled, if any.\<close>

definition check_policy ::
  "ThresholdEnv \<Rightarrow> Catalog \<Rightarrow> string \<Rightarrow> FileSystemConfig \<Rightarrow> PolicyRow \<Rightarrow> Checker \<Rightarrow> Checker \<times> PolicyRunTask option" where
  "check_policy env c fs config policy ck =
     (let d = pr_definition policy; key = (pr_id policy, 0); now = te_now env in
      if \<not> pr_enabled policy then (ck, None)
      else if pd_filesystem d \<noteq> fs then (ck, None)
      else if validate_policy_for_filesystem d config \<noteq> None then (ck, None)
      else (case parse_trigger (trigger d) of
              Inl _ \<Rightarrow> (ck, None)
            | Inr spec \<Rightarrow>
              (case decode_threshold spec of
                 None \<Rightarrow> (ck, None)
               | Some params \<Rightarrow>
                   if (case next_check ck key of None \<Rightarrow> 0 | Some n \<Rightarrow> n) > now then (ck, None)
                   else
                     (let ck1 = ck\<lparr>next_check := (next_check ck)(key := Some (now + th_check params))\<rparr>;
                          target = resolve_target (th_target params)
                      in if in_cooldown ck1 key now (th_wait params) then (ck1, None)
                         else if validate_target_for_filesystem target config \<noteq> None then (ck1, None)
                         else (case evaluate_measure env c fs policy params target of
                                 None \<Rightarrow> (ck1, None)
                               | Some (fired, fire_target) \<Rightarrow>
                                   if \<not> fired then (ck1, None)
                                   else (case fire env policy fire_target of
                                           None \<Rightarrow> (ck1, None)
                                         | Some task \<Rightarrow>
                                             (ck1\<lparr>last_fired := (last_fired ck1)(key := Some now)\<rparr>, Some task)))))))"

fun check_policies ::
  "ThresholdEnv \<Rightarrow> Catalog \<Rightarrow> string \<Rightarrow> FileSystemConfig \<Rightarrow> PolicyRow list \<Rightarrow> Checker \<Rightarrow> Checker \<times> PolicyRunTask list" where
  "check_policies env c fs config [] ck = (ck, [])"
| "check_policies env c fs config (policy # policies) ck =
     (case check_policy env c fs config policy ck of
        (ck1, r) \<Rightarrow>
          (case check_policies env c fs config policies ck1 of
             (ck2, tasks) \<Rightarrow> (ck2, (case r of None \<Rightarrow> tasks | Some task \<Rightarrow> task # tasks))))"

definition one_cycle ::
  "ThresholdEnv \<Rightarrow> PolicyStore \<Rightarrow> Catalog \<Rightarrow> string \<Rightarrow> Checker \<Rightarrow> (string + unit) \<times> Checker \<times> PolicyRunTask list" where
  "one_cycle env t c fs ck =
     (case get_filesystem c fs of
        None \<Rightarrow> (Inl (''unknown filesystem: '' @ fs), ck, [])
      | Some config \<Rightarrow> (Inr (), check_policies env c fs config (policy_list t) ck))"

text \<open>
  The loop, over what its cycles meet until the cancellation: the tasks scheduled, each with
  the time of its cycle.
\<close>

fun threshold_run ::
  "string \<Rightarrow> (ThresholdEnv \<times> PolicyStore \<times> Catalog) list \<Rightarrow> Checker \<Rightarrow> (u64 \<times> PolicyRunTask) list" where
  "threshold_run fs [] ck = []"
| "threshold_run fs ((env, t, c) # cycles) ck =
     (case one_cycle env t c fs ck of
        (_, ck1, tasks) \<Rightarrow> map (Pair (te_now env)) tasks @ threshold_run fs cycles ck1)"

section \<open>Lemmas\<close>

lemma decode_parsed:
  assumes "parse_trigger s = Inr spec" "decode_threshold spec = Some params"
  shows "th_check params = 300" "th_wait params = 0" "th_target params = TFs"
  using parse_trigger_ok [OF assms(1)] assms(2) by (cases spec; auto)+

text \<open>The cases of a policy: nothing, a check without a run, and a run.\<close>

lemma check_policy_cases [consumes 1, case_names skip checked fired]:
  assumes "check_policy env c fs config policy ck = (ck', r)"
  obtains "ck' = ck" "r = None"
  | n where "next_check ck (pr_id policy, 0) = n" "(case n of None \<Rightarrow> 0 | Some x \<Rightarrow> x) \<le> te_now env"
      "ck' = ck\<lparr>next_check := (next_check ck)((pr_id policy, 0) \<mapsto> te_now env + 300)\<rparr>" "r = None"
  | spec params target where "pr_enabled policy" "pd_filesystem (pr_definition policy) = fs"
      "validate_policy_for_filesystem (pr_definition policy) config = None"
      "parse_trigger (trigger (pr_definition policy)) = Inr spec" "decode_threshold spec = Some params"
      "(case next_check ck (pr_id policy, 0) of None \<Rightarrow> 0 | Some x \<Rightarrow> x) \<le> te_now env"
      "ck' = ck\<lparr>next_check := (next_check ck)((pr_id policy, 0) \<mapsto> te_now env + 300),
              last_fired := (last_fired ck)((pr_id policy, 0) \<mapsto> te_now env)\<rparr>"
      "evaluate_measure env c fs policy params FFs = Some (True, target)"
      "r = Some \<lparr>tk_policy_id = pr_id policy, tk_trigger_idx = 0, tk_target = target, tk_dry_run = False\<rparr>"
proof -
  let ?key = "(pr_id policy, 0 :: u32)"
  let ?d = "pr_definition policy"
  let ?ck1 = "ck\<lparr>next_check := (next_check ck)(?key \<mapsto> te_now env + 300)\<rparr>"
  show thesis
  proof (cases "\<not> pr_enabled policy \<or> pd_filesystem ?d \<noteq> fs \<or> validate_policy_for_filesystem ?d config \<noteq> None \<or>
      (\<forall>spec params. parse_trigger (trigger ?d) = Inr spec \<longrightarrow> decode_threshold spec \<noteq> Some params) \<or>
      (case next_check ck ?key of None \<Rightarrow> 0 | Some n \<Rightarrow> n) > te_now env")
    case True
    have "check_policy env c fs config policy ck = (ck, None)"
    proof (cases "parse_trigger (trigger ?d)")
      case (Inl e)
      then show ?thesis by (simp add: check_policy_def Let_def)
    next
      case (Inr spec)
      with True show ?thesis by (cases "decode_threshold spec") (auto simp: check_policy_def Let_def)
    qed
    with assms that(1) show thesis by simp
  next
    case False
    then obtain spec params where spec: "parse_trigger (trigger ?d) = Inr spec" "decode_threshold spec = Some params" by blast
    note shape = decode_parsed [OF spec]
    have target: "validate_target_for_filesystem FFs config = None" by (simp add: validate_target_for_filesystem_def)
    have "check_policy env c fs config policy ck = (if in_cooldown ?ck1 ?key (te_now env) 0 then (?ck1, None)
        else if validate_target_for_filesystem FFs config \<noteq> None then (?ck1, None)
        else (case evaluate_measure env c fs policy params FFs of
                None \<Rightarrow> (?ck1, None)
              | Some (fired, target) \<Rightarrow>
                  if \<not> fired then (?ck1, None)
                  else (case fire env policy target of
                          None \<Rightarrow> (?ck1, None)
                        | Some task \<Rightarrow> (?ck1\<lparr>last_fired := (last_fired ?ck1)(?key \<mapsto> te_now env)\<rparr>, Some task))))"
      using False by (simp add: check_policy_def Let_def spec shape)
    then have eqn: "(ck', r) = (if in_cooldown ?ck1 ?key (te_now env) 0 then (?ck1, None)
        else (case evaluate_measure env c fs policy params FFs of
                None \<Rightarrow> (?ck1, None)
              | Some (fired, target) \<Rightarrow>
                  if \<not> fired then (?ck1, None)
                  else (case fire env policy target of
                          None \<Rightarrow> (?ck1, None)
                        | Some task \<Rightarrow> (?ck1\<lparr>last_fired := (last_fired ?ck1)(?key \<mapsto> te_now env)\<rparr>, Some task))))"
      unfolding assms target by simp
    show thesis
    proof (cases r)
      case None
      with eqn False that(2) show thesis by (auto simp: not_less split: if_splits option.splits)
    next
      case (Some task)
      with eqn obtain target where "evaluate_measure env c fs policy params FFs = Some (True, target)"
          "fire env policy target = Some task"
          "ck' = ?ck1\<lparr>last_fired := (last_fired ?ck1)(?key \<mapsto> te_now env)\<rparr>"
        by (auto split: if_splits option.splits)
      with Some False spec that(3) show thesis by (auto simp: fire_def Let_def not_less split: if_splits)
    qed
  qed
qed

lemma check_policies_fired:
  assumes "check_policies env c fs config policies ck = (ck', tasks)" "task \<in> set tasks"
  shows "\<exists>policy spec params. policy \<in> set policies \<and> pr_enabled policy \<and>
    pd_filesystem (pr_definition policy) = fs \<and>
    validate_policy_for_filesystem (pr_definition policy) config = None \<and>
    parse_trigger (trigger (pr_definition policy)) = Inr spec \<and> decode_threshold spec = Some params \<and>
    evaluate_measure env c fs policy params FFs = Some (True, tk_target task) \<and>
    tk_policy_id task = pr_id policy \<and> \<not> tk_dry_run task"
  using assms
proof (induction policies arbitrary: ck ck' tasks)
  case (Cons policy policies)
  obtain ck1 r ck2 rest where step: "check_policy env c fs config policy ck = (ck1, r)"
      and rest: "check_policies env c fs config policies ck1 = (ck2, rest)"
    by (metis prod.exhaust)
  with Cons.prems have tasks: "tasks = (case r of None \<Rightarrow> rest | Some x \<Rightarrow> x # rest)" by simp
  show ?case
  proof (cases "task \<in> set rest")
    case True
    from Cons.IH [OF rest True] show ?thesis by auto
  next
    case False
    with tasks Cons.prems(2) have "r = Some task" by (auto split: option.splits)
    with step show ?thesis by (cases rule: check_policy_cases) auto
  qed
qed simp

lemma ost_pct_capability:
  assumes "validate_policy_for_filesystem d config = None" "parse_trigger (trigger d) = Inr (ThresholdOstPct k h l w t)"
  shows "ost (capabilities config)"
  using assms by (auto simp: validate_policy_for_filesystem_def or_else_def validate_spec_def require_def
      split: if_splits option.splits)

lemma first_ost_over_pct_Some:
  "first_ost_over_pct us target pct = Some i \<Longrightarrow>
     \<exists>u \<in> set us. ou_index u = i \<and> used_ratio u \<ge> f64_div (f64 (of_nat (unat pct))) 100"
  by (induction us) (auto split: ThresholdTarget.splits if_splits)

section \<open>Properties\<close>

text \<open>What it means that a watermark is reached, for the rows the policy selects.\<close>

fun measure_reached ::
  "ThresholdEnv \<Rightarrow> ScopedEntryRow list \<Rightarrow> u64 \<Rightarrow> Measure \<Rightarrow> TargetFilter \<Rightarrow> bool" where
  "measure_reached env rows i (MCount high) target \<longleftrightarrow> unat high \<le> length rows \<and> target = FFs"
| "measure_reached env rows i (MVolume high) target \<longleftrightarrow> unat high \<le> volume rows \<and> target = FFs"
| "measure_reached env rows i (MOstPct pct) target \<longleftrightarrow>
     (\<exists>us u. te_ost env i = Some us \<and> u \<in> set us \<and> target = FOst [ou_index u] \<and>
        used_ratio u \<ge> f64_div (f64 (of_nat (unat pct))) 100)"
| "measure_reached env rows i (MFsPct pct) target \<longleftrightarrow>
     (\<exists>us. te_ost env i = Some us \<and> fs_pct_reached us pct) \<and> target = FFs"

lemma unat_word_of_nat_le: "unat (word_of_nat n :: u64) \<le> n"
  by (simp add: unat_of_nat take_bit_nat_less_eq_self)

lemma evaluate_reached:
  assumes "evaluate_measure env c fs policy params FFs = Some (True, target)"
  shows "measure_reached env (scoped_where (te_db env) c fs
      (fst (to_sql (effective_predicate (match_tags (pr_definition policy)) FFs)))
      (snd (to_sql (effective_predicate (match_tags (pr_definition policy)) FFs))))
    (pr_id policy) (th_measure params) target"
proof (cases "th_measure params")
  case (MCount high)
  with assms show ?thesis
    using unat_word_of_nat_le
    by (auto simp: evaluate_measure_def case_prod_unfold Let_def count_scoped_where_def word_le_nat_alt intro: order_trans)
next
  case (MVolume high)
  with assms show ?thesis
    using unat_word_of_nat_le
    by (auto simp: evaluate_measure_def case_prod_unfold Let_def sum_scoped_size_where_def word_le_nat_alt
        intro: order_trans min.cobounded2)
next
  case (MOstPct pct)
  with assms show ?thesis
    using first_ost_over_pct_Some
    by (fastforce simp: evaluate_measure_def case_prod_unfold Let_def split: option.splits)
next
  case (MFsPct pct)
  with assms show ?thesis
    by (auto simp: evaluate_measure_def case_prod_unfold Let_def split: option.splits)
qed

lemma fired_target_authorized:
  assumes "evaluate_measure env c fs policy params FFs = Some (True, target)"
    and "validate_policy_for_filesystem d config = None" "parse_trigger (trigger d) = Inr spec"
    and "decode_threshold spec = Some params"
  shows "target_authorized target config"
proof (cases spec)
  case (ThresholdOstPct k h l w t)
  with assms ost_pct_capability evaluate_reached [OF assms(1)] show ?thesis by auto
qed (use assms(4) evaluate_reached [OF assms(1)] in auto)

text \<open>
  C33: the checker schedules a run only for an enabled policy of its filesystem that passes
  the capability checks and whose trigger is a threshold, and only when the watermark is
  reached by the rows the policy selects or by the usage read; the run is not a dry run, and
  it is aimed at the whole filesystem or at an object target above its watermark, for which
  the filesystem has the capability.
\<close>

theorem threshold_fires:
  assumes "one_cycle env t c fs ck = (r, ck', tasks)" "task \<in> set tasks"
  shows "\<exists>policy config spec params. policy \<in> set (ps_rows t) \<and> get_filesystem c fs = Some config \<and>
    pr_enabled policy \<and> tk_policy_id task = pr_id policy \<and> \<not> tk_dry_run task \<and>
    authorized (pr_definition policy) config \<and> pd_filesystem (pr_definition policy) = fs \<and>
    target_authorized (tk_target task) config \<and>
    parse_trigger (trigger (pr_definition policy)) = Inr spec \<and> decode_threshold spec = Some params \<and>
    measure_reached env (scoped_where (te_db env) c fs
        (fst (to_sql (effective_predicate (match_tags (pr_definition policy)) FFs)))
        (snd (to_sql (effective_predicate (match_tags (pr_definition policy)) FFs))))
      (pr_id policy) (th_measure params) (tk_target task)"
proof -
  from assms obtain config where config: "get_filesystem c fs = Some config"
      "check_policies env c fs config (policy_list t) ck = (ck', tasks)"
    by (auto simp: one_cycle_def split: option.splits)
  from check_policies_fired [OF config(2) assms(2)] obtain policy spec params where
    p: "policy \<in> set (policy_list t)" "pr_enabled policy" "pd_filesystem (pr_definition policy) = fs"
      "validate_policy_for_filesystem (pr_definition policy) config = None"
      "parse_trigger (trigger (pr_definition policy)) = Inr spec" "decode_threshold spec = Some params"
      "evaluate_measure env c fs policy params FFs = Some (True, tk_target task)"
      "tk_policy_id task = pr_id policy" "\<not> tk_dry_run task" by blast
  have "policy \<in> set (ps_rows t)" using p(1) by (simp add: policy_list_def)
  with p config(1) authorized_iff [OF p(4)] fired_target_authorized [OF p(7,4,5,6)] evaluate_reached [OF p(7)]
  show ?thesis by blast
qed

definition threshold_demo_policy :: PolicyDef where
  "threshold_demo_policy = demo_policy\<lparr>trigger := ''count > 0''\<rparr>"

definition threshold_demo_policies :: PolicyStore where
  "threshold_demo_policies = \<lparr>ps_next = 2, ps_rows = [\<lparr>pr_id = 1, pr_name = ''old'',
     pr_definition = threshold_demo_policy, pr_enabled = True, pr_created_at = 0, pr_updated_at = 0\<rparr>]\<rparr>"

definition threshold_demo_env :: "u64 \<Rightarrow> ThresholdEnv" where
  "threshold_demo_env now = \<lparr>te_now = now, te_db = (\<lambda>_ _ _. True), te_ost = (\<lambda>_. None),
     te_fire_now = (\<lambda>_. now), te_add = (\<lambda>_ _. True)\<rparr>"

definition threshold_demo_task :: PolicyRunTask where
  "threshold_demo_task = \<lparr>tk_policy_id = 1, tk_trigger_idx = 0, tk_target = FFs, tk_dry_run = False\<rparr>"

lemma threshold_demo_trigger: "parse_trigger ''count > 0'' = Inr (ThresholdCount 300 0 0 0 TFs)"
proof -
  have "''0'' = dec_str (unat (0 :: u64))" by code_simp
  then show ?thesis using parse_count [of 0] by simp
qed

lemmas threshold_demo_defs = threshold_demo_policy_def threshold_demo_policies_def threshold_demo_env_def
  threshold_demo_task_def demo_policy_def

lemma threshold_demo_valid:
  "validate_policy_for_filesystem threshold_demo_policy (snd (hd (filesystems demo_catalog))) = None"
  by (simp add: validate_policy_for_filesystem_def validate_kind_def validate_spec_def validate_threshold_target_def
      require_def or_else_def threshold_demo_defs demo_catalog_def threshold_demo_trigger)

lemma threshold_demo_fs: "get_filesystem hsm_demo_catalog ''lustre-a'' = Some (snd (hd (filesystems demo_catalog)))"
  by (simp add: get_filesystem_def hsm_demo_catalog_def demo_catalog_def)

text \<open>One cycle of the checker on this policy, when it is due and when it is not.\<close>

abbreviation threshold_demo_row :: PolicyRow where
  "threshold_demo_row \<equiv> hd (ps_rows threshold_demo_policies)"

definition threshold_demo_params :: ThresholdParams where
  "threshold_demo_params = the (decode_threshold (ThresholdCount 300 0 0 0 TFs))"

lemma threshold_demo_row:
  "policy_list threshold_demo_policies = [threshold_demo_row]" "pr_definition threshold_demo_row = threshold_demo_policy"
  "pr_id threshold_demo_row = 1" "pr_enabled threshold_demo_row"
  "trigger threshold_demo_policy = ''count > 0''" "pd_filesystem threshold_demo_policy = ''lustre-a''"
  by (simp_all add: threshold_demo_defs policy_list_def)

lemma threshold_demo_params:
  "decode_threshold (ThresholdCount 300 0 0 0 TFs) = Some threshold_demo_params"
  "th_check threshold_demo_params = 300" "th_wait threshold_demo_params = 0"
  "resolve_target (th_target threshold_demo_params) = FFs"
  by (simp_all add: threshold_demo_params_def)

lemma threshold_demo_measure:
  "evaluate_measure env c fs policy threshold_demo_params FFs = Some (True, FFs)"
  by (simp add: threshold_demo_params_def evaluate_measure_def case_prod_unfold Let_def)

lemma threshold_demo_fire: "fire (threshold_demo_env now) threshold_demo_row FFs = Some threshold_demo_task"
  by (simp add: fire_def threshold_demo_row threshold_demo_env_def threshold_demo_task_def)

lemma threshold_demo_cycle:
  assumes "get_filesystem hsm_demo_catalog ''lustre-a'' = Some config"
    and "(case next_check ck (1, 0) of None \<Rightarrow> 0 | Some n \<Rightarrow> n) = n"
  shows "one_cycle (threshold_demo_env now) threshold_demo_policies hsm_demo_catalog ''lustre-a'' ck =
     (Inr (),
      if now < n then (ck, [])
      else if in_cooldown ck (1, 0) now 0 then (ck\<lparr>next_check := (next_check ck)((1, 0) \<mapsto> now + 300)\<rparr>, [])
      else (ck\<lparr>next_check := (next_check ck)((1, 0) \<mapsto> now + 300), last_fired := (last_fired ck)((1, 0) \<mapsto> now)\<rparr>,
            [threshold_demo_task]))"
proof -
  have config: "config = snd (hd (filesystems demo_catalog))" using assms(1) by (simp add: threshold_demo_fs)
  have target: "validate_target_for_filesystem FFs config = None"
    by (simp add: validate_target_for_filesystem_def)
  have now: "te_now (threshold_demo_env now) = now" by (simp add: threshold_demo_env_def)
  have cool: "in_cooldown (ck\<lparr>next_check := m\<rparr>) k t w = in_cooldown ck k t w" for m k t w
    by (simp add: in_cooldown_def)
  have "check_policy (threshold_demo_env now) hsm_demo_catalog ''lustre-a'' config threshold_demo_row ck =
     (if now < n then (ck, None)
      else if in_cooldown ck (1, 0) now 0 then (ck\<lparr>next_check := (next_check ck)((1, 0) \<mapsto> now + 300)\<rparr>, None)
      else (ck\<lparr>next_check := (next_check ck)((1, 0) \<mapsto> now + 300), last_fired := (last_fired ck)((1, 0) \<mapsto> now)\<rparr>,
            Some threshold_demo_task))"
    unfolding check_policy_def Let_def threshold_demo_row threshold_demo_trigger sum.case threshold_demo_params(1) option.case
      threshold_demo_params(2-) now cool assms(2) config threshold_demo_valid target [unfolded config]
      threshold_demo_measure prod.case threshold_demo_fire by (simp add: threshold_demo_row)
  then show ?thesis by (auto simp: one_cycle_def assms(1) threshold_demo_row(1))
qed

lemmas threshold_demo_run = threshold_demo_cycle [OF threshold_demo_fs]

theorem threshold_fires_witness:
  "one_cycle (threshold_demo_env 1000) threshold_demo_policies hsm_demo_catalog ''lustre-a'' checker_init =
     (Inr (), \<lparr>last_fired = (\<lambda>_. None)((1, 0) \<mapsto> 1000), next_check = (\<lambda>_. None)((1, 0) \<mapsto> 1300)\<rparr>, [threshold_demo_task]) \<and>
   \<not> tk_dry_run threshold_demo_task \<and> target_authorized (tk_target threshold_demo_task) (snd (hd (filesystems demo_catalog)))"
proof -
  have run: "one_cycle (threshold_demo_env 1000) threshold_demo_policies hsm_demo_catalog ''lustre-a'' checker_init =
     (Inr (), \<lparr>last_fired = (\<lambda>_. None)((1, 0) \<mapsto> 1000), next_check = (\<lambda>_. None)((1, 0) \<mapsto> 1300)\<rparr>, [threshold_demo_task])"
    by (simp add: threshold_demo_run checker_init_def in_cooldown_def)
  from threshold_fires [OF run] run show ?thesis by (auto simp: threshold_demo_fs)
qed

section \<open>Spacing of the runs\<close>

text \<open>\<open>due ck i t\<close>: policy \<open>i\<close> is not checked before \<open>t\<close>.\<close>

definition due :: "Checker \<Rightarrow> u64 \<Rightarrow> nat \<Rightarrow> bool" where
  "due ck i t \<longleftrightarrow> (\<exists>n. next_check ck (i, 0) = Some n \<and> t \<le> unat n)"

lemma unat_plus_300: "unat t < 2 ^ 64 - 300 \<Longrightarrow> unat (t + 300 :: u64) = unat t + 300"
  by (simp add: unat_word_ariths)

lemma due_check_policy:
  assumes "check_policy env c fs config policy ck = (ck', r)" "due ck i t" "unat (te_now env) < 2 ^ 64 - 300"
  shows "due ck' i t" "r = Some task \<Longrightarrow> tk_policy_id task = i \<Longrightarrow> t \<le> unat (te_now env)"
  using assms
  by (cases rule: check_policy_cases;
      auto simp: due_def unat_plus_300 word_le_nat_alt split: option.splits)+

lemma fired_due:
  assumes "check_policy env c fs config policy ck = (ck', Some task)" "unat (te_now env) < 2 ^ 64 - 300"
  shows "due ck' (tk_policy_id task) (unat (te_now env) + 300)"
  using assms by (cases rule: check_policy_cases) (auto simp: due_def unat_plus_300)

abbreviation spaced :: "(u64 \<times> PolicyRunTask) list \<Rightarrow> bool" where
  "spaced \<equiv> sorted_wrt (\<lambda>(t1, a) (t2, b). tk_policy_id a = tk_policy_id b \<longrightarrow> unat t1 + 300 \<le> unat t2)"

lemma check_policies_due:
  assumes "check_policies env c fs config policies ck = (ck', tasks)" "unat (te_now env) < 2 ^ 64 - 300"
  shows "(due ck i t \<longrightarrow> due ck' i t \<and> (\<forall>task \<in> set tasks. tk_policy_id task = i \<longrightarrow> t \<le> unat (te_now env))) \<and>
    (\<forall>task \<in> set tasks. due ck' (tk_policy_id task) (unat (te_now env) + 300)) \<and>
    spaced (map (Pair (te_now env)) tasks)"
  using assms(1)
proof (induction policies arbitrary: ck ck' tasks i t)
  case (Cons policy policies)
  obtain ck1 r rest where step: "check_policy env c fs config policy ck = (ck1, r)"
      and rest: "check_policies env c fs config policies ck1 = (ck', rest)"
      and tasks: "tasks = (case r of None \<Rightarrow> rest | Some x \<Rightarrow> x # rest)"
    using Cons.prems by (auto split: prod.splits)
  note IH = Cons.IH [OF rest]
  show ?case
  proof (cases r)
    case None
    with tasks IH [of i t] IH due_check_policy [OF step _ assms(2), of i t] show ?thesis by auto
  next
    case (Some task)
    note d = fired_due [OF step [unfolded Some] assms(2)]
    from IH [of "tk_policy_id task" "unat (te_now env) + 300"] d
    have later: "due ck' (tk_policy_id task) (unat (te_now env) + 300)"
      "\<forall>x \<in> set rest. tk_policy_id x \<noteq> tk_policy_id task" by auto
    with tasks Some IH [of i t] due_check_policy [OF step _ assms(2), of i t] show ?thesis by auto
  qed
qed simp

lemma one_cycle_due:
  assumes "one_cycle env t c fs ck = (r, ck', tasks)" "unat (te_now env) < 2 ^ 64 - 300"
  shows "due ck i n \<Longrightarrow> due ck' i n"
    "due ck i n \<Longrightarrow> task \<in> set tasks \<Longrightarrow> tk_policy_id task = i \<Longrightarrow> n \<le> unat (te_now env)"
    "task \<in> set tasks \<Longrightarrow> due ck' (tk_policy_id task) (unat (te_now env) + 300)"
    "spaced (map (Pair (te_now env)) tasks)"
proof -
  have "(due ck i n \<longrightarrow> due ck' i n \<and> (\<forall>task \<in> set tasks. tk_policy_id task = i \<longrightarrow> n \<le> unat (te_now env))) \<and>
    (\<forall>task \<in> set tasks. due ck' (tk_policy_id task) (unat (te_now env) + 300)) \<and>
    spaced (map (Pair (te_now env)) tasks)"
  proof (cases "get_filesystem c fs")
    case None
    with assms(1) show ?thesis by (simp add: one_cycle_def)
  next
    case (Some config)
    with assms(1) have "check_policies env c fs config (policy_list t) ck = (ck', tasks)" by (simp add: one_cycle_def)
    from check_policies_due [OF this assms(2)] show ?thesis .
  qed
  then show "due ck i n \<Longrightarrow> due ck' i n"
    "due ck i n \<Longrightarrow> task \<in> set tasks \<Longrightarrow> tk_policy_id task = i \<Longrightarrow> n \<le> unat (te_now env)"
    "task \<in> set tasks \<Longrightarrow> due ck' (tk_policy_id task) (unat (te_now env) + 300)"
    "spaced (map (Pair (te_now env)) tasks)" by blast+
qed

lemma threshold_run_due:
  assumes "\<forall>(env, t, c) \<in> set cycles. unat (te_now env) < 2 ^ 64 - 300" "due ck i n"
  shows "\<forall>(t, task) \<in> set (threshold_run fs cycles ck). tk_policy_id task = i \<longrightarrow> n \<le> unat t"
  using assms
proof (induction cycles arbitrary: ck)
  case (Cons cycle cycles)
  obtain env t c where [simp]: "cycle = (env, t, c)" by (cases cycle)
  obtain r ck1 tasks where step: "one_cycle env t c fs ck = (r, ck1, tasks)" by (metis prod.exhaust)
  from Cons.prems have now: "unat (te_now env) < 2 ^ 64 - 300" by simp
  note d = one_cycle_due(1,2) [OF step now]
  from Cons.IH [of ck1] Cons.prems d(1) [of i n] d(2) [of i n] show ?case by (auto simp: step)
qed simp

text \<open>
  C34: two runs that the checker schedules for one policy are at least the check interval of
  300 seconds apart, over any sequence of cycles, policies and catalogs, as long as the
  clock is not within 300 seconds of the end of the 64-bit range.
\<close>

theorem threshold_spacing:
  assumes "\<forall>(env, t, c) \<in> set cycles. unat (te_now env) < 2 ^ 64 - 300"
  shows "spaced (threshold_run fs cycles ck)"
  using assms
proof (induction cycles arbitrary: ck)
  case (Cons cycle cycles)
  obtain env t c where [simp]: "cycle = (env, t, c)" by (cases cycle)
  obtain r ck1 tasks where step: "one_cycle env t c fs ck = (r, ck1, tasks)" by (metis prod.exhaust)
  from Cons.prems have now: "unat (te_now env) < 2 ^ 64 - 300" by simp
  note d = one_cycle_due [OF step now]
  have later: "unat (te_now env) + 300 \<le> unat t2"
    if "task \<in> set tasks" "(t2, b) \<in> set (threshold_run fs cycles ck1)" "tk_policy_id task = tk_policy_id b" for task t2 b
  proof -
    have "\<forall>(env, t, c) \<in> set cycles. unat (te_now env) < 2 ^ 64 - 300" using Cons.prems by auto
    from threshold_run_due [OF this d(3) [OF that(1)], of fs] that(2,3) show ?thesis by auto
  qed
  have "spaced (threshold_run fs cycles ck1)" using Cons.prems by (intro Cons.IH) auto
  with d(4) show ?case using later by (auto simp: step sorted_wrt_append)
qed simp

theorem threshold_spacing_witness:
  "\<exists>c. threshold_run ''lustre-a'' [(threshold_demo_env 1000, c), (threshold_demo_env 1200, c), (threshold_demo_env 1300, c)]
       checker_init = [(1000, threshold_demo_task), (1300, threshold_demo_task)] \<and>
     spaced [(1000, threshold_demo_task), (1300, threshold_demo_task)]"
proof (rule exI [of _ "(threshold_demo_policies, hsm_demo_catalog)"])
  let ?c = "(threshold_demo_policies, hsm_demo_catalog)"
  have run: "threshold_run ''lustre-a'' [(threshold_demo_env 1000, ?c), (threshold_demo_env 1200, ?c), (threshold_demo_env 1300, ?c)]
       checker_init = [(1000, threshold_demo_task), (1300, threshold_demo_task)]"
    by (simp add: threshold_demo_run checker_init_def in_cooldown_def) (simp add: threshold_demo_env_def)
  have "spaced (threshold_run ''lustre-a'' [(threshold_demo_env 1000, ?c), (threshold_demo_env 1200, ?c),
      (threshold_demo_env 1300, ?c)] checker_init)"
    by (rule threshold_spacing) (simp add: threshold_demo_env_def)
  with run show "threshold_run ''lustre-a'' [(threshold_demo_env 1000, ?c), (threshold_demo_env 1200, ?c), (threshold_demo_env 1300, ?c)]
       checker_init = [(1000, threshold_demo_task), (1300, threshold_demo_task)] \<and>
     spaced [(1000, threshold_demo_task), (1300, threshold_demo_task)]" by (simp only: simp_thms)
qed

section \<open>Object targets\<close>

text \<open>
  No full object target is missed by the rounding: when a target in the scope of the
  trigger holds at least the given percentage, exactly computed, and its sizes are below
  \<open>2 ^ 53\<close> bytes, the check finds a target at or before it; what it finds has a rounded ratio
  of at least the rounded watermark.
\<close>

theorem hot_ost_found:
  assumes "u \<in> set us" "total_bytes u > 0" "unat (total_bytes u) < 2 ^ 53" "unat (used_bytes u) < 2 ^ 53"
    and "100 * unat (used_bytes u) \<ge> unat pct * unat (total_bytes u)"
    and "target = TFs \<or> (\<exists>osts. target = TOst osts \<and> ou_index u \<in> set osts)"
  shows "\<exists>i v. first_ost_over_pct us target pct = Some i \<and> v \<in> set us \<and> ou_index v = i \<and>
    used_ratio v \<ge> f64_div (f64 (of_nat (unat pct))) 100"
proof -
  have exact: "f64_of_u64 (used_bytes u) = of_nat (unat (used_bytes u))"
    "f64_of_u64 (total_bytes u) = of_nat (unat (total_bytes u))"
    unfolding f64_of_u64_def using assms(3,4) by (auto intro!: f64_exact simp del: of_nat_unat)
  have pct: "f64 (of_nat (unat pct)) = of_nat (unat pct)"
    using unat_bounds(3) [of pct] by (intro f64_exact) simp
  have pos: "(of_nat (unat (total_bytes u)) :: rat) > 0" using assms(2) by (simp add: word_less_nat_alt del: of_nat_unat)
  have "rat_of_nat (unat pct * unat (total_bytes u)) \<le> rat_of_nat (100 * unat (used_bytes u))"
    using assms(5) by (simp only: of_nat_le_iff)
  then have "rat_of_nat (unat pct) / 100 \<le> rat_of_nat (unat (used_bytes u)) / rat_of_nat (unat (total_bytes u))"
    using pos by (simp add: field_simps del: of_nat_unat)
  then have "f64 (rat_of_nat (unat pct) / 100) \<le> f64 (rat_of_nat (unat (used_bytes u)) / rat_of_nat (unat (total_bytes u)))"
    by (intro f64_mono) (simp_all del: of_nat_unat)
  then have hot: "used_ratio u \<ge> f64_div (f64 (of_nat (unat pct))) 100"
    using word_gt_0 [of "total_bytes u"] assms(2) unfolding used_ratio_def f64_div_def exact pct
    by (simp del: of_nat_unat)
  have "first_ost_over_pct us target pct \<noteq> None"
    using assms(1,6) hot by (induction us) (auto split: ThresholdTarget.splits)
  then show ?thesis using first_ost_over_pct_Some [of us target pct] by blast
qed

theorem hot_ost_found_witness:
  "\<exists>i. first_ost_over_pct [\<lparr>ou_index = 3, ou_name = ''fs-OST0003'', total_bytes = 1000, used_bytes = 290,
       free_bytes = 710, avail_bytes = 700\<rparr>] TFs 29 = Some i"
  using hot_ost_found [of "\<lparr>ou_index = 3, ou_name = ''fs-OST0003'', total_bytes = 1000, used_bytes = 290,
       free_bytes = 710, avail_bytes = 700\<rparr>" "[\<lparr>ou_index = 3, ou_name = ''fs-OST0003'', total_bytes = 1000,
       used_bytes = 290, free_bytes = 710, avail_bytes = 700\<rparr>]" 29 TFs]
  by auto

lemma fs_pct_margin:
  assumes "tot = unat (sum_list (map total_bytes us))" "usd = unat (sum_list (map used_bytes us))"
    and "0 < tot" "tot < 2 ^ 53" "usd < 2 ^ 53"
  shows "(unat pct * tot * 2 ^ 52 \<le> 100 * usd * (2 ^ 52 - 1) \<longrightarrow> fs_pct_reached us pct) \<and>
      (fs_pct_reached us pct \<longrightarrow> unat pct * tot * 2 ^ 51 \<le> 100 * usd * (2 ^ 51 + 1))"
proof -
  define x :: rat where "x = rat_of_nat usd / rat_of_nat tot"
  define y :: rat where "y = f64 x * 100"
  note a = assms(3,4,5)
  have x: "0 \<le> x" by (simp add: x_def)
  have pct: "f64 (of_nat (unat pct)) = of_nat (unat pct)"
    using unat_bounds(3) [of pct] by (intro f64_exact) simp
  have reached: "fs_pct_reached us pct \<longleftrightarrow> rat_of_nat (unat pct) \<le> f64 y"
    using a f64_exact [of usd] f64_exact [of tot]
    by (auto simp: fs_pct_reached_def Let_def f64_of_u64_def f64_div_def f64_mul_def pct x_def y_def assms(1,2)
        word_gt_0 unat_gt_0 simp del: of_nat_unat)
  note e1 = f64_relative [OF x]
  have y: "0 \<le> y" using f64_nonneg [OF x] by (simp add: y_def)
  note e2 = f64_relative [OF y]
  have low: "100 * x * (1 - 1 / 2 ^ 52) \<le> f64 y"
    using e1(1) e2(1) x by (simp add: y_def field_simps)
  have high: "f64 y \<le> 100 * x * (1 + 1 / 2 ^ 51)"
    using e1(2) e2(2) x by (simp add: y_def field_simps)
  have xt: "x * of_nat tot = of_nat usd" using a(1) by (simp add: x_def)
  have "fs_pct_reached us pct" if "unat pct * tot * 2 ^ 52 \<le> 100 * usd * (2 ^ 52 - 1)"
  proof -
    have "rat_of_nat (unat pct * tot * 2 ^ 52) \<le> rat_of_nat (100 * usd * (2 ^ 52 - 1))"
      using that by (simp only: of_nat_le_iff)
    then have "rat_of_nat (unat pct) * of_nat tot \<le> 100 * x * (1 - 1 / 2 ^ 52) * of_nat tot"
      by (simp add: xt [symmetric] field_simps del: of_nat_unat)
    with a(1) low show ?thesis unfolding reached by (simp del: of_nat_unat)
  qed
  moreover have "unat pct * tot * 2 ^ 51 \<le> 100 * usd * (2 ^ 51 + 1)" if "fs_pct_reached us pct"
  proof -
    have "rat_of_nat (unat pct) \<le> 100 * x * (1 + 1 / 2 ^ 51)" using that high unfolding reached by linarith
    then have "rat_of_nat (unat pct) * of_nat tot \<le> 100 * x * (1 + 1 / 2 ^ 51) * of_nat tot"
      by (intro mult_right_mono) simp_all
    then have "rat_of_nat (unat pct * tot * 2 ^ 51) \<le> rat_of_nat (100 * usd * (2 ^ 51 + 1))"
      by (simp add: xt [symmetric] field_simps del: of_nat_unat)
    then show ?thesis by (simp only: of_nat_le_iff)
  qed
  ultimately show ?thesis by blast
qed

lemma fs_pct_missed:
  "\<not> fs_pct_reached [\<lparr>ou_index = 0, ou_name = ''fs-OST0000'', total_bytes = 100, used_bytes = 29,
         free_bytes = 71, avail_bytes = 71\<rparr>] 29"
proof -
  have ints: "f64_of_u64 29 = 29" "f64_of_u64 100 = 100" "f64 29 = 29"
    using f64_exact [of 29] f64_exact [of 100] by (simp_all add: f64_of_u64_def)
  have "f64 (29 / 100) = 5224175567749775 / 18014398509481984"
    using f64_eval [of "-2" "29 / 100" 5224175567749775] by (simp add: power_int_minus)
  moreover have "f64 (5224175567749775 / 18014398509481984 * 100) = 8162774324609023 / 281474976710656"
    using f64_eval [of 4 "5224175567749775 / 18014398509481984 * 100" 8162774324609023] by (simp add: power_int_minus)
  ultimately have "f64_mul (f64_div 29 100) 100 = 8162774324609023 / 281474976710656"
    unfolding f64_div_def f64_mul_def by (simp only:)
  then show ?thesis by (simp add: fs_pct_reached_def ints)
qed

text \<open>
  C35: the check of the whole filesystem multiplies a rounded ratio, so it is accurate to two
  roundings: with sizes below \<open>2 ^ 53\<close> bytes it fires whenever the usage exceeds the watermark by
  one part in \<open>2 ^ 52\<close>, and only when the usage is at most one part in \<open>2 ^ 51\<close> below it.
  The margin is needed: with 29 of 100 bytes used, a watermark of 29 percent is not reached.
\<close>

theorem fs_pct_accuracy:
  assumes "tot = unat (sum_list (map total_bytes us))" "usd = unat (sum_list (map used_bytes us))"
    and "0 < tot" "tot < 2 ^ 53" "usd < 2 ^ 53"
  shows "(unat pct * tot * 2 ^ 52 \<le> 100 * usd * (2 ^ 52 - 1) \<longrightarrow> fs_pct_reached us pct) \<and>
      (fs_pct_reached us pct \<longrightarrow> unat pct * tot * 2 ^ 51 \<le> 100 * usd * (2 ^ 51 + 1)) \<and>
      \<not> fs_pct_reached [\<lparr>ou_index = 0, ou_name = ''fs-OST0000'', total_bytes = 100, used_bytes = 29,
         free_bytes = 71, avail_bytes = 71\<rparr>] 29"
  using fs_pct_margin [OF assms] fs_pct_missed by blast

theorem fs_pct_accuracy_witness:
  "fs_pct_reached [\<lparr>ou_index = 0, ou_name = ''fs-OST0000'', total_bytes = 100, used_bytes = 30,
     free_bytes = 70, avail_bytes = 70\<rparr>] 29"
  using fs_pct_accuracy [of 100 "[\<lparr>ou_index = 0, ou_name = ''fs-OST0000'', total_bytes = 100, used_bytes = 30,
     free_bytes = 70, avail_bytes = 70\<rparr>]" 30 29] by simp

end
