(* ===== verification/Rbh_Legacy.thy ===== *)
theory Rbh_Legacy
  imports Rbh_Threshold
begin

text \<open>
  The unscoped tables that \<open>crates/rbh-entry-store/src/store.rs\<close> keeps for Lustre compatibility
  (\<open>entries\<close>, \<open>names\<close>, \<open>removed_entries\<close>) and their operations. A table is the list of its rows,
  distinct under the primary key. The columns of \<open>entries\<close> have no place for the stripe items,
  and no operation writes them elsewhere. Where SQL takes some row, the list takes its first.
  The binary keys are ordered as the identifiers they encode. Limits are below \<open>2 ^ 63\<close>, as the
  handlers clamp them.
\<close>

section \<open>Tables\<close>

record RemovedEntry =
  rm_fid :: LuFid
  rm_parent_fid :: "LuFid option"
  rm_name :: bytes
  rm_kind :: EntryKind
  rm_size :: u64
  rm_uid :: u32
  rm_gid :: u32
  rm_sm_status :: json
  rm_time :: i64

record LegacyTables =
  lg_entries :: "EntryRow list"
  lg_names :: "(LuFid \<times> LuFid \<times> bytes) list"
  lg_removed :: "RemovedEntry list"

definition legacy_empty :: LegacyTables where
  "legacy_empty = \<lparr>lg_entries = [], lg_names = [], lg_removed = []\<rparr>"

text \<open>\<open>INSERT ... ON DUPLICATE KEY UPDATE\<close> of all columns, and reading by key.\<close>

definition put_row :: "('r \<Rightarrow> 'k) \<Rightarrow> 'r \<Rightarrow> 'r list \<Rightarrow> 'r list" where
  "put_row key r rs =
     (if key r \<in> key ` set rs then map (\<lambda>x. if key x = key r then r else x) rs else rs @ [r])"

text \<open>The columns of a row, as they are read back.\<close>

definition row_to_entry :: "EntryRow \<Rightarrow> EntryRow" where
  "row_to_entry e = e\<lparr>e_stripe_items := []\<rparr>"

definition legacy_lustre_upsert_entry :: "LegacyTables \<Rightarrow> EntryRow \<Rightarrow> LegacyTables" where
  "legacy_lustre_upsert_entry t e = t\<lparr>lg_entries := put_row er_fid (row_to_entry e) (lg_entries t)\<rparr>"

definition legacy_lustre_upsert_batch :: "LegacyTables \<Rightarrow> EntryRow list \<Rightarrow> LegacyTables" where
  "legacy_lustre_upsert_batch t es = foldl legacy_lustre_upsert_entry t es"

definition legacy_lustre_get_entry :: "LegacyTables \<Rightarrow> LuFid \<Rightarrow> EntryRow option" where
  "legacy_lustre_get_entry t f = find (\<lambda>e. er_fid e = f) (lg_entries t)"

section \<open>Removal\<close>

definition removed_of :: "EntryRow \<Rightarrow> i64 \<Rightarrow> RemovedEntry" where
  "removed_of e now =
     \<lparr>rm_fid = er_fid e, rm_parent_fid = er_parent_fid e, rm_name = e_name e, rm_kind = e_kind e,
      rm_size = e_size e, rm_uid = e_uid e, rm_gid = e_gid e, rm_sm_status = e_sm_status e, rm_time = now\<rparr>"

text \<open>A second removal of an object only moves its time.\<close>

definition move_to_removed :: "LuFid \<Rightarrow> i64 \<Rightarrow> LegacyTables \<Rightarrow> LegacyTables" where
  "move_to_removed f now t =
     (case find (\<lambda>e. er_fid e = f) (lg_entries t) of
        None \<Rightarrow> t
      | Some e \<Rightarrow>
          t\<lparr>lg_removed := put_row rm_fid
              (case find (\<lambda>r. rm_fid r = f) (lg_removed t) of
                 Some r \<Rightarrow> r\<lparr>rm_time := now\<rparr> | None \<Rightarrow> removed_of e now)
              (lg_removed t)\<rparr>)"

definition legacy_lustre_remove_entry :: "LegacyTables \<Rightarrow> LuFid \<Rightarrow> i64 \<Rightarrow> LegacyTables" where
  "legacy_lustre_remove_entry t f now =
     (move_to_removed f now t)\<lparr>lg_entries := filter (\<lambda>e. er_fid e \<noteq> f) (lg_entries t),
        lg_names := filter (\<lambda>(g, _). g \<noteq> f) (lg_names t)\<rparr>"

definition legacy_displaced :: "LegacyTables \<Rightarrow> EntryRow \<Rightarrow> LuFid option" where
  "legacy_displaced t e =
     (case er_parent_fid e of
        None \<Rightarrow> None
      | Some p \<Rightarrow>
          map_option er_fid (find (\<lambda>r. er_parent_fid r = Some p \<and> e_name r = e_name e \<and> er_fid r \<noteq> er_fid e)
            (lg_entries t)))"

definition legacy_lustre_rename_entry :: "LegacyTables \<Rightarrow> EntryRow \<Rightarrow> i64 \<Rightarrow> LegacyTables" where
  "legacy_lustre_rename_entry t e now =
     (let t1 = (case legacy_displaced t e of
                  None \<Rightarrow> t
                | Some f \<Rightarrow>
                    (move_to_removed f now t)\<lparr>lg_names := filter (\<lambda>(g, _). g \<noteq> f) (lg_names t),
                       lg_entries := filter (\<lambda>r. er_fid r \<noteq> f) (lg_entries t)\<rparr>)
      in legacy_lustre_upsert_entry t1 e)"

section \<open>Queries\<close>

definition legacy_lustre_lookup_by_parent_name :: "LegacyTables \<Rightarrow> LuFid \<Rightarrow> bytes \<Rightarrow> LuFid option" where
  "legacy_lustre_lookup_by_parent_name t p n =
     map_option er_fid (find (\<lambda>r. er_parent_fid r = Some p \<and> e_name r = n) (lg_entries t))"

definition legacy_lustre_entry_count :: "LegacyTables \<Rightarrow> u64" where
  "legacy_lustre_entry_count t = word_of_nat (length (lg_entries t))"

definition legacy_lustre_query_page ::
  "(string \<Rightarrow> SqlParam list \<Rightarrow> EntryRow \<Rightarrow> bool) \<Rightarrow> (string option \<Rightarrow> EntryRow list \<Rightarrow> EntryRow list) \<Rightarrow>
   LegacyTables \<Rightarrow> string \<Rightarrow> SqlParam list \<Rightarrow> string option \<Rightarrow> u64 \<Rightarrow> u64 \<Rightarrow> EntryRow list" where
  "legacy_lustre_query_page db order t clause params order_by limit offset =
     take (unat limit) (drop (unat offset)
       (order (case order_by of Some x \<Rightarrow> if x \<noteq> [] then Some x else None | None \<Rightarrow> None)
         (filter (db clause params) (lg_entries t))))"

definition legacy_lustre_query_where ::
  "(string \<Rightarrow> SqlParam list \<Rightarrow> EntryRow \<Rightarrow> bool) \<Rightarrow> (string option \<Rightarrow> EntryRow list \<Rightarrow> EntryRow list) \<Rightarrow>
   LegacyTables \<Rightarrow> string \<Rightarrow> SqlParam list \<Rightarrow> u64 \<Rightarrow> EntryRow list" where
  "legacy_lustre_query_where db order t clause params limit =
     legacy_lustre_query_page db order t clause params None limit 0"

definition legacy_lustre_count_where ::
  "(string \<Rightarrow> SqlParam list \<Rightarrow> EntryRow \<Rightarrow> bool) \<Rightarrow> LegacyTables \<Rightarrow> string \<Rightarrow> SqlParam list \<Rightarrow> u64" where
  "legacy_lustre_count_where db t clause params =
     word_of_nat (length (filter (db clause params) (lg_entries t)))"

definition legacy_lustre_sum_size_where ::
  "(string \<Rightarrow> SqlParam list \<Rightarrow> EntryRow \<Rightarrow> bool) \<Rightarrow> LegacyTables \<Rightarrow> string \<Rightarrow> SqlParam list \<Rightarrow> u64" where
  "legacy_lustre_sum_size_where db t clause params =
     word_of_nat (min (2 ^ 64 - 1) (volume (filter (db clause params) (lg_entries t))))"

definition legacy_lustre_list_removed :: "LegacyTables \<Rightarrow> i64 option \<Rightarrow> u64 \<Rightarrow> u64 \<Rightarrow> RemovedEntry list" where
  "legacy_lustre_list_removed t since limit offset =
     take (unat limit) (drop (unat offset) (sort_key (\<lambda>r. - rm_time r)
       (filter (\<lambda>r. case since of Some s \<Rightarrow> s \<le> rm_time r | None \<Rightarrow> True) (lg_removed t))))"

definition legacy_lustre_forget_removed :: "LegacyTables \<Rightarrow> LuFid \<Rightarrow> bool \<times> LegacyTables" where
  "legacy_lustre_forget_removed t f =
     (f \<in> rm_fid ` set (lg_removed t), t\<lparr>lg_removed := filter (\<lambda>r. rm_fid r \<noteq> f) (lg_removed t)\<rparr>)"

definition legacy_lustre_get_removed :: "LegacyTables \<Rightarrow> LuFid \<Rightarrow> RemovedEntry option" where
  "legacy_lustre_get_removed t f = find (\<lambda>r. rm_fid r = f) (lg_removed t)"

section \<open>Status\<close>

definition legacy_lustre_patch_sm_status ::
  "LegacyTables \<Rightarrow> i64 \<Rightarrow> LuFid \<Rightarrow> json \<Rightarrow> bool \<times> LegacyTables" where
  "legacy_lustre_patch_sm_status t now f patch =
     (case find (\<lambda>e. er_fid e = f) (lg_entries t) of
        None \<Rightarrow> (False, t)
      | Some e \<Rightarrow>
          (True, t\<lparr>lg_entries := put_row er_fid
             (e\<lparr>e_sm_status := merge_status (e_sm_status e) patch, e_last_seen := now\<rparr>) (lg_entries t)\<rparr>))"

text \<open>A status that is no object and has no \<open>xattr\<close>, or an \<open>xattr\<close> that is no object, panics.\<close>

definition legacy_install_xattr :: "json \<Rightarrow> StoreError + json" where
  "legacy_install_xattr status =
     (case json_get ''xattr'' status of
        Some v \<Rightarrow> if as_object v \<noteq> None then Inr status else Inl (Panic ''xattr is object'')
      | None \<Rightarrow>
        (case status of
           JObj kvs \<Rightarrow> Inr (JObj (json_insert ''xattr'' (JObj []) kvs))
         | JNull \<Rightarrow> Inr (JObj [(''xattr'', JObj [])])
         | _ \<Rightarrow> Inl (Panic ''cannot access key in JSON value'')))"

definition legacy_lustre_update_xattr ::
  "LegacyTables \<Rightarrow> LuFid \<Rightarrow> (string \<times> string) list \<Rightarrow> string list \<Rightarrow> (StoreError + unit) \<times> LegacyTables" where
  "legacy_lustre_update_xattr t f tags clear_keys =
     (if tags = [] \<and> clear_keys = [] then (Inr (), t)
      else (case find (\<lambda>e. er_fid e = f) (lg_entries t) of
              None \<Rightarrow> (Inr (), t)
            | Some e \<Rightarrow>
              (case legacy_install_xattr (e_sm_status e) of
                 Inl err \<Rightarrow> (Inl err, t)
               | Inr status \<Rightarrow>
                   (Inr (), t\<lparr>lg_entries := put_row er_fid
                      (e\<lparr>e_sm_status := retag tags clear_keys status\<rparr>) (lg_entries t)\<rparr>))))"

section \<open>Sweeping and dumping\<close>

definition stale_entries :: "LegacyTables \<Rightarrow> i64 \<Rightarrow> EntryRow list" where
  "stale_entries t before =
     sort_key e_last_seen (filter (\<lambda>e. e_last_seen e < before \<and> e_kind e \<noteq> Directory) (lg_entries t))"

text \<open>
  The removals of a sweep, with the number of those that succeeded. \<open>fails f\<close>: the transaction that
  removes \<open>f\<close> fails, which changes nothing, is logged, and is not counted. Stored keys decode,
  and limits are below the bound of \<open>i64\<close> (the handler passes at most 100000).
\<close>

definition sweep_rows :: "(LuFid \<Rightarrow> bool) \<Rightarrow> i64 \<Rightarrow> LuFid list \<Rightarrow> LegacyTables \<Rightarrow> u64 \<times> LegacyTables" where
  "sweep_rows fails now fids t =
     foldl (\<lambda>(n, t) f. if fails f then (n, t) else (n + 1, legacy_lustre_remove_entry t f now)) (0, t) fids"

definition legacy_lustre_sweep_orphans ::
  "(LuFid \<Rightarrow> bool) \<Rightarrow> LegacyTables \<Rightarrow> i64 \<Rightarrow> i64 \<Rightarrow> u64 \<Rightarrow> bool \<Rightarrow> u64 \<times> LegacyTables" where
  "legacy_lustre_sweep_orphans fails t now before limit dry_run =
     (let fids = map er_fid (take (unat limit) (stale_entries t before)) in
      if fids = [] then (0, t)
      else if dry_run then (word_of_nat (length fids), t)
      else sweep_rows fails now fids t)"

definition legacy_lustre_dump_page :: "LegacyTables \<Rightarrow> LuFid option \<Rightarrow> u64 \<Rightarrow> EntryRow list" where
  "legacy_lustre_dump_page t after limit =
     (let lo = (case after of Some f \<Rightarrow> f | None \<Rightarrow> ZERO)
      in take (unat limit) (sort_key er_fid (filter (\<lambda>e. lo < er_fid e) (lg_entries t))))"

section \<open>Properties\<close>

definition legacy_ok :: "LegacyTables \<Rightarrow> bool" where
  "legacy_ok t \<longleftrightarrow> distinct (map er_fid (lg_entries t)) \<and> distinct (map rm_fid (lg_removed t)) \<and>
     (\<forall>e \<in> set (lg_entries t). e_stripe_items e = [])"

lemma map_put_row: "map key (put_row key r rs) = (if key r \<in> key ` set rs then map key rs else map key rs @ [key r])"
  by (simp add: put_row_def)

lemma put_row_keys: "distinct (map key rs) \<Longrightarrow> distinct (map key (put_row key r rs))"
  unfolding map_put_row by auto

lemma set_put_row: "x \<in> set (put_row key r rs) \<longleftrightarrow> x = r \<or> x \<in> set rs \<and> key x \<noteq> key r"
proof (cases "key r \<in> key ` set rs")
  case False
  then have "key x \<noteq> key r" if "x \<in> set rs" using that by (metis imageI)
  with False show ?thesis by (auto simp: put_row_def)
qed (auto simp: put_row_def)

lemma move_entries [simp]: "lg_entries (move_to_removed f now t) = lg_entries t"
  "lg_names (move_to_removed f now t) = lg_names t"
  by (simp_all add: move_to_removed_def split: option.splits)

lemma move_removed_keys:
  "distinct (map rm_fid (lg_removed t)) \<Longrightarrow> distinct (map rm_fid (lg_removed (move_to_removed f now t)))"
  by (auto simp: move_to_removed_def intro: put_row_keys split: option.splits)

lemma distinct_keys_filter: "distinct (map key rs) \<Longrightarrow> distinct (map key (filter p rs))"
  by (induction rs) auto

lemma sweep_rows_foldl:
  "sweep_rows fails now fids t =
     (word_of_nat (length (filter (\<lambda>f. \<not> fails f) fids)),
      foldl (\<lambda>t f. legacy_lustre_remove_entry t f now) t (filter (\<lambda>f. \<not> fails f) fids))"
proof -
  have "foldl (\<lambda>(n, t) f. if fails f then (n, t) else (n + 1, legacy_lustre_remove_entry t f now)) (n, t) fids =
      (n + word_of_nat (length (filter (\<lambda>f. \<not> fails f) fids)),
       foldl (\<lambda>t f. legacy_lustre_remove_entry t f now) t (filter (\<lambda>f. \<not> fails f) fids))" for n :: u64
    by (induction fids arbitrary: n t) auto
  from this [of 0] show ?thesis by (simp add: sweep_rows_def)
qed

text \<open>
  Every operation of the legacy tables keeps their keys distinct, and the stripe items
  of every row empty.
\<close>

theorem legacy_tables_ok:
  assumes "legacy_ok t"
  shows "legacy_ok (legacy_lustre_upsert_batch t es) \<and> legacy_ok (legacy_lustre_rename_entry t e now) \<and>
    legacy_ok (legacy_lustre_remove_entry t f now) \<and> legacy_ok (snd (legacy_lustre_sweep_orphans fails t now before limit dry)) \<and>
    legacy_ok (snd (legacy_lustre_forget_removed t f)) \<and> legacy_ok (snd (legacy_lustre_patch_sm_status t now f patch)) \<and>
    legacy_ok (snd (legacy_lustre_update_xattr t f tags ks))"
proof -
  have up: "legacy_ok (legacy_lustre_upsert_entry t e)" if "legacy_ok t" for t e
    using that by (auto simp: legacy_ok_def legacy_lustre_upsert_entry_def row_to_entry_def set_put_row intro: put_row_keys)
  have rm: "legacy_ok (legacy_lustre_remove_entry t f now)" if "legacy_ok t" for t f
    using that by (auto simp: legacy_ok_def legacy_lustre_remove_entry_def intro: distinct_keys_filter move_removed_keys)
  have batch: "legacy_ok (legacy_lustre_upsert_batch t es)"
    unfolding legacy_lustre_upsert_batch_def using assms by (induction es arbitrary: t) (auto intro: up)
  have ren: "legacy_ok (legacy_lustre_rename_entry t e now)"
    unfolding legacy_lustre_rename_entry_def Let_def using assms
    by (intro up) (auto simp: legacy_ok_def intro: distinct_keys_filter move_removed_keys split: option.splits)
  have "legacy_ok (foldl (\<lambda>t f. legacy_lustre_remove_entry t f now) t fs)" for fs
    using assms by (induction fs arbitrary: t) (auto intro: rm)
  then have "legacy_ok (snd (sweep_rows fails now fids t))" for fids by (simp add: sweep_rows_foldl)
  then have sweep: "legacy_ok (snd (legacy_lustre_sweep_orphans fails t now before limit dry))"
    using assms by (simp add: legacy_lustre_sweep_orphans_def Let_def)
  have "legacy_ok (snd (legacy_lustre_forget_removed t f))"
    using assms by (auto simp: legacy_lustre_forget_removed_def legacy_ok_def intro: distinct_keys_filter)
  moreover have "legacy_ok (snd (legacy_lustre_patch_sm_status t now f patch))"
    using assms by (auto simp: legacy_lustre_patch_sm_status_def legacy_ok_def set_put_row find_Some_iff
        intro!: put_row_keys split: option.splits)
  moreover have "legacy_ok (snd (legacy_lustre_update_xattr t f tags ks))"
    using assms by (auto simp: legacy_lustre_update_xattr_def legacy_ok_def set_put_row find_Some_iff
        intro!: put_row_keys split: option.splits sum.splits)
  ultimately show ?thesis using batch ren rm [OF assms] sweep by blast
qed

theorem legacy_tables_ok_witness:
  "legacy_ok (legacy_lustre_upsert_batch legacy_empty [sample_attrs, sample_attrs])"
  using legacy_tables_ok [of legacy_empty "[sample_attrs, sample_attrs]"] by (simp add: legacy_ok_def legacy_empty_def)

lemma remove_many_entries:
  "lg_entries (foldl (\<lambda>t f. legacy_lustre_remove_entry t f now) t fs) = filter (\<lambda>e. er_fid e \<notin> set fs) (lg_entries t)"
  by (induction fs arbitrary: t) (auto simp: legacy_lustre_remove_entry_def intro: filter_cong)

lemma find_key: "find (\<lambda>x. key x = k) xs = Some y \<Longrightarrow> key y = k"
  by (auto simp: find_Some_iff)

lemma remove_put:
  assumes "f \<in> er_fid ` set (lg_entries t)"
  shows "\<exists>x. lg_removed (legacy_lustre_remove_entry t f now) = put_row rm_fid x (lg_removed t) \<and> rm_fid x = f \<and> rm_time x = now"
proof -
  from assms obtain e where e: "find (\<lambda>e. er_fid e = f) (lg_entries t) = Some e"
    by (cases "find (\<lambda>e. er_fid e = f) (lg_entries t)") (auto simp: find_None_iff)
  let ?x = "case find (\<lambda>r. rm_fid r = f) (lg_removed t) of Some r \<Rightarrow> r\<lparr>rm_time := now\<rparr> | None \<Rightarrow> removed_of e now"
  have "rm_fid ?x = f" "rm_time ?x = now"
  proof -
    show "rm_fid ?x = f"
    proof (cases "find (\<lambda>r. rm_fid r = f) (lg_removed t)")
      case (Some r)
      from find_key [OF Some] Some show ?thesis by simp
    qed (simp add: removed_of_def find_key [OF e])
    show "rm_time ?x = now" by (cases "find (\<lambda>r. rm_fid r = f) (lg_removed t)") (simp_all add: removed_of_def)
  qed
  moreover have "lg_removed (legacy_lustre_remove_entry t f now) = put_row rm_fid ?x (lg_removed t)"
    by (simp add: legacy_lustre_remove_entry_def move_to_removed_def e)
  ultimately show ?thesis by blast
qed

lemma remove_absent:
  "f \<notin> er_fid ` set (lg_entries t) \<Longrightarrow> lg_removed (legacy_lustre_remove_entry t f now) = lg_removed t"
  by (cases "find (\<lambda>e. er_fid e = f) (lg_entries t)")
    (auto simp: legacy_lustre_remove_entry_def move_to_removed_def find_Some_iff)

text \<open>A removal keeps the removed rows of the same time, and records its own.\<close>

lemma remove_keeps_removed:
  assumes "\<exists>r \<in> set (lg_removed t). rm_fid r = g \<and> rm_time r = now"
  shows "\<exists>r \<in> set (lg_removed (legacy_lustre_remove_entry t f now)). rm_fid r = g \<and> rm_time r = now"
proof (cases "f \<in> er_fid ` set (lg_entries t)")
  case True
  from remove_put [OF this, of now] obtain x where
    x: "lg_removed (legacy_lustre_remove_entry t f now) = put_row rm_fid x (lg_removed t)" "rm_fid x = f" "rm_time x = now"
    by blast
  show ?thesis
  proof (cases "g = f")
    case True
    with x show ?thesis by (auto simp: set_put_row)
  next
    case False
    from assms obtain r where "r \<in> set (lg_removed t)" "rm_fid r = g" "rm_time r = now" by blast
    with False x show ?thesis by (intro bexI [of _ r]) (auto simp: set_put_row)
  qed
qed (use assms in \<open>simp add: remove_absent\<close>)

lemma remove_records:
  "e \<in> set (lg_entries t) \<Longrightarrow>
   \<exists>r \<in> set (lg_removed (legacy_lustre_remove_entry t (er_fid e) now)). rm_fid r = er_fid e \<and> rm_time r = now"
  using remove_put [of "er_fid e" t now] by (force simp: set_put_row)

lemma remove_many_keeps:
  "\<exists>r \<in> set (lg_removed t). rm_fid r = g \<and> rm_time r = now \<Longrightarrow>
   \<exists>r \<in> set (lg_removed (foldl (\<lambda>t f. legacy_lustre_remove_entry t f now) t fs)). rm_fid r = g \<and> rm_time r = now"
proof (induction fs arbitrary: t)
  case (Cons f fs)
  from Cons.IH [OF remove_keeps_removed [OF Cons.prems]] show ?case by simp
qed simp

lemma remove_many_records:
  "f \<in> set fs \<Longrightarrow> f \<in> er_fid ` set (lg_entries t) \<Longrightarrow>
   \<exists>r \<in> set (lg_removed (foldl (\<lambda>t f. legacy_lustre_remove_entry t f now) t fs)). rm_fid r = f \<and> rm_time r = now"
proof (induction fs arbitrary: t)
  case (Cons g fs)
  show ?case
  proof (cases "f = g")
    case True
    from Cons.prems(2) remove_records [of _ t now] True
    have "\<exists>r \<in> set (lg_removed (legacy_lustre_remove_entry t g now)). rm_fid r = f \<and> rm_time r = now" by auto
    from remove_many_keeps [OF this] show ?thesis by simp
  next
    case False
    with Cons have "f \<in> er_fid ` set (lg_entries (legacy_lustre_remove_entry t g now))"
      by (auto simp: legacy_lustre_remove_entry_def)
    with Cons False show ?thesis by simp
  qed
qed simp

lemma sorted_key_split:
  "x \<in> set (take n (sort_key k xs)) \<Longrightarrow> y \<in> set (drop n (sort_key k xs)) \<Longrightarrow> k x \<le> k y"
proof -
  have "sorted (map k (take n (sort_key k xs) @ drop n (sort_key k xs)))"
    by (simp only: append_take_drop_id) (rule sorted_sort_key)
  then show "x \<in> set (take n (sort_key k xs)) \<Longrightarrow> y \<in> set (drop n (sort_key k xs)) \<Longrightarrow> k x \<le> k y"
    unfolding map_append sorted_append by auto
qed

lemma distinct_key_inj: "distinct (map key rs) \<Longrightarrow> x \<in> set rs \<Longrightarrow> y \<in> set rs \<Longrightarrow> key x = key y \<Longrightarrow> x = y"
  by (induction rs) (auto simp: rev_image_eqI)

lemma remove_many_names:
  "lg_names (foldl (\<lambda>t f. legacy_lustre_remove_entry t f now) t fs) = filter (\<lambda>(g, _). g \<notin> set fs) (lg_names t)"
  by (induction fs arbitrary: t) (auto simp: legacy_lustre_remove_entry_def intro: filter_cong)

lemma filter_put_row: "(\<And>y. key y = key x \<Longrightarrow> \<not> P y) \<Longrightarrow> filter P (put_row key x rs) = filter P rs"
proof -
  assume no: "\<And>y. key y = key x \<Longrightarrow> \<not> P y"
  then have "filter P (map (\<lambda>y. if key y = key x then x else y) rs) = filter P rs" by (induction rs) auto
  with no show ?thesis by (simp add: put_row_def)
qed

lemma remove_many_others:
  "set fs \<subseteq> S \<Longrightarrow> filter (\<lambda>r. rm_fid r \<notin> S) (lg_removed (foldl (\<lambda>t f. legacy_lustre_remove_entry t f now) t fs)) =
     filter (\<lambda>r. rm_fid r \<notin> S) (lg_removed t)"
proof (induction fs arbitrary: t)
  case (Cons f fs)
  have "filter (\<lambda>r. rm_fid r \<notin> S) (lg_removed (legacy_lustre_remove_entry t f now)) = filter (\<lambda>r. rm_fid r \<notin> S) (lg_removed t)"
  proof (cases "f \<in> er_fid ` set (lg_entries t)")
    case True
    from remove_put [OF this, of now] Cons.prems show ?thesis by (auto simp: filter_put_row)
  qed (simp add: remove_absent)
  with Cons show ?case by simp
qed simp

lemma length_without:
  assumes "distinct xs" "distinct ys" "set ys \<subseteq> set xs"
  shows "length (filter (\<lambda>x. x \<notin> set ys) xs) + length ys = length xs"
proof -
  have "set (filter (\<lambda>x. x \<in> set ys) xs) = set ys" using assms(3) by auto
  then have "length (filter (\<lambda>x. x \<in> set ys) xs) = length ys"
    using assms(1,2) by (metis distinct_card distinct_filter)
  then show ?thesis using sum_length_filter_compl [of "\<lambda>x. x \<in> set ys" xs] by simp
qed

text \<open>
  C40: a sweep that is not a dry run tries the oldest stale objects, as many as the limit
  allows: no directory and nothing seen since the given time. Those whose removal does not fail leave the entries and
  the names and are recorded as removed at the time of the sweep; their number is the
  result. Every other row of the three tables stays. The stale objects left are the ones
  before without those removed, so the list gets shorter by the result. (When the removals of
  the oldest ones all fail, the result is 0 although stale objects are left.)
\<close>

theorem sweep_effect:
  assumes "legacy_ok t" "legacy_lustre_sweep_orphans fails t now before limit False = (n, t')"
    and "length (lg_entries t) < 2 ^ 64" "tried = take (unat limit) (stale_entries t before)"
    and "swept = filter (\<lambda>e. \<not> fails (er_fid e)) tried"
  shows "unat n = length swept \<and> lg_entries t' = filter (\<lambda>e. e \<notin> set swept) (lg_entries t) \<and>
    lg_names t' = filter (\<lambda>(f, _). f \<notin> er_fid ` set swept) (lg_names t) \<and>
    filter (\<lambda>r. rm_fid r \<notin> er_fid ` set swept) (lg_removed t') = filter (\<lambda>r. rm_fid r \<notin> er_fid ` set swept) (lg_removed t) \<and>
    (\<forall>e \<in> set swept. \<exists>r \<in> set (lg_removed t'). rm_fid r = er_fid e \<and> rm_time r = now) \<and>
    stale_entries t' before = filter (\<lambda>e. e \<notin> set swept) (stale_entries t before) \<and>
    length (stale_entries t' before) + length swept = length (stale_entries t before) \<and>
    (\<forall>e \<in> set tried. e_kind e \<noteq> Directory \<and> e_last_seen e < before \<and>
       (\<forall>x \<in> set (drop (unat limit) (stale_entries t before)). e_last_seen e \<le> e_last_seen x))"
proof -
  have stale: "set (stale_entries t before) \<subseteq> set (lg_entries t)" "length (stale_entries t before) \<le> length (lg_entries t)"
    by (auto simp: stale_entries_def)
  have tried: "set tried \<subseteq> set (stale_entries t before)" using assms(4) set_take_subset by fastforce
  have swept: "set swept \<subseteq> set tried" "length swept \<le> length tried" using assms(5) by auto
  have len: "length swept < 2 ^ 64" using assms(3,4) stale(2) swept(2) by simp
  have fids: "filter (\<lambda>f. \<not> fails f) (map er_fid tried) = map er_fid swept" by (simp add: assms(5) filter_map comp_def)
  have t': "t' = foldl (\<lambda>t f. legacy_lustre_remove_entry t f now) t (map er_fid swept)" "n = word_of_nat (length swept)"
    using assms(2) fids assms(5)
    by (auto simp: legacy_lustre_sweep_orphans_def Let_def sweep_rows_foldl assms(4) [symmetric] simp flip: length_map [of er_fid swept] split: if_splits)
  have n: "unat n = length swept" using len t'(2) by (simp add: unat_of_nat take_bit_nat_eq_self)
  have inj: "x = y" if "x \<in> set (lg_entries t)" "y \<in> set (lg_entries t)" "er_fid x = er_fid y" for x y
    using distinct_key_inj [of er_fid "lg_entries t" x y] assms(1) that by (simp add: legacy_ok_def)
  have ents: "lg_entries t' = filter (\<lambda>e. e \<notin> set swept) (lg_entries t)"
  proof -
    have "set swept \<subseteq> set (lg_entries t)" using swept(1) tried stale(1) by blast
    then have "e \<in> set swept" if "e \<in> set (lg_entries t)" "y \<in> set swept" "er_fid e = er_fid y" for e y
      using inj [of e y] that by blast
    then have "er_fid e \<notin> er_fid ` set swept \<longleftrightarrow> e \<notin> set swept" if "e \<in> set (lg_entries t)" for e
      using that by blast
    then show ?thesis unfolding t' remove_many_entries by (intro filter_cong) simp_all
  qed
  have nm: "lg_names t' = filter (\<lambda>(f, _). f \<notin> er_fid ` set swept) (lg_names t)" by (simp add: t' remove_many_names)
  have others: "filter (\<lambda>r. rm_fid r \<notin> er_fid ` set swept) (lg_removed t') = filter (\<lambda>r. rm_fid r \<notin> er_fid ` set swept) (lg_removed t)"
    unfolding t' by (rule remove_many_others) simp
  have rec: "\<exists>r \<in> set (lg_removed t'). rm_fid r = er_fid e \<and> rm_time r = now" if "e \<in> set swept" for e
    unfolding t' by (rule remove_many_records) (use that swept tried stale(1) in auto)
  have left: "stale_entries t' before = filter (\<lambda>e. e \<notin> set swept) (stale_entries t before)"
    by (simp add: stale_entries_def ents filter_sort conj_commute)
  have dist: "distinct (stale_entries t before)"
    using assms(1) by (simp add: stale_entries_def legacy_ok_def distinct_map)
  then have "distinct swept" by (simp add: assms(4,5))
  with dist left swept tried have "length (stale_entries t' before) + length swept = length (stale_entries t before)"
    by (simp add: length_without)
  moreover have "e_last_seen e \<le> e_last_seen x" if "e \<in> set tried" "x \<in> set (drop (unat limit) (stale_entries t before))" for e x
    using sorted_key_split [of e "unat limit" e_last_seen _ x] that assms(4) unfolding stale_entries_def by blast
  moreover have "e_kind e \<noteq> Directory \<and> e_last_seen e < before" if "e \<in> set tried" for e
    using that tried by (auto simp: stale_entries_def)
  ultimately show ?thesis using n ents nm others rec left by blast
qed

theorem sweep_effect_witness:
  "lg_entries (snd (legacy_lustre_sweep_orphans (\<lambda>_. False) (legacy_lustre_upsert_entry legacy_empty sample_attrs) 7
     (e_last_seen sample_attrs + 1) 5 False)) = []"
proof -
  let ?t = "legacy_lustre_upsert_entry legacy_empty sample_attrs"
  have ent: "lg_entries ?t = [row_to_entry sample_attrs]"
    by (simp add: legacy_lustre_upsert_entry_def legacy_empty_def put_row_def)
  have ok: "legacy_ok ?t" by (simp add: legacy_ok_def ent row_to_entry_def)
      (simp add: legacy_lustre_upsert_entry_def legacy_empty_def)
  have stale: "stale_entries ?t (e_last_seen sample_attrs + 1) = [row_to_entry sample_attrs]"
    unfolding stale_entries_def ent by (simp add: row_to_entry_def sample_attrs_def)
  note run = prod.collapse [of "legacy_lustre_sweep_orphans (\<lambda>_. False) ?t 7 (e_last_seen sample_attrs + 1) 5 False", symmetric]
  have "lg_entries (snd (legacy_lustre_sweep_orphans (\<lambda>_. False) ?t 7 (e_last_seen sample_attrs + 1) 5 False)) =
      filter (\<lambda>e. e \<notin> set [row_to_entry sample_attrs]) (lg_entries ?t)"
  proof -
    have "length (lg_entries ?t) < 2 ^ 64" by (simp add: ent)
    moreover have "[row_to_entry sample_attrs] = take (unat (5 :: u64)) (stale_entries ?t (e_last_seen sample_attrs + 1))"
      unfolding stale by simp
    moreover have "[row_to_entry sample_attrs] = filter (\<lambda>e. \<not> (\<lambda>_. False) (er_fid e)) [row_to_entry sample_attrs]" by simp
    ultimately show ?thesis using sweep_effect [OF ok run] by blast
  qed
  then show ?thesis unfolding ent by simp
qed

end
