(* ===== verification/Rbh_Api.thy ===== *)
theory Rbh_Api
  imports Rbh_Threshold
begin

text \<open>
  The request handlers for policies and classifiers (\<open>crates/rbh-api/src/handlers.rs\<close>,
  \<open>crates/rbh-api/src/classifier_handlers.rs\<close>) on the state they share: the tables, the cache of
  classifiers that the ingest reads, and the scheduler. A handler gives the error or the
  status with what the body carries, and the new state; requests are answered one after the
  other. The scheduler, whose calls can fail, the clock, the random part of a name, the
  database and whether it fails when the cache is reloaded are parameters.
\<close>

section \<open>Errors\<close>

datatype ApiError = ApiPolicy PolicyError | ApiBadRequest string | ApiInternal string

fun policy_error_display :: "PolicyError \<Rightarrow> string" where
  "policy_error_display (PNotFound i) = ''policy not found: id='' @ dec_str (unat i)"
| "policy_error_display (PNotFoundByName n) = ''policy not found: name='' @ n"
| "policy_error_display (PDb e) = ''database error: '' @ e"
| "policy_error_display (PMigration e) = ''migration error: '' @ e"
| "policy_error_display (PJson e) = ''JSON error: '' @ e"
| "policy_error_display (PStore e) = ''store error: '' @ e"
| "policy_error_display (InvalidTrigger e) = ''invalid trigger: '' @ e"
| "policy_error_display (InvalidAction e) = ''invalid action configuration: '' @ e"
| "policy_error_display (PScheduler e) = ''scheduler error: '' @ e"
| "policy_error_display (FilesystemMismatch p c) =
     ''policy selects filesystem '' @ p @ '', but validation used '' @ c"
| "policy_error_display (UnsupportedCapability fs c r) =
     ''filesystem '' @ fs @ '' does not provide required capability '' @ [CHR 0x27] @ c @ [CHR 0x27] @ '': '' @ r"

fun into_response :: "ApiError \<Rightarrow> nat \<times> string" where
  "into_response (ApiPolicy (PNotFound i)) = (404, ''policy not found: id='' @ dec_str (unat i))"
| "into_response (ApiPolicy (PNotFoundByName n)) = (404, ''policy not found: name='' @ n)"
| "into_response (ApiPolicy (InvalidTrigger msg)) = (400, msg)"
| "into_response (ApiPolicy (FilesystemMismatch p c)) = (400, policy_error_display (FilesystemMismatch p c))"
| "into_response (ApiPolicy (UnsupportedCapability fs c r)) =
     (400, policy_error_display (UnsupportedCapability fs c r))"
| "into_response (ApiBadRequest msg) = (400, msg)"
| "into_response (ApiPolicy e) = (500, ''internal error'')"
| "into_response (ApiInternal msg) = (500, ''internal error'')"

fun policy_err :: "PolicyError \<Rightarrow> nat \<times> string" where
  "policy_err (PNotFound i) = (404, policy_error_display (PNotFound i))"
| "policy_err (PNotFoundByName n) = (404, policy_error_display (PNotFoundByName n))"
| "policy_err (InvalidTrigger e) = (422, policy_error_display (InvalidTrigger e))"
| "policy_err e = (500, policy_error_display e)"

section \<open>State\<close>

record 's AppState =
  as_policies :: PolicyStore
  as_classifiers :: ClassifierStore
  as_cache :: "ClassifierRow list"
  as_catalog :: Catalog
  as_scheduler :: "'s option"

record 's ApiEnv =
  ae_sched :: "'s Scheduler"
  ae_add_now :: "'s \<Rightarrow> string \<Rightarrow> PolicyRunTask \<Rightarrow> (string + nat) \<times> 's"
  ae_cron_ok :: "string \<Rightarrow> bool"
  ae_now :: i64
  ae_token :: string
  ae_run :: RunEnv
  ae_regex :: "string \<Rightarrow> string \<Rightarrow> bool option"
  ae_reload_fails :: bool

section \<open>Policies\<close>

definition validate_policy_request :: "Catalog \<Rightarrow> PolicyDef \<Rightarrow> ApiError + FileSystemConfig" where
  "validate_policy_request c d =
     (case get_filesystem c (pd_filesystem d) of
        None \<Rightarrow> Inl (ApiBadRequest (''unknown filesystem: '' @ pd_filesystem d))
      | Some config \<Rightarrow>
        (case validate_policy_for_filesystem d config of
           Some e \<Rightarrow> Inl (ApiPolicy e)
         | None \<Rightarrow> Inr config))"

text \<open>A failed reconciliation is logged and the request succeeds.\<close>

definition reconcile_request :: "'s ApiEnv \<Rightarrow> u64 \<Rightarrow> PolicyDef \<Rightarrow> 's AppState \<Rightarrow> 's AppState" where
  "reconcile_request env i d st =
     (case as_scheduler st of
        None \<Rightarrow> st
      | Some s \<Rightarrow>
          st\<lparr>as_scheduler := Some (snd (reconcile_triggers (ae_sched env) (ae_cron_ok env) s i (trigger d) (pd_enabled d)))\<rparr>)"

definition create_policy :: "'s ApiEnv \<Rightarrow> PolicyDef \<Rightarrow> 's AppState \<Rightarrow> (ApiError + nat \<times> u64) \<times> 's AppState" where
  "create_policy env d st =
     (case validate_policy_request (as_catalog st) d of
        Inl e \<Rightarrow> (Inl e, st)
      | Inr _ \<Rightarrow>
        (case policy_create (ae_cron_ok env) (ae_now env) (as_policies st) d of
           (Inl e, t) \<Rightarrow> (Inl (ApiPolicy e), st\<lparr>as_policies := t\<rparr>)
         | (Inr i, t) \<Rightarrow> (Inr (201, i), reconcile_request env i d (st\<lparr>as_policies := t\<rparr>))))"

record PolicyResponse =
  pp_id :: u64
  pp_name :: string
  pp_kind :: string
  pp_enabled :: bool
  pp_definition :: PolicyDef

definition policy_response :: "PolicyRow \<Rightarrow> PolicyResponse" where
  "policy_response row =
     \<lparr>pp_id = pr_id row, pp_name = pr_name row, pp_kind = policy_kind_as_str (pd_kind (pr_definition row)),
      pp_enabled = pr_enabled row, pp_definition = pr_definition row\<rparr>"

definition list_policies :: "'s AppState \<Rightarrow> PolicyResponse list" where
  "list_policies st = map policy_response (policy_list (as_policies st))"

definition get_policy :: "'s AppState \<Rightarrow> u64 \<Rightarrow> ApiError + PolicyResponse" where
  "get_policy st i = map_sum ApiPolicy policy_response (policy_get (as_policies st) i)"

definition update_policy :: "'s ApiEnv \<Rightarrow> u64 \<Rightarrow> PolicyDef \<Rightarrow> 's AppState \<Rightarrow> (ApiError + nat) \<times> 's AppState" where
  "update_policy env i d st =
     (case validate_policy_request (as_catalog st) d of
        Inl e \<Rightarrow> (Inl e, st)
      | Inr _ \<Rightarrow>
        (case policy_update (ae_cron_ok env) (ae_now env) (as_policies st) i d of
           (Some e, t) \<Rightarrow> (Inl (ApiPolicy e), st\<lparr>as_policies := t\<rparr>)
         | (None, t) \<Rightarrow> (Inr 204, reconcile_request env i d (st\<lparr>as_policies := t\<rparr>))))"

text \<open>The schedules go first, whether the policy exists or not.\<close>

definition delete_policy :: "'s ApiEnv \<Rightarrow> u64 \<Rightarrow> 's AppState \<Rightarrow> (ApiError + nat) \<times> 's AppState" where
  "delete_policy env i st =
     (let st1 = (case as_scheduler st of
                   None \<Rightarrow> st
                 | Some s \<Rightarrow> st\<lparr>as_scheduler := Some (snd (remove_policy_schedule (ae_sched env) s i))\<rparr>)
      in case policy_delete (as_policies st1) i of
           (Some e, t) \<Rightarrow> (Inl (ApiPolicy e), st1\<lparr>as_policies := t\<rparr>)
         | (None, t) \<Rightarrow> (Inr 204, st1\<lparr>as_policies := t\<rparr>))"

record RunRequest =
  rq_target :: "TargetFilter option"
  rq_dry_run :: bool

definition manual_task :: "u64 \<Rightarrow> RunRequest \<Rightarrow> PolicyRunTask" where
  "manual_task i req =
     \<lparr>tk_policy_id = i, tk_trigger_idx = - 1,
      tk_target = (case rq_target req of Some t \<Rightarrow> t | None \<Rightarrow> FFs), tk_dry_run = rq_dry_run req\<rparr>"

definition manual_name :: "u64 \<Rightarrow> string \<Rightarrow> string" where
  "manual_name i token = ''rbh.policy.'' @ dec_str (unat i) @ ''.manual.'' @ token"

definition run_policy_now ::
  "'s ApiEnv \<Rightarrow> u64 \<Rightarrow> RunRequest \<Rightarrow> 's AppState \<Rightarrow> (ApiError + nat \<times> string) \<times> 's AppState" where
  "run_policy_now env i req st =
     (case policy_get (as_policies st) i of
        Inl e \<Rightarrow> (Inl (ApiPolicy e), st)
      | Inr row \<Rightarrow>
        (case validate_policy_request (as_catalog st) (pr_definition row) of
           Inl e \<Rightarrow> (Inl e, st)
         | Inr config \<Rightarrow>
           (case validate_target_for_filesystem (tk_target (manual_task i req)) config of
              Some e \<Rightarrow> (Inl (ApiPolicy e), st)
            | None \<Rightarrow>
              (case as_scheduler st of
                 None \<Rightarrow> (Inl (ApiInternal ''scheduler not configured''), st)
               | Some s \<Rightarrow>
                 (case ae_add_now env s (manual_name i (ae_token env)) (manual_task i req) of
                    (Inl e, s1) \<Rightarrow> (Inl (ApiInternal (''scheduler add_raw: '' @ e)), st\<lparr>as_scheduler := Some s1\<rparr>)
                  | (Inr k, s1) \<Rightarrow> (Inr (k, manual_name i (ae_token env)), st\<lparr>as_scheduler := Some s1\<rparr>))))))"

section \<open>Classifiers\<close>

text \<open>A reload that fails is logged, and the cache keeps what it had.\<close>

definition reload_cache :: "'s ApiEnv \<Rightarrow> 's AppState \<Rightarrow> 's AppState" where
  "reload_cache env st =
     (if ae_reload_fails env then st else st\<lparr>as_cache := classifier_list (as_classifiers st)\<rparr>)"

definition create_classifier ::
  "'s ApiEnv \<Rightarrow> ClassifierDef \<Rightarrow> 's AppState \<Rightarrow> ((nat \<times> string) + nat \<times> u64) \<times> 's AppState" where
  "create_classifier env d st =
     (case classifier_create (ae_now env) (as_classifiers st) d of
        (Inl e, t) \<Rightarrow> (Inl (policy_err e), st\<lparr>as_classifiers := t\<rparr>)
      | (Inr i, t) \<Rightarrow> (Inr (201, i), reload_cache env (st\<lparr>as_classifiers := t\<rparr>)))"

definition list_classifiers :: "'s AppState \<Rightarrow> ClassifierRow list" where
  "list_classifiers st = classifier_list (as_classifiers st)"

definition get_classifier :: "'s AppState \<Rightarrow> u64 \<Rightarrow> (nat \<times> string) + ClassifierRow" where
  "get_classifier st i = map_sum policy_err id (classifier_get (as_classifiers st) i)"

definition update_classifier ::
  "'s ApiEnv \<Rightarrow> u64 \<Rightarrow> ClassifierDef \<Rightarrow> 's AppState \<Rightarrow> ((nat \<times> string) + nat) \<times> 's AppState" where
  "update_classifier env i d st =
     (case classifier_update (ae_now env) (as_classifiers st) i d of
        (Some e, t) \<Rightarrow> (Inl (policy_err e), st\<lparr>as_classifiers := t\<rparr>)
      | (None, t) \<Rightarrow> (Inr 204, reload_cache env (st\<lparr>as_classifiers := t\<rparr>)))"

definition delete_classifier :: "'s ApiEnv \<Rightarrow> u64 \<Rightarrow> 's AppState \<Rightarrow> ((nat \<times> string) + nat) \<times> 's AppState" where
  "delete_classifier env i st =
     (case classifier_delete (as_classifiers st) i of
        (Some e, t) \<Rightarrow> (Inl (policy_err e), st\<lparr>as_classifiers := t\<rparr>)
      | (None, t) \<Rightarrow> (Inr 204, reload_cache env (st\<lparr>as_classifiers := t\<rparr>)))"

text \<open>The run over all catalogs: the counts of tagged objects, of errors and of objects seen.\<close>

record ClassifierRun =
  cn_classified :: nat
  cn_errors :: nat
  cn_scanned :: nat

definition MAX_ENTRIES :: nat where
  "MAX_ENTRIES = 1000000"

text \<open>\<open>None\<close>: the update panics and the request is lost.\<close>

fun classify_rows ::
  "'s ApiEnv \<Rightarrow> ClassifierDef \<Rightarrow> ScopedEntryRow list \<Rightarrow> ClassifierRun \<Rightarrow> Catalog \<Rightarrow>
   (ClassifierRun option) \<times> Catalog" where
  "classify_rows env d [] n c = (Some n, c)"
| "classify_rows env d (entry # entries) n c =
     (case evaluate_classifier (ae_regex env) (ae_now env) d entry of
        None \<Rightarrow> classify_rows env d entries n c
      | Some tags \<Rightarrow>
        (case update_scoped_xattr c (se_key entry) tags (manages d) of
           (Inl (Panic _), c1) \<Rightarrow> (None, c1)
         | (Inr True, c1) \<Rightarrow> classify_rows env d entries (n\<lparr>cn_classified := cn_classified n + 1\<rparr>) c1
         | (_, c1) \<Rightarrow> classify_rows env d entries (n\<lparr>cn_errors := cn_errors n + 1\<rparr>) c1))"

function classify_filesystem ::
  "'s ApiEnv \<Rightarrow> ClassifierDef \<Rightarrow> string \<Rightarrow> nat \<Rightarrow> ClassifierRun \<Rightarrow> Catalog \<Rightarrow> (ClassifierRun option) \<times> Catalog" where
  "classify_filesystem env d fs scanned n c =
     (if scanned \<ge> MAX_ENTRIES then (Some n, c)
      else
        (let limit = min 10000 (MAX_ENTRIES - scanned);
             batch = query_scoped_page (ae_run env) c fs ''1 = 1'' [] (Some ''object_kind, object_id'')
                       (word_of_nat limit) (word_of_nat scanned)
         in if batch = [] then (Some n, c)
            else (case classify_rows env d batch (n\<lparr>cn_scanned := cn_scanned n + length batch\<rparr>) c of
                    (None, c1) \<Rightarrow> (None, c1)
                  | (Some n1, c1) \<Rightarrow>
                      if length batch < limit then (Some n1, c1)
                      else classify_filesystem env d fs (scanned + length batch) n1 c1)))"
  by pat_completeness auto
termination
  by (relation "measure (\<lambda>(env, d, fs, scanned, n, c). MAX_ENTRIES - scanned)") auto

declare classify_filesystem.simps [simp del]

fun classify_filesystems ::
  "'s ApiEnv \<Rightarrow> ClassifierDef \<Rightarrow> FileSystemConfig list \<Rightarrow> ClassifierRun \<Rightarrow> Catalog \<Rightarrow> (ClassifierRun option) \<times> Catalog" where
  "classify_filesystems env d [] n c = (Some n, c)"
| "classify_filesystems env d (config # configs) n c =
     (case classify_filesystem env d (fs_id config) 0 n c of
        (None, c1) \<Rightarrow> (None, c1)
      | (Some n1, c1) \<Rightarrow> classify_filesystems env d configs n1 c1)"

datatype classifier_reply = Disabled | Classified ClassifierRun | Unwound

definition run_classifier ::
  "'s ApiEnv \<Rightarrow> u64 \<Rightarrow> 's AppState \<Rightarrow> ((nat \<times> string) + classifier_reply) \<times> 's AppState" where
  "run_classifier env i st =
     (case classifier_get (as_classifiers st) i of
        Inl e \<Rightarrow> (Inl (policy_err e), st)
      | Inr row \<Rightarrow>
          if \<not> cd_enabled (cw_definition row) then (Inr Disabled, st)
          else
            (case classify_filesystems env (cw_definition row) (list_filesystems (as_catalog st))
                    \<lparr>cn_classified = 0, cn_errors = 0, cn_scanned = 0\<rparr> (as_catalog st) of
               (r, c) \<Rightarrow>
                 (Inr (case r of None \<Rightarrow> Unwound | Some n \<Rightarrow> Classified n), st\<lparr>as_catalog := c\<rparr>)))"

section \<open>Histories of requests\<close>

datatype api_call =
    PCreate PolicyDef | PUpdate u64 PolicyDef | PDelete u64 | PRun u64 RunRequest
  | QCreate ClassifierDef | QUpdate u64 ClassifierDef | QDelete u64 | QRun u64

fun api_step :: "'s ApiEnv \<times> api_call \<Rightarrow> 's AppState \<Rightarrow> 's AppState" where
  "api_step (env, PCreate d) st = snd (create_policy env d st)"
| "api_step (env, PUpdate i d) st = snd (update_policy env i d st)"
| "api_step (env, PDelete i) st = snd (delete_policy env i st)"
| "api_step (env, PRun i req) st = snd (run_policy_now env i req st)"
| "api_step (env, QCreate d) st = snd (create_classifier env d st)"
| "api_step (env, QUpdate i d) st = snd (update_classifier env i d st)"
| "api_step (env, QDelete i) st = snd (delete_classifier env i st)"
| "api_step (env, QRun i) st = snd (run_classifier env i st)"

text \<open>
  What is assumed of the scheduler besides its laws: a call that fails adds nothing, and
  immediate runs are added like the others. Whether listing and removing fail is another
  matter: \<open>scheduler_answers\<close> says that they do not.
\<close>

definition scheduler_failsafe ::
  "'s Scheduler \<Rightarrow> ('s \<Rightarrow> string \<Rightarrow> PolicyRunTask \<Rightarrow> (string + nat) \<times> 's) \<Rightarrow> ('s \<Rightarrow> nat \<Rightarrow> string option) \<Rightarrow> bool" where
  "scheduler_failsafe sch add_now view \<longleftrightarrow>
     (\<forall>s i e s'. sched_remove sch s i = (Some e, s') \<longrightarrow> (\<forall>k. view s' k = view s k \<or> view s' k = None)) \<and>
     (\<forall>s n p t e s'. sched_add sch s n p t = (Inl e, s') \<longrightarrow> view s' = view s) \<and>
     (\<forall>s n t e s'. add_now s n t = (Inl e, s') \<longrightarrow> view s' = view s) \<and>
     (\<forall>s n t i s'. add_now s n t = (Inr i, s') \<longrightarrow> view s i = None \<and> view s' = (view s)(i := Some n))"

definition scheduler_answers :: "'s Scheduler \<Rightarrow> bool" where
  "scheduler_answers sch \<longleftrightarrow>
     (\<forall>s p. \<exists>ids. list_by_prefix sch s p = Inr ids) \<and> (\<forall>s i. fst (sched_remove sch s i) = None)"

definition scheduler_reliable ::
  "'s Scheduler \<Rightarrow> ('s \<Rightarrow> string \<Rightarrow> PolicyRunTask \<Rightarrow> (string + nat) \<times> 's) \<Rightarrow> ('s \<Rightarrow> nat \<Rightarrow> string option) \<Rightarrow> bool" where
  "scheduler_reliable sch add_now view \<longleftrightarrow> scheduler_failsafe sch add_now view \<and> scheduler_answers sch"

lemmas scheduler_reliable_defs = scheduler_reliable_def scheduler_failsafe_def scheduler_answers_def

definition time_triggered :: "(string \<Rightarrow> bool) \<Rightarrow> PolicyDef \<Rightarrow> bool" where
  "time_triggered cron_ok d \<longleftrightarrow>
     (\<exists>spec t. parse_trigger (trigger d) = Inr spec \<and> build_trigger cron_ok spec = Inr (Some t))"

lemma remove_all_reliable:
  assumes "\<forall>s i. fst (sched_remove sch s i) = None"
  shows "fst (remove_all sch ids s) = None"
proof (induction ids arbitrary: s)
  case (Cons i ids)
  obtain s1 where "sched_remove sch s i = (None, s1)" using assms by (metis prod.collapse)
  with Cons show ?case by simp
qed simp

lemma remove_reliable:
  assumes "scheduler_laws sch view" "scheduler_reliable sch add_now view"
  shows "view (snd (remove_policy_schedule sch s i)) = without_prefix (schedule_name i) (view s)"
    and "fst (remove_policy_schedule sch s i) = None"
proof -
  obtain ids where "list_by_prefix sch s (schedule_name i) = Inr ids"
    using assms(2) unfolding scheduler_reliable_defs by metis
  then show ok: "fst (remove_policy_schedule sch s i) = None"
    using assms(2) remove_all_reliable [of sch ids s] by (simp add: remove_policy_schedule_def scheduler_reliable_defs)
  from remove_policy_schedule_view [OF assms(1), of s i] ok
  show "view (snd (remove_policy_schedule sch s i)) = without_prefix (schedule_name i) (view s)"
    by (metis prod.collapse)
qed

lemma reconcile_reliable:
  fixes s i
  assumes "scheduler_laws sch view" "scheduler_reliable sch add_now view"
  defines "left \<equiv> without_prefix (schedule_name i) (view s)"
  shows "view (snd (reconcile_triggers sch cron_ok s i (trigger d) (pd_enabled d))) = left \<or>
    (\<exists>k. left k = None \<and> pd_enabled d \<and> time_triggered cron_ok d \<and>
       view (snd (reconcile_triggers sch cron_ok s i (trigger d) (pd_enabled d))) = left(k := Some (schedule_name i)))"
proof -
  obtain s1 where rm: "remove_policy_schedule sch s i = (None, s1)" and v: "view s1 = left"
    using remove_reliable [OF assms(1,2), of s i] unfolding left_def by (metis prod.collapse)
  show ?thesis
  proof (cases "pd_enabled d \<and> time_triggered cron_ok d")
    case True
    then obtain spec t where sp: "parse_trigger (trigger d) = Inr spec" "build_trigger cron_ok spec = Inr (Some t)"
      by (auto simp: time_triggered_def)
    obtain r s2 where add: "sched_add sch s1 (schedule_name i) i t = (r, s2)" by (rule prod.exhaust)
    have st: "view (snd (reconcile_triggers sch cron_ok s i (trigger d) (pd_enabled d))) = view s2"
      using True by (cases r) (simp_all add: reconcile_triggers_def rm sp add)
    show ?thesis
    proof (cases r)
      case (Inl e)
      with add assms(2) have "view s2 = view s1" by (auto simp: scheduler_reliable_defs)
      with st v show ?thesis by simp
    next
      case (Inr k)
      with add assms(1) have "view s1 k = None" "view s2 = (view s1)(k := Some (schedule_name i))"
        by (auto simp: scheduler_laws_def)
      with st v True show ?thesis by metis
    qed
  next
    case False
    then have "view (snd (reconcile_triggers sch cron_ok s i (trigger d) (pd_enabled d))) = view s1"
      by (auto simp: reconcile_triggers_def rm time_triggered_def split: sum.splits option.splits)
    with v show ?thesis by simp
  qed
qed

text \<open>The schedules that the state has.\<close>

definition schedules :: "('s \<Rightarrow> nat \<Rightarrow> string option) \<Rightarrow> 's AppState \<Rightarrow> nat \<Rightarrow> string option" where
  "schedules view st = (case as_scheduler st of None \<Rightarrow> (\<lambda>_. None) | Some s \<Rightarrow> view s)"

definition scheduled_ok :: "(string \<Rightarrow> bool) \<Rightarrow> PolicyStore \<Rightarrow> (nat \<Rightarrow> string option) \<Rightarrow> bool" where
  "scheduled_ok cron_ok t m \<longleftrightarrow>
     (\<forall>k i. m k = Some (schedule_name i) \<longrightarrow>
        (\<forall>j. m j = Some (schedule_name i) \<longrightarrow> j = k) \<and>
        (\<exists>row \<in> set (ps_rows t). pr_id row = i \<and> pr_enabled row \<and> time_triggered cron_ok (pr_definition row)))"

definition rows_ok :: "(string \<Rightarrow> bool) \<Rightarrow> Catalog \<Rightarrow> PolicyStore \<Rightarrow> bool" where
  "rows_ok cron_ok c t \<longleftrightarrow>
     distinct (map pr_id (ps_rows t)) \<and> distinct (map pr_name (ps_rows t)) \<and>
     (\<forall>row \<in> set (ps_rows t). pr_id row < ps_next t \<and> pr_name row = pd_name (pr_definition row) \<and>
        pr_enabled row = pd_enabled (pr_definition row) \<and> validate_policy cron_ok (pr_definition row) = None \<and>
        (\<exists>config. get_filesystem c (pd_filesystem (pr_definition row)) = Some config \<and>
           validate_policy_for_filesystem (pr_definition row) config = None))"

lemma schedule_name_inj [simp]: "schedule_name i = schedule_name j \<longleftrightarrow> i = j"
proof
  assume "schedule_name i = schedule_name j"
  then have "dec_str (unat i) = dec_str (unat j)" by (simp add: schedule_name_def)
  then have "parse_u64 (dec_str (unat i)) = parse_u64 (dec_str (unat j))" by (rule arg_cong)
  then show "i = j" by simp
qed simp

lemma manual_not_schedule: "manual_name i token \<noteq> schedule_name j"
proof
  assume "manual_name i token = schedule_name j"
  then have "dec_str (unat i) @ ''.manual.'' @ token = dec_str (unat j)" by (simp add: manual_name_def schedule_name_def)
  then have "CHR ''.'' \<in> set (dec_str (unat j))" by (metis Un_iff list.set_intros(1) set_append append_Cons)
  from radix_str_chars [OF _ _ this] show False by (auto simp: of_char_digit_char dest: arg_cong [where f = "of_char :: char \<Rightarrow> nat"])
qed

text \<open>The invariant of a state, kept by every request.\<close>

definition api_ok :: "(string \<Rightarrow> bool) \<Rightarrow> ('s \<Rightarrow> nat \<Rightarrow> string option) \<Rightarrow> 's AppState \<Rightarrow> bool" where
  "api_ok cron_ok view st \<longleftrightarrow>
     rows_ok cron_ok (as_catalog st) (as_policies st) \<and> scheduled_ok cron_ok (as_policies st) (schedules view st)"

text \<open>The cache that the ingest reads, as the last request left it.\<close>

definition cache_fresh :: "'s AppState \<Rightarrow> bool" where
  "cache_fresh st \<longleftrightarrow> as_cache st = classifier_list (as_classifiers st)"

lemma without_prefix_Some:
  "without_prefix p m k = Some n \<longleftrightarrow> m k = Some n \<and> \<not> prefix p n"
  by (auto simp: without_prefix_def split: option.splits)

text \<open>
  A change of the rows that touches only policy \<open>i\<close>, with its schedules removed and possibly
  the new one added.
\<close>

lemma scheduled_ok_change:
  assumes "scheduled_ok cron_ok t m"
    and "\<And>row. row \<in> set (ps_rows t) \<Longrightarrow> pr_id row \<noteq> i \<Longrightarrow> row \<in> set (ps_rows t')"
    and "m' = without_prefix (schedule_name i) m \<or>
      (\<exists>k. without_prefix (schedule_name i) m k = None \<and> m' = (without_prefix (schedule_name i) m)(k := Some (schedule_name i)) \<and>
        (\<exists>row \<in> set (ps_rows t'). pr_id row = i \<and> pr_enabled row \<and> time_triggered cron_ok (pr_definition row)))"
  shows "scheduled_ok cron_ok t' m'"
proof -
  have old: "m k = Some (schedule_name j) \<and> j \<noteq> i" if "without_prefix (schedule_name i) m k = Some (schedule_name j)" for k j
    using that by (auto simp: without_prefix_Some)
  have rows: "\<exists>row \<in> set (ps_rows t'). pr_id row = j \<and> pr_enabled row \<and> time_triggered cron_ok (pr_definition row)"
    if "m k = Some (schedule_name j)" "j \<noteq> i" for k j
    using assms(1,2) that unfolding scheduled_ok_def by blast
  have uniq: "l = k" if "m k = Some (schedule_name j)" "m l = Some (schedule_name j)" for k l j
    using assms(1) that unfolding scheduled_ok_def by blast
  show ?thesis
    unfolding scheduled_ok_def
  proof (intro allI impI conjI)
    fix k j l
    assume k: "m' k = Some (schedule_name j)" and l: "m' l = Some (schedule_name j)"
    from assms(3) show "l = k"
    proof
      assume "m' = without_prefix (schedule_name i) m"
      with k l old uniq show ?thesis by blast
    next
      assume "\<exists>k. without_prefix (schedule_name i) m k = None \<and> m' = (without_prefix (schedule_name i) m)(k := Some (schedule_name i)) \<and>
        (\<exists>row \<in> set (ps_rows t'). pr_id row = i \<and> pr_enabled row \<and> time_triggered cron_ok (pr_definition row))"
      then obtain x where x: "m' = (without_prefix (schedule_name i) m)(x := Some (schedule_name i))" by blast
      show ?thesis
      proof (cases "j = i")
        case True
        with k l x old [of k i] old [of l i] show ?thesis by (cases "k = x"; cases "l = x") auto
      next
        case False
        with k l x old [of k j] old [of l j] uniq [of k j l] show ?thesis by (cases "k = x"; cases "l = x") auto
      qed
    qed
  next
    fix k j
    assume k: "m' k = Some (schedule_name j)"
    from assms(3) show "\<exists>row \<in> set (ps_rows t'). pr_id row = j \<and> pr_enabled row \<and> time_triggered cron_ok (pr_definition row)"
    proof
      assume "m' = without_prefix (schedule_name i) m"
      with k old rows show ?thesis by blast
    next
      assume "\<exists>k. without_prefix (schedule_name i) m k = None \<and> m' = (without_prefix (schedule_name i) m)(k := Some (schedule_name i)) \<and>
        (\<exists>row \<in> set (ps_rows t'). pr_id row = i \<and> pr_enabled row \<and> time_triggered cron_ok (pr_definition row))"
      then obtain x where x: "m' = (without_prefix (schedule_name i) m)(x := Some (schedule_name i))"
          "\<exists>row \<in> set (ps_rows t'). pr_id row = i \<and> pr_enabled row \<and> time_triggered cron_ok (pr_definition row)" by blast
      show ?thesis
      proof (cases "k = x")
        case True
        with k x have "j = i" by simp
        with x(2) show ?thesis by simp
      next
        case False
        with k x old [of k j] rows [of k j] show ?thesis by simp
      qed
    qed
  qed
qed

lemma scheduled_ok_none: "scheduled_ok cron_ok t (\<lambda>_. None)"
  by (simp add: scheduled_ok_def)

lemma reconcile_keeps:
  assumes "scheduler_laws (ae_sched env) view" "scheduler_reliable (ae_sched env) (ae_add_now env) view"
    and "scheduled_ok (ae_cron_ok env) t (schedules view st)"
    and "\<And>row. row \<in> set (ps_rows t) \<Longrightarrow> pr_id row \<noteq> i \<Longrightarrow> row \<in> set (ps_rows (as_policies st))"
    and "\<exists>row \<in> set (ps_rows (as_policies st)). pr_id row = i \<and> pr_enabled row = pd_enabled d \<and> pr_definition row = d"
  shows "scheduled_ok (ae_cron_ok env) (as_policies st) (schedules view (reconcile_request env i d st))"
    "as_policies (reconcile_request env i d st) = as_policies st"
    "as_catalog (reconcile_request env i d st) = as_catalog st"
proof -
  show "scheduled_ok (ae_cron_ok env) (as_policies st) (schedules view (reconcile_request env i d st))"
  proof (cases "as_scheduler st")
    case None
    then show ?thesis by (simp add: reconcile_request_def schedules_def scheduled_ok_none)
  next
    case (Some s)
    with assms(3) have m: "scheduled_ok (ae_cron_ok env) t (view s)" by (simp add: schedules_def)
    from Some have new: "schedules view (reconcile_request env i d st) =
        view (snd (reconcile_triggers (ae_sched env) (ae_cron_ok env) s i (trigger d) (pd_enabled d)))"
      by (simp add: reconcile_request_def schedules_def)
    show ?thesis
    proof (rule scheduled_ok_change [OF m assms(4)])
      show "schedules view (reconcile_request env i d st) = without_prefix (schedule_name i) (view s) \<or>
        (\<exists>k. without_prefix (schedule_name i) (view s) k = None \<and>
          schedules view (reconcile_request env i d st) = (without_prefix (schedule_name i) (view s))(k := Some (schedule_name i)) \<and>
          (\<exists>row \<in> set (ps_rows (as_policies st)). pr_id row = i \<and> pr_enabled row \<and> time_triggered (ae_cron_ok env) (pr_definition row)))"
        using reconcile_reliable [OF assms(1,2), where i = i and s = s and cron_ok = "ae_cron_ok env" and d = d] assms(5) unfolding new by metis
    qed
  qed
qed (simp_all add: reconcile_request_def split: option.splits)

lemma validate_policy_request_Inr:
  "validate_policy_request c d = Inr config \<longleftrightarrow>
     get_filesystem c (pd_filesystem d) = Some config \<and> validate_policy_for_filesystem d config = None"
  by (auto simp: validate_policy_request_def split: option.splits)

lemma create_keeps:
  assumes "rows_ok cron_ok c t" "validate_policy_request c d = Inr config"
    and "policy_create cron_ok now t d = (r, t')"
  shows "rows_ok cron_ok c t'"
    and "\<And>row. row \<in> set (ps_rows t) \<Longrightarrow> row \<in> set (ps_rows t')"
    and "r = Inr i \<Longrightarrow> \<exists>row \<in> set (ps_rows t'). pr_id row = i \<and> pr_enabled row = pd_enabled d \<and> pr_definition row = d"
proof -
  have step: "x < w + 1" if "x < w" "w \<noteq> - 1" for x w :: u64
    using that less_next less_trans by blast
  have fresh: "ps_next t \<notin> pr_id ` set (ps_rows t)"
    using assms(1) by (auto simp: rows_ok_def dest: less_imp_neq)
  have rows: "distinct (map pr_id (ps_rows t))" "distinct (map pr_name (ps_rows t))"
    using assms(1) by (simp_all add: rows_ok_def)
  show "rows_ok cron_ok c t'"
  proof (cases "validate_policy cron_ok d = None \<and> ps_next t \<noteq> - 1")
    case True
    then have "ps_next t < ps_next t + 1" using less_next by blast
    with True fresh rows assms step [of _ "ps_next t"] show ?thesis
      by (simp add: rows_ok_def policy_create_def validate_policy_request_Inr split: if_splits) fastforce+
  next
    case False
    with assms(1,3) show ?thesis by (auto simp: policy_create_def split: option.splits if_splits)
  qed
  show "\<And>row. row \<in> set (ps_rows t) \<Longrightarrow> row \<in> set (ps_rows t')"
    using assms(3) by (auto simp: policy_create_def split: option.splits if_splits)
  show "r = Inr i \<Longrightarrow> \<exists>row \<in> set (ps_rows t'). pr_id row = i \<and> pr_enabled row = pd_enabled d \<and> pr_definition row = d"
    using assms(3) by (auto simp: policy_create_def split: option.splits if_splits)
qed

lemma create_policy_keeps:
  assumes "scheduler_laws (ae_sched env) view" "scheduler_reliable (ae_sched env) (ae_add_now env) view"
    and "api_ok (ae_cron_ok env) view st"
  shows "api_ok (ae_cron_ok env) view (snd (create_policy env d st)) \<and> as_catalog (snd (create_policy env d st)) = as_catalog st"
proof (cases "validate_policy_request (as_catalog st) d")
  case (Inr config)
  obtain r t' where pc: "policy_create (ae_cron_ok env) (ae_now env) (as_policies st) d = (r, t')" by (rule prod.exhaust)
  from assms(3) have rows: "rows_ok (ae_cron_ok env) (as_catalog st) (as_policies st)"
    and sch: "scheduled_ok (ae_cron_ok env) (as_policies st) (schedules view st)" by (simp_all add: api_ok_def)
  note keeps = create_keeps [OF rows Inr pc]
  have sched: "schedules view (st\<lparr>as_policies := t'\<rparr>) = schedules view st" by (simp add: schedules_def)
  show ?thesis
  proof (cases r)
    case (Inl e)
    then have "scheduled_ok (ae_cron_ok env) t' (schedules view st)"
      using sch keeps(2) unfolding scheduled_ok_def by blast
    with Inl keeps(1) sched show ?thesis by (simp add: create_policy_def Inr pc api_ok_def)
  next
    case (Inr i)
    have "scheduled_ok (ae_cron_ok env) t' (schedules view (reconcile_request env i d (st\<lparr>as_policies := t'\<rparr>)))"
      "as_policies (reconcile_request env i d (st\<lparr>as_policies := t'\<rparr>)) = t'"
      "as_catalog (reconcile_request env i d (st\<lparr>as_policies := t'\<rparr>)) = as_catalog st"
      using reconcile_keeps [OF assms(1,2), of "as_policies st" "st\<lparr>as_policies := t'\<rparr>" i d] sch sched keeps(2) keeps(3) [OF Inr]
      by simp_all
    with keeps(1) show ?thesis
      by (simp add: create_policy_def \<open>validate_policy_request (as_catalog st) d = Inr config\<close> pc Inr api_ok_def)
  qed
qed (simp add: create_policy_def assms(3))

lemma update_keeps:
  assumes "rows_ok cron_ok c t" "validate_policy_request c d = Inr config"
    and "policy_update cron_ok now t i d = (None, t')"
  shows "rows_ok cron_ok c t'"
    and "\<And>row. row \<in> set (ps_rows t) \<Longrightarrow> pr_id row \<noteq> i \<Longrightarrow> row \<in> set (ps_rows t')"
    and "\<exists>row \<in> set (ps_rows t'). pr_id row = i \<and> pr_enabled row = pd_enabled d \<and> pr_definition row = d"
proof -
  let ?f = "\<lambda>r. if pr_id r = i then r\<lparr>pr_name := pd_name d, pr_definition := d, pr_enabled := pd_enabled d, pr_updated_at := now\<rparr> else r"
  from assms(3) have v: "validate_policy cron_ok d = None" and i: "i \<in> pr_id ` set (ps_rows t)"
    and fresh: "\<And>r. r \<in> set (ps_rows t) \<Longrightarrow> pr_id r \<noteq> i \<Longrightarrow> pr_name r \<noteq> pd_name d"
    and t': "t' = t\<lparr>ps_rows := map ?f (ps_rows t)\<rparr>"
    by (auto simp: policy_update_def split: option.splits if_splits)
  have ids: "map pr_id (ps_rows t') = map pr_id (ps_rows t)" by (simp add: t')
  have names: "distinct (map pr_name (map ?f rows))"
    if "distinct (map pr_name rows)" "distinct (map pr_id rows)" "set rows \<subseteq> set (ps_rows t)" for rows
    using that
  proof (induction rows)
    case (Cons r rows)
    have "pr_name (?f r) \<noteq> pr_name (?f q)" if q: "q \<in> set rows" for q
    proof -
      from Cons.prems q have "pr_id q \<noteq> pr_id r" "pr_name q \<noteq> pr_name r" "r \<in> set (ps_rows t)" "q \<in> set (ps_rows t)"
        by (auto simp: image_iff)
      with fresh [of q] fresh [of r] show ?thesis by auto
    qed
    then have "pr_name (?f r) \<notin> set (map pr_name (map ?f rows))" unfolding set_map by blast
    moreover have "distinct (map pr_name (map ?f rows))" by (rule Cons.IH) (use Cons.prems in auto)
    ultimately show ?case by (simp only: list.map distinct.simps) simp
  qed simp
  show "rows_ok cron_ok c t'"
    unfolding rows_ok_def ids
    using assms(1,2) v names [of "ps_rows t"] by (auto simp: rows_ok_def validate_policy_request_Inr t' simp del: map_map)
  show "\<And>row. row \<in> set (ps_rows t) \<Longrightarrow> pr_id row \<noteq> i \<Longrightarrow> row \<in> set (ps_rows t')"
    by (force simp: t')
  show "\<exists>row \<in> set (ps_rows t'). pr_id row = i \<and> pr_enabled row = pd_enabled d \<and> pr_definition row = d"
  proof -
    from i obtain r where "r \<in> set (ps_rows t)" "pr_id r = i" by blast
    then have "?f r \<in> set (ps_rows t')" "pr_id (?f r) = i \<and> pr_enabled (?f r) = pd_enabled d \<and> pr_definition (?f r) = d"
      by (simp_all add: t')
    then show ?thesis by blast
  qed
qed

lemma update_policy_keeps:
  assumes "scheduler_laws (ae_sched env) view" "scheduler_reliable (ae_sched env) (ae_add_now env) view"
    and "api_ok (ae_cron_ok env) view st"
  shows "api_ok (ae_cron_ok env) view (snd (update_policy env i d st)) \<and> as_catalog (snd (update_policy env i d st)) = as_catalog st"
proof (cases "validate_policy_request (as_catalog st) d")
  case (Inr config)
  obtain r t' where pu: "policy_update (ae_cron_ok env) (ae_now env) (as_policies st) i d = (r, t')" by (rule prod.exhaust)
  from assms(3) have rows: "rows_ok (ae_cron_ok env) (as_catalog st) (as_policies st)"
    and sch: "scheduled_ok (ae_cron_ok env) (as_policies st) (schedules view st)" by (simp_all add: api_ok_def)
  have sched: "schedules view (st\<lparr>as_policies := t'\<rparr>) = schedules view st" by (simp add: schedules_def)
  show ?thesis
  proof (cases r)
    case (Some e)
    with pu have "t' = as_policies st" by (auto simp: policy_update_def split: option.splits if_splits)
    with Some assms(3) show ?thesis by (simp add: update_policy_def Inr pu)
  next
    case None
    note keeps = update_keeps [OF rows Inr pu [unfolded None]]
    have "scheduled_ok (ae_cron_ok env) t' (schedules view (reconcile_request env i d (st\<lparr>as_policies := t'\<rparr>)))"
      "as_policies (reconcile_request env i d (st\<lparr>as_policies := t'\<rparr>)) = t'"
      "as_catalog (reconcile_request env i d (st\<lparr>as_policies := t'\<rparr>)) = as_catalog st"
      using reconcile_keeps [OF assms(1,2), of "as_policies st" "st\<lparr>as_policies := t'\<rparr>" i d] sch sched keeps(2,3)
      by simp_all
    with keeps(1) show ?thesis by (simp add: update_policy_def Inr pu None api_ok_def)
  qed
qed (simp add: update_policy_def assms(3))

lemma delete_policy_keeps:
  assumes "scheduler_laws (ae_sched env) view" "scheduler_reliable (ae_sched env) (ae_add_now env) view"
    and "api_ok (ae_cron_ok env) view st"
  shows "api_ok (ae_cron_ok env) view (snd (delete_policy env i st)) \<and> as_catalog (snd (delete_policy env i st)) = as_catalog st"
proof -
  from assms(3) have rows: "rows_ok (ae_cron_ok env) (as_catalog st) (as_policies st)"
    and sch: "scheduled_ok (ae_cron_ok env) (as_policies st) (schedules view st)" by (simp_all add: api_ok_def)
  obtain r t' where pd: "policy_delete (as_policies st) i = (r, t')" by (rule prod.exhaust)
  have rows': "rows_ok (ae_cron_ok env) (as_catalog st) t'"
    using rows pd by (auto simp: rows_ok_def policy_delete_def distinct_map_filter split: if_splits)
  have others: "row \<in> set (ps_rows t')" if "row \<in> set (ps_rows (as_policies st))" "pr_id row \<noteq> i" for row
    using pd that by (auto simp: policy_delete_def split: if_splits)
  have final: "as_policies (snd (delete_policy env i st)) = t' \<and> as_catalog (snd (delete_policy env i st)) = as_catalog st"
    by (cases "as_scheduler st"; cases r) (simp_all add: delete_policy_def pd)
  have "scheduled_ok (ae_cron_ok env) t' (schedules view (snd (delete_policy env i st)))"
  proof (cases "as_scheduler st")
    case None
    then have "schedules view (snd (delete_policy env i st)) = (\<lambda>_. None)"
      by (cases r) (simp_all add: delete_policy_def pd schedules_def)
    then show ?thesis by (simp add: scheduled_ok_none)
  next
    case (Some s)
    then have "schedules view (snd (delete_policy env i st)) = view (snd (remove_policy_schedule (ae_sched env) s i))"
      by (cases r) (simp_all add: delete_policy_def pd schedules_def)
    then have "schedules view (snd (delete_policy env i st)) = without_prefix (schedule_name i) (view s)"
      using remove_reliable(1) [OF assms(1,2)] by simp
    with scheduled_ok_change [OF _ others] sch Some show ?thesis by (simp add: schedules_def)
  qed
  with final rows' show ?thesis by (simp add: api_ok_def)
qed

text \<open>An immediate run starts only for a policy that its filesystem still allows.\<close>

lemma run_policy_now_keeps:
  assumes "scheduler_reliable (ae_sched env) (ae_add_now env) view" "api_ok (ae_cron_ok env) view st"
  shows "api_ok (ae_cron_ok env) view (snd (run_policy_now env i req st)) \<and> as_catalog (snd (run_policy_now env i req st)) = as_catalog st"
proof (cases "snd (run_policy_now env i req st) = st")
  case False
  then obtain s where s: "as_scheduler st = Some s"
    and new: "snd (run_policy_now env i req st) =
      st\<lparr>as_scheduler := Some (snd (ae_add_now env s (manual_name i (ae_token env)) (manual_task i req)))\<rparr>"
    by (auto simp: run_policy_now_def split: sum.splits option.splits prod.splits)
  obtain r s1 where add: "ae_add_now env s (manual_name i (ae_token env)) (manual_task i req) = (r, s1)" by (rule prod.exhaust)
  have "view s1 = view s \<or> (\<exists>k. view s k = None \<and> view s1 = (view s)(k := Some (manual_name i (ae_token env))))"
  proof (cases r)
    case (Inl e)
    with assms(1) add show ?thesis unfolding scheduler_reliable_defs by blast
  next
    case (Inr k)
    with assms(1) add have "view s k = None \<and> view s1 = (view s)(k := Some (manual_name i (ae_token env)))"
      unfolding scheduler_reliable_defs by simp
    then show ?thesis by blast
  qed
  then have "scheduled_ok (ae_cron_ok env) (as_policies st) (view s1)"
    using assms(2) s manual_not_schedule
    unfolding api_ok_def scheduled_ok_def schedules_def by (auto split: if_splits)
  with assms(2) new add show ?thesis by (simp add: api_ok_def schedules_def)
qed (use assms in simp)

lemma update_xattr_filesystems: "update_scoped_xattr c key tags ks = (r, c') \<Longrightarrow> filesystems c' = filesystems c"
  by (auto simp: update_scoped_xattr_def upsert_scoped_entry_def upsert_scoped_entry_tx_def in_tx_def
      split: sum.splits option.splits if_splits prod.splits)

lemma classify_rows_filesystems: "filesystems (snd (classify_rows env d entries n c)) = filesystems c"
proof (induction entries arbitrary: n c)
  case (Cons entry entries)
  show ?case
  proof (cases "evaluate_classifier (ae_regex env) (ae_now env) d entry")
    case (Some tags)
    obtain r c1 where u: "update_scoped_xattr c (se_key entry) tags (manages d) = (r, c1)" by (rule prod.exhaust)
    with Some Cons.IH [of _ c1] update_xattr_filesystems [OF u] show ?thesis
      by (auto split: sum.splits StoreError.splits bool.splits)
  qed (simp add: Cons.IH)
qed simp

lemma classify_filesystem_filesystems: "filesystems (snd (classify_filesystem env d fs scanned n c)) = filesystems c"
proof (induction env d fs scanned n c rule: classify_filesystem.induct)
  case (1 env d fs scanned n c)
  show ?case
  proof (subst classify_filesystem.simps, cases "MAX_ENTRIES \<le> scanned")
    case False
    let ?limit = "min 10000 (MAX_ENTRIES - scanned)"
    let ?batch = "query_scoped_page (ae_run env) c fs ''1 = 1'' [] (Some ''object_kind, object_id'') (word_of_nat ?limit) (word_of_nat scanned)"
    let ?n = "n\<lparr>cn_scanned := cn_scanned n + length ?batch\<rparr>"
    obtain r c1 where r: "classify_rows env d ?batch ?n c = (r, c1)" by (rule prod.exhaust)
    with classify_rows_filesystems [of env d ?batch ?n c] have "filesystems c1 = filesystems c" by simp
    with 1 [OF False refl refl _ r [symmetric]] r False
    show "filesystems (snd (if MAX_ENTRIES \<le> scanned then (Some n, c)
      else let limit = ?limit; batch = query_scoped_page (ae_run env) c fs ''1 = 1'' [] (Some ''object_kind, object_id'') (word_of_nat limit) (word_of_nat scanned)
           in if batch = [] then (Some n, c)
              else case classify_rows env d batch (n\<lparr>cn_scanned := cn_scanned n + length batch\<rparr>) c of
                (None, c1) \<Rightarrow> (None, c1)
              | (Some n1, c1) \<Rightarrow> if length batch < limit then (Some n1, c1)
                               else classify_filesystem env d fs (scanned + length batch) n1 c1)) = filesystems c"
      by (cases r) (simp_all add: Let_def)
  qed simp
qed

lemma classify_filesystems_filesystems: "filesystems (snd (classify_filesystems env d configs n c)) = filesystems c"
proof (induction configs arbitrary: n c)
  case (Cons config configs)
  obtain r c1 where r: "classify_filesystem env d (fs_id config) 0 n c = (r, c1)" by (rule prod.exhaust)
  with classify_filesystem_filesystems [of env d "fs_id config" 0 n c] have "filesystems c1 = filesystems c" by simp
  with r Cons.IH show ?case by (cases r) simp_all
qed simp

text \<open>A classifier request leaves the policies, their schedules and the registered filesystems alone.\<close>

lemma classifier_request_keeps:
  assumes "q = QCreate cd \<or> q = QUpdate i cd \<or> q = QDelete i \<or> q = QRun i"
  shows "as_policies (api_step (env, q) st) = as_policies st" "as_scheduler (api_step (env, q) st) = as_scheduler st"
    "filesystems (as_catalog (api_step (env, q) st)) = filesystems (as_catalog st)"
proof -
  have run: "filesystems (as_catalog (snd (run_classifier env i st))) = filesystems (as_catalog st)" for i
    using classify_filesystems_filesystems [of env _ "list_filesystems (as_catalog st)" _ "as_catalog st"]
    by (auto simp: run_classifier_def split: sum.splits prod.splits) (metis snd_conv)
  note defs = create_classifier_def update_classifier_def delete_classifier_def reload_cache_def
  from assms show "as_policies (api_step (env, q) st) = as_policies st" "as_scheduler (api_step (env, q) st) = as_scheduler st"
    by (auto simp: defs run_classifier_def split: sum.splits prod.splits option.splits)
  from assms run show "filesystems (as_catalog (api_step (env, q) st)) = filesystems (as_catalog st)"
    by (auto simp: defs split: sum.splits prod.splits option.splits)
qed

lemma rows_ok_filesystems: "filesystems c = filesystems c' \<Longrightarrow> rows_ok cron_ok c t = rows_ok cron_ok c' t"
  by (simp add: rows_ok_def get_filesystem_def)

lemma api_step_keeps:
  assumes "scheduler_laws (ae_sched env) view" "scheduler_reliable (ae_sched env) (ae_add_now env) view"
    and "api_ok (ae_cron_ok env) view st"
  shows "api_ok (ae_cron_ok env) view (api_step (env, q) st)"
proof -
  have "api_ok (ae_cron_ok env) view (api_step (env, q) st)"
    if "q = QCreate cd \<or> q = QUpdate i cd \<or> q = QDelete i \<or> q = QRun i" for cd i
    using assms(3) classifier_request_keeps [OF that, of env st] rows_ok_filesystems [OF classifier_request_keeps(3) [OF that, of env st]]
    by (simp add: api_ok_def schedules_def)
  then show ?thesis
    using create_policy_keeps [OF assms] update_policy_keeps [OF assms] delete_policy_keeps [OF assms] run_policy_now_keeps [OF assms(2,3)]
    by (cases q) auto
qed

text \<open>The table of policies, whatever the scheduler does.\<close>

lemma reconcile_request_rest [simp]:
  "as_policies (reconcile_request env i d st) = as_policies st" "as_catalog (reconcile_request env i d st) = as_catalog st"
  "as_cache (reconcile_request env i d st) = as_cache st" "as_classifiers (reconcile_request env i d st) = as_classifiers st"
  by (simp_all add: reconcile_request_def split: option.splits)

lemma delete_rows: "rows_ok cron_ok c t \<Longrightarrow> policy_delete t i = (r, t') \<Longrightarrow> rows_ok cron_ok c t' \<and> ps_next t' = ps_next t"
  by (auto simp: rows_ok_def policy_delete_def distinct_map_filter split: if_splits)

lemma create_next: "policy_create cron_ok now t d = (r, t') \<Longrightarrow> ps_next t \<le> ps_next t' \<and> (\<forall>i. r = Inr i \<longrightarrow> i < ps_next t')"
  using less_next [of "ps_next t"] by (auto simp: policy_create_def order_less_imp_le split: option.splits if_splits)

lemma update_next: "policy_update cron_ok now t i d = (r, t') \<Longrightarrow> ps_next t' = ps_next t \<and> (r = None \<longrightarrow> i \<in> pr_id ` set (ps_rows t))"
  by (auto simp: policy_update_def split: option.splits if_splits)

lemma api_step_rows:
  assumes "rows_ok (ae_cron_ok env) (as_catalog st) (as_policies st)"
  shows "rows_ok (ae_cron_ok env) (as_catalog (api_step (env, q) st)) (as_policies (api_step (env, q) st)) \<and>
    ps_next (as_policies st) \<le> ps_next (as_policies (api_step (env, q) st))"
proof -
  have classifier: "?thesis" if "q = QCreate cd \<or> q = QUpdate i cd \<or> q = QDelete i \<or> q = QRun i" for cd i
    using assms classifier_request_keeps [OF that, of env st] rows_ok_filesystems [OF classifier_request_keeps(3) [OF that, of env st]]
    by simp
  show ?thesis
  proof (cases q)
    case (PCreate d)
    show ?thesis
    proof (cases "validate_policy_request (as_catalog st) d")
      case (Inr config)
      obtain r t' where pc: "policy_create (ae_cron_ok env) (ae_now env) (as_policies st) d = (r, t')" by (rule prod.exhaust)
      from create_keeps(1) [OF assms Inr pc] create_next [OF pc] show ?thesis
        by (cases r) (simp_all add: PCreate create_policy_def Inr pc)
    qed (use assms in \<open>simp add: PCreate create_policy_def\<close>)
  next
    case (PUpdate i d)
    show ?thesis
    proof (cases "validate_policy_request (as_catalog st) d")
      case (Inr config)
      obtain r t' where pu: "policy_update (ae_cron_ok env) (ae_now env) (as_policies st) i d = (r, t')" by (rule prod.exhaust)
      have "rows_ok (ae_cron_ok env) (as_catalog st) t'"
      proof (cases r)
        case None
        with update_keeps(1) [OF assms Inr] pu show ?thesis by blast
      next
        case (Some e)
        with pu have "t' = as_policies st" by (auto simp: policy_update_def split: option.splits if_splits)
        with assms show ?thesis by simp
      qed
      with update_next [OF pu] show ?thesis by (cases r) (simp_all add: PUpdate update_policy_def Inr pu)
    qed (use assms in \<open>simp add: PUpdate update_policy_def\<close>)
  next
    case (PDelete i)
    obtain r t' where pd: "policy_delete (as_policies st) i = (r, t')" by (rule prod.exhaust)
    from delete_rows [OF assms pd] show ?thesis
      by (cases "as_scheduler st"; cases r) (simp_all add: PDelete delete_policy_def pd)
  next
    case (PRun i req)
    with assms show ?thesis by (auto simp: run_policy_now_def split: sum.splits option.splits prod.splits)
  qed (use classifier in blast)+
qed

text \<open>
  What holds of the schedules even when the scheduler fails: at most one for each policy, and
  only for ids that were given out.
\<close>

definition single_schedules :: "PolicyStore \<Rightarrow> (nat \<Rightarrow> string option) \<Rightarrow> bool" where
  "single_schedules t m \<longleftrightarrow>
     (\<forall>k i. m k = Some (schedule_name i) \<longrightarrow> i < ps_next t \<and> (\<forall>j. m j = Some (schedule_name i) \<longrightarrow> j = k))"

definition fewer :: "(nat \<Rightarrow> string option) \<Rightarrow> (nat \<Rightarrow> string option) \<Rightarrow> bool" where
  "fewer m' m \<longleftrightarrow> (\<forall>k. m' k = m k \<or> m' k = None)"

lemma fewer_trans: "fewer a b \<Longrightarrow> fewer b c \<Longrightarrow> fewer a c"
  unfolding fewer_def by metis

lemma single_fewer: "single_schedules t m \<Longrightarrow> fewer m' m \<Longrightarrow> ps_next t \<le> ps_next t' \<Longrightarrow> single_schedules t' m'"
  unfolding single_schedules_def fewer_def by (metis option.distinct(1) order_less_le_trans)

lemma remove_all_fewer:
  assumes "scheduler_laws sch view" "scheduler_failsafe sch add_now view"
  shows "fewer (view (snd (remove_all sch ids s))) (view s)"
proof (induction ids arbitrary: s)
  case (Cons i ids)
  obtain r s1 where rm: "sched_remove sch s i = (r, s1)" by (rule prod.exhaust)
  have "fewer (view s1) (view s)"
  proof (cases r)
    case None
    with assms(1) rm have "view s1 = (view s)(i := None)" unfolding scheduler_laws_def by blast
    then show ?thesis by (simp add: fewer_def)
  next
    case (Some e)
    with rm have "sched_remove sch s i = (Some e, s1)" by simp
    with assms(2) have "\<forall>k. view s1 k = view s k \<or> view s1 k = None" unfolding scheduler_failsafe_def by meson
    then show ?thesis by (simp add: fewer_def)
  qed
  with Cons.IH [of s1] rm show ?case by (cases r) (auto intro: fewer_trans)
qed (simp add: fewer_def)

lemma remove_fewer:
  assumes "scheduler_laws sch view" "scheduler_failsafe sch add_now view"
  shows "fewer (view (snd (remove_policy_schedule sch s i))) (view s)"
  using remove_all_fewer [OF assms, of _ s]
  by (cases "list_by_prefix sch s (schedule_name i)") (simp_all add: remove_policy_schedule_def fewer_def)

lemma reconcile_single:
  assumes "scheduler_laws sch view" "scheduler_failsafe sch add_now view"
    and "single_schedules t (view s)" "ps_next t \<le> ps_next t'" "i < ps_next t'"
  shows "single_schedules t' (view (snd (reconcile_triggers sch cron_ok s i str enabled)))"
proof -
  obtain r s1 where rm: "remove_policy_schedule sch s i = (r, s1)" by (rule prod.exhaust)
  have s1: "single_schedules t' (view s1)"
    using single_fewer [OF assms(3) _ assms(4)] remove_fewer [OF assms(1,2), of s i] rm by simp
  have final: "view s2 = view s1 \<or> (\<exists>k. r = None \<and> view s1 k = None \<and> view s2 = (view s1)(k := Some (schedule_name i)))"
    if run: "snd (reconcile_triggers sch cron_ok s i str enabled) = s2" for s2
  proof (cases "s2 = s1")
    case False
    with run obtain spec tr where ok: "r = None" "parse_trigger str = Inr spec" "build_trigger cron_ok spec = Inr (Some tr)"
        "s2 = snd (sched_add sch s1 (schedule_name i) i tr)"
      by (auto simp: reconcile_triggers_def rm split: option.splits sum.splits if_splits prod.splits)
    obtain x s3 where add: "sched_add sch s1 (schedule_name i) i tr = (x, s3)" by (rule prod.exhaust)
    show ?thesis
    proof (cases x)
      case (Inl e)
      with add assms(2) have "view s3 = view s1" unfolding scheduler_failsafe_def by blast
      with ok(4) add show ?thesis by simp
    next
      case (Inr k)
      with add assms(1) have "view s1 k = None" "view s3 = (view s1)(k := Some (schedule_name i))"
        unfolding scheduler_laws_def by blast+
      with ok(1,4) add show ?thesis by auto
    qed
  qed simp
  have none: "view s1 k \<noteq> Some (schedule_name i)" if "r = None" for k
    using remove_policy_schedule_view [OF assms(1), of s i s1] rm that by (simp add: without_prefix_Some)
  from final [OF refl] show ?thesis
  proof
    assume "\<exists>k. r = None \<and> view s1 k = None \<and>
      view (snd (reconcile_triggers sch cron_ok s i str enabled)) = (view s1)(k := Some (schedule_name i))"
    with none s1 assms(5) show ?thesis unfolding single_schedules_def by (auto split: if_splits)
  qed (use s1 in simp)
qed

lemma api_step_single:
  assumes "scheduler_laws (ae_sched env) view" "scheduler_failsafe (ae_sched env) (ae_add_now env) view"
    and rows: "rows_ok (ae_cron_ok env) (as_catalog st) (as_policies st)"
    and single: "single_schedules (as_policies st) (schedules view st)"
  shows "single_schedules (as_policies (api_step (env, q) st)) (schedules view (api_step (env, q) st))"
proof -
  have same: "single_schedules t' (schedules view st)" if "ps_next (as_policies st) \<le> ps_next t'" for t'
    by (rule single_fewer [OF single _ that]) (simp add: fewer_def)
  have reconcile: "single_schedules t' (schedules view (reconcile_request env i d (st\<lparr>as_policies := t'\<rparr>)))"
    if "ps_next (as_policies st) \<le> ps_next t'" "i < ps_next t'" for t' i d
  proof (cases "as_scheduler st")
    case None
    then show ?thesis by (simp add: reconcile_request_def schedules_def single_schedules_def)
  next
    case (Some s)
    with reconcile_single [OF assms(1,2) _ that, of s "ae_cron_ok env" "trigger d" "pd_enabled d"] single show ?thesis
      by (simp add: reconcile_request_def schedules_def)
  qed
  have sched [simp]: "schedules view (st\<lparr>as_policies := t'\<rparr>) = schedules view st" for t' by (simp add: schedules_def)
  have classifier: "?thesis" if "q = QCreate cd \<or> q = QUpdate i cd \<or> q = QDelete i \<or> q = QRun i" for cd i
    using single classifier_request_keeps [OF that, of env st] by (simp add: schedules_def)
  show ?thesis
  proof (cases q)
    case (PCreate d)
    obtain r t' where pc: "policy_create (ae_cron_ok env) (ae_now env) (as_policies st) d = (r, t')" by (rule prod.exhaust)
    from create_next [OF pc] same [of t'] reconcile [of t'] single show ?thesis
      by (cases "validate_policy_request (as_catalog st) d"; cases r) (simp_all add: PCreate create_policy_def pc)
  next
    case (PUpdate i d)
    obtain r t' where pu: "policy_update (ae_cron_ok env) (ae_now env) (as_policies st) i d = (r, t')" by (rule prod.exhaust)
    have "i < ps_next t'" if "r = None"
      using update_next [OF pu] that rows by (auto simp: rows_ok_def)
    with update_next [OF pu] same [of t'] reconcile [of t' i d] single show ?thesis
      by (cases "validate_policy_request (as_catalog st) d"; cases r) (simp_all add: PUpdate update_policy_def pu)
  next
    case (PDelete i)
    obtain r t' where pd: "policy_delete (as_policies st) i = (r, t')" by (rule prod.exhaust)
    from delete_rows [OF rows pd] have nx: "ps_next (as_policies st) \<le> ps_next t'" by simp
    show ?thesis
    proof (cases "as_scheduler st")
      case None
      with same [OF nx] show ?thesis by (cases r) (simp_all add: PDelete delete_policy_def pd schedules_def)
    next
      case (Some s)
      with single have "single_schedules (as_policies st) (view s)" by (simp add: schedules_def)
      from single_fewer [OF this remove_fewer [OF assms(1,2), of s i] nx] Some show ?thesis
        by (cases r) (simp_all add: PDelete delete_policy_def pd schedules_def)
    qed
  next
    case (PRun i req)
    show ?thesis
    proof (cases "snd (run_policy_now env i req st) = st")
      case False
      then obtain s where s: "as_scheduler st = Some s"
        and new: "snd (run_policy_now env i req st) =
          st\<lparr>as_scheduler := Some (snd (ae_add_now env s (manual_name i (ae_token env)) (manual_task i req)))\<rparr>"
        by (auto simp: run_policy_now_def split: sum.splits option.splits prod.splits)
      obtain r s1 where add: "ae_add_now env s (manual_name i (ae_token env)) (manual_task i req) = (r, s1)" by (rule prod.exhaust)
      have "view s1 = view s \<or> (\<exists>k. view s1 = (view s)(k := Some (manual_name i (ae_token env))))"
      proof (cases r)
        case (Inl e)
        with add assms(2) show ?thesis unfolding scheduler_failsafe_def by blast
      next
        case (Inr k)
        with add assms(2) have "view s1 = (view s)(k := Some (manual_name i (ae_token env)))"
          unfolding scheduler_failsafe_def by simp
        then show ?thesis by blast
      qed
      with single s new add show ?thesis
        unfolding PRun single_schedules_def schedules_def by (auto simp: manual_not_schedule split: if_splits)
    qed (use single PRun in simp)
  qed (use classifier in blast)+
qed

text \<open>The cache.\<close>

lemma api_step_cache:
  "as_cache (api_step (env, q) st) = as_cache st \<and>
     (ae_reload_fails env \<or> classifier_list (as_classifiers (api_step (env, q) st)) = classifier_list (as_classifiers st)) \<or>
   cache_fresh (api_step (env, q) st)"
proof -
  have "classifier_list t' = classifier_list t" if "classifier_create now t d = (Inl e, t')" for now t d e t'
    using that by (auto simp: classifier_create_def classifier_list_def split: option.splits if_splits)
  moreover have "classifier_list t' = classifier_list t" if "classifier_update now t i d = (Some e, t')" for now t i d e t'
    using that by (auto simp: classifier_update_def classifier_list_def split: option.splits if_splits)
  moreover have "classifier_list t' = classifier_list t" if "classifier_delete t i = (Some e, t')" for t i e t'
    using that by (auto simp: classifier_delete_def classifier_list_def split: if_splits)
  ultimately show ?thesis
    unfolding cache_fresh_def
    by (cases q) (auto simp: create_policy_def update_policy_def delete_policy_def run_policy_now_def create_classifier_def
        update_classifier_def delete_classifier_def run_classifier_def reload_cache_def Let_def
        split: sum.splits prod.splits option.splits)
qed

lemma fold_cache:
  "as_cache (fold api_step calls st) = as_cache st \<or>
   (\<exists>pre. prefix pre calls \<and> as_cache (fold api_step calls st) = classifier_list (as_classifiers (fold api_step pre st)))"
proof (induction calls rule: rev_induct)
  case (snoc p calls)
  obtain env q where p: "p = (env, q)" by (rule prod.exhaust)
  show ?case
  proof (cases "as_cache (fold api_step (calls @ [p]) st) = as_cache (fold api_step calls st)")
    case True
    with snoc show ?thesis by (metis prefix_prefix)
  next
    case False
    with api_step_cache [of env q "fold api_step calls st"] p
    have "as_cache (fold api_step (calls @ [p]) st) = classifier_list (as_classifiers (fold api_step (calls @ [p]) st))"
      by (simp add: cache_fresh_def)
    then show ?thesis by blast
  qed
qed simp

text \<open>
  C23: whatever policy and classifier requests the server answers, one after the other and with
  whatever outcome, the table holds valid policies that their filesystem allows, with distinct
  ids and names; each policy has at most one schedule, whichever calls of the scheduler fail;
  as long as listing and removing schedules does not fail, only enabled time-triggered policies
  of the table have one; and the cache that the ingest reads holds the classifiers of the
  table, or, when a reload failed, those of an earlier moment. Of the scheduler it is assumed
  that its calls do what they say and that failed ones add nothing.
\<close>

theorem api_state_ok:
  assumes "\<And>env q. (env, q) \<in> set calls \<Longrightarrow>
      scheduler_laws (ae_sched env) view \<and> scheduler_failsafe (ae_sched env) (ae_add_now env) view \<and> ae_cron_ok env = cron_ok"
    and "rows_ok cron_ok (as_catalog st) (as_policies st)" "single_schedules (as_policies st) (schedules view st)"
    and "st' = fold api_step calls st"
  shows "rows_ok cron_ok (as_catalog st') (as_policies st') \<and> single_schedules (as_policies st') (schedules view st') \<and>
    ((\<forall>(env, q) \<in> set calls. scheduler_answers (ae_sched env)) \<and> scheduled_ok cron_ok (as_policies st) (schedules view st) \<longrightarrow>
       scheduled_ok cron_ok (as_policies st') (schedules view st')) \<and>
    ((\<forall>(env, q) \<in> set calls. \<not> ae_reload_fails env) \<and> cache_fresh st \<longrightarrow> cache_fresh st') \<and>
    (as_cache st' = as_cache st \<or>
     (\<exists>pre. prefix pre calls \<and> as_cache st' = classifier_list (as_classifiers (fold api_step pre st))))"
proof -
  have "rows_ok cron_ok (as_catalog st') (as_policies st') \<and> single_schedules (as_policies st') (schedules view st') \<and>
    ((\<forall>(env, q) \<in> set calls. scheduler_answers (ae_sched env)) \<and> scheduled_ok cron_ok (as_policies st) (schedules view st) \<longrightarrow>
       scheduled_ok cron_ok (as_policies st') (schedules view st')) \<and>
    ((\<forall>(env, q) \<in> set calls. \<not> ae_reload_fails env) \<and> cache_fresh st \<longrightarrow> cache_fresh st')"
    using assms
  proof (induction calls arbitrary: st)
    case (Cons p calls)
    obtain env q where p: "p = (env, q)" by (rule prod.exhaust)
    with Cons.prems(1) have laws: "scheduler_laws (ae_sched env) view" "scheduler_failsafe (ae_sched env) (ae_add_now env) view"
      "ae_cron_ok env = cron_ok" by auto
    let ?st = "api_step p st"
    have rows: "rows_ok cron_ok (as_catalog ?st) (as_policies ?st)"
      using api_step_rows [of env st q] Cons.prems(2) laws(3) by (simp add: p)
    have single: "single_schedules (as_policies ?st) (schedules view ?st)"
      using api_step_single [OF laws(1,2), of st q] Cons.prems(2,3) laws(3) by (simp add: p)
    have "scheduled_ok cron_ok (as_policies ?st) (schedules view ?st)"
      if "scheduler_answers (ae_sched env)" "scheduled_ok cron_ok (as_policies st) (schedules view st)"
      using api_step_keeps [of env view st q] laws that Cons.prems(2) by (simp add: p api_ok_def scheduler_reliable_def)
    moreover have "cache_fresh ?st" if "\<not> ae_reload_fails env" "cache_fresh st"
      using api_step_cache [of env q st] that by (auto simp: p cache_fresh_def)
    moreover have "st' = fold api_step calls ?st" using Cons.prems(4) by simp
    ultimately show ?case
      using Cons.IH [OF _ rows single] Cons.prems(1) by (auto simp: p)
  qed simp
  with fold_cache [of calls st] assms(4) show ?thesis by blast
qed

text \<open>
  When the schedules of a policy cannot be listed, its deletion leaves them behind: the handler
  ignores the error.
\<close>

lemma delete_leaves_schedule:
  assumes "\<forall>s p. \<exists>e. list_by_prefix (ae_sched env) s p = Inl e" "as_scheduler st = Some s" "i \<in> pr_id ` set (ps_rows (as_policies st))"
  shows "fst (delete_policy env i st) = Inr 204 \<and> schedules view (snd (delete_policy env i st)) = schedules view st"
proof -
  obtain e where "list_by_prefix (ae_sched env) s (schedule_name i) = Inl e" using assms(1) by blast
  with assms(2,3) show ?thesis
    by (simp add: delete_policy_def remove_policy_schedule_def policy_delete_def schedules_def)
qed

definition memory_add_now ::
  "nat \<times> (nat \<times> string) list \<Rightarrow> string \<Rightarrow> PolicyRunTask \<Rightarrow> (string + nat) \<times> nat \<times> (nat \<times> string) list" where
  "memory_add_now s n task = sched_add memory_scheduler s n (tk_policy_id task) Immediate"

lemma memory_scheduler_reliable: "scheduler_reliable memory_scheduler memory_add_now (map_of \<circ> snd)"
proof -
  have ok: "\<exists>i s'. sched_add memory_scheduler s n p t = (Inr i, s')" for s n p t
    by (cases s) (simp add: memory_scheduler_def Let_def)
  have answers: "scheduler_answers memory_scheduler"
    by (auto simp: scheduler_answers_def memory_scheduler_def)
  have False if "sched_remove memory_scheduler s i = (Some e, s')" for s i e s'
    using answers that unfolding scheduler_answers_def by (metis fst_conv option.distinct(1))
  moreover have False if "sched_add memory_scheduler s n p t = (Inl e, s')" for s n p t e s'
    using ok [of s n p t] that by simp
  moreover have "(map_of \<circ> snd) s i = None \<and> (map_of \<circ> snd) s' = ((map_of \<circ> snd) s)(i := Some n)"
    if "sched_add memory_scheduler s n p t = (Inr i, s')" for s n p t i s'
    using memory_scheduler_laws that unfolding scheduler_laws_def by blast
  ultimately have "scheduler_failsafe memory_scheduler memory_add_now (map_of \<circ> snd)"
    unfolding scheduler_failsafe_def memory_add_now_def by (intro conjI allI impI) (blast | meson)+
  with answers show ?thesis by (simp add: scheduler_reliable_def)
qed

definition api_demo_env :: "(nat \<times> (nat \<times> string) list) ApiEnv" where
  "api_demo_env = \<lparr>ae_sched = memory_scheduler, ae_add_now = memory_add_now, ae_cron_ok = (\<lambda>_. True), ae_now = 0,
     ae_token = ''t'', ae_run = demo_run, ae_regex = (\<lambda>_ _. None), ae_reload_fails = False\<rparr>"

definition api_demo_state :: "(nat \<times> (nat \<times> string) list) AppState" where
  "api_demo_state = \<lparr>as_policies = \<lparr>ps_next = 1, ps_rows = []\<rparr>, as_classifiers = empty_classifiers, as_cache = [],
     as_catalog = hsm_demo_catalog, as_scheduler = Some (0, [])\<rparr>"

lemma api_demo_created:
  "ps_rows (as_policies (api_step (api_demo_env, PCreate demo_policy) api_demo_state)) \<noteq> []"
proof -
  let ?config = "snd (hd (filesystems demo_catalog))"
  have "get_filesystem hsm_demo_catalog ''lustre-a'' = Some ?config"
    by (simp add: get_filesystem_def hsm_demo_catalog_def demo_catalog_def)
  moreover have "validate_policy_for_filesystem demo_policy ?config = None"
    by (simp add: validate_policy_for_filesystem_def validate_kind_def validate_spec_def require_def or_else_def policy_demo_defs
        demo_catalog_def demo_trigger)
  ultimately have req: "validate_policy_request hsm_demo_catalog demo_policy = Inr ?config"
    by (simp add: validate_policy_request_Inr) (simp add: demo_policy_def)
  have "validate_policy (\<lambda>_. True) demo_policy = None"
    by (simp add: validate_policy_def policy_demo_defs demo_trigger)
  then show ?thesis
    by (simp add: create_policy_def api_demo_state_def api_demo_env_def req policy_create_def reconcile_request_def)
qed

theorem api_state_ok_witness:
  "scheduled_ok (\<lambda>_. True) (as_policies (api_step (api_demo_env, PCreate demo_policy) api_demo_state))
     (schedules (map_of \<circ> snd) (api_step (api_demo_env, PCreate demo_policy) api_demo_state)) \<and>
   ps_rows (as_policies (api_step (api_demo_env, PCreate demo_policy) api_demo_state)) \<noteq> []"
proof -
  let ?calls = "[(api_demo_env, PCreate demo_policy)]"
  have laws: "scheduler_laws (ae_sched env) (map_of \<circ> snd) \<and> scheduler_failsafe (ae_sched env) (ae_add_now env) (map_of \<circ> snd) \<and>
      ae_cron_ok env = (\<lambda>_. True)" if "(env, q) \<in> set ?calls" for env q
    using that memory_scheduler_laws memory_scheduler_reliable by (auto simp: api_demo_env_def scheduler_reliable_def)
  have answers: "scheduler_answers (ae_sched api_demo_env)"
    using memory_scheduler_reliable by (simp add: api_demo_env_def scheduler_reliable_def)
  have rows: "rows_ok (\<lambda>_. True) (as_catalog api_demo_state) (as_policies api_demo_state)"
    and single: "single_schedules (as_policies api_demo_state) (schedules (map_of \<circ> snd) api_demo_state)"
    and start: "scheduled_ok (\<lambda>_. True) (as_policies api_demo_state) (schedules (map_of \<circ> snd) api_demo_state)"
    by (simp_all add: rows_ok_def single_schedules_def scheduled_ok_def schedules_def api_demo_state_def)
  have "scheduled_ok (\<lambda>_. True) (as_policies (fold api_step ?calls api_demo_state))
      (schedules (map_of \<circ> snd) (fold api_step ?calls api_demo_state))"
    using api_state_ok [of ?calls "map_of \<circ> snd" "\<lambda>_. True", OF _ rows single refl] laws answers start by simp
  with api_demo_created show ?thesis by simp
qed

end
