(* ===== verification/Spec2Isabelle.thy ===== *)
theory Spec2Isabelle
  imports Rbh_Listener Rbh_Ingest Rbh_Import Rbh_Legacy Rbh_Api
begin

text \<open>
  \<^bold>\<open>robinhood-rs: a verification development\<close>

  robinhood-rs keeps a catalog of the entries of Lustre and JuiceFS filesystems and runs
  policies on it. This library models the parts that carry its logic, as HOL functions with
  the names of the sources, and proves what makes them correct. All paths below are under
  \<open>src/crates\<close>.

  \<^bold>\<open>The parts and how they interact.\<close>
  An MDT changelog is read by a listener (\<open>lustre-changelog\<close>): records are parsed, deduplicated
  per object and sent in batches; an acknowledged batch first moves a durable cursor and only
  then clears the log. JuiceFS volumes are read from an Agent (\<open>rbh-change-source\<close>). Both are
  change sources: they hand out batches of backend-neutral changes and take commits. The ingest
  loop of the daemon (\<open>rbh-daemon/src/changelog.rs\<close>) applies each change to the catalog
  (\<open>rbh-entry-store\<close>), asks the filesystem for what the change does not say, tags entries with
  the classifiers (\<open>rbh-policy/src/classifier.rs\<close>, on the predicates of \<open>rbh-predicate\<close>), and
  commits. A scan (\<open>rbh-fs-scan\<close>) fills the catalog and verifies a JuiceFS baseline. Policies
  (\<open>rbh-policy\<close>) are stored, checked against the capabilities of their filesystem, scheduled by
  their trigger, and run: candidates from the catalog are dispatched to workers that act through
  the backend actions or the Lustre executors (\<open>rbh-actions\<close>, \<open>rbh-backup\<close>), which resolve
  objects to live paths with the namespace adapter (\<open>rbh-namespace\<close>). The threshold checker
  (\<open>rbh-daemon/src/thresholds.rs\<close>) schedules runs when a watermark is reached. Policies and
  classifiers come in over the REST handlers (\<open>rbh-api\<close>), or from the files of the C program
  through the importer (\<open>rbh-config-import\<close>).

  \<^bold>\<open>The theories.\<close>
  \<^item> \<open>Rbh_Prelude\<close>: types of integers, saturating arithmetic, the operations of the standard
    library on strings (trim, split, parse and print of numbers, UTF-8), byte codecs.
  \<^item> \<open>Rbh_Fid\<close> (\<open>lustre-api/src/fid.rs\<close>, \<open>fid_codec.rs\<close>): identifiers, printer, parser, database key.
  \<^item> \<open>Rbh_Event\<close> (\<open>rec.rs\<close>, \<open>event.rs\<close>, \<open>parse.rs\<close>): records to events, bit fields of HSM records.
  \<^item> \<open>Rbh_Dedup\<close> (\<open>dedup.rs\<close>, \<open>batcher.rs\<close>): the queues per object as a refinement of a contract,
    conservation of events, masks and cancellations.
  \<^item> \<open>Rbh_Cursor\<close> (\<open>cursor.rs\<close>, the cursor table of \<open>store.rs\<close>): the cursor trait as the locale
    \<open>cursor_store\<close>, interpreted by both stores.
  \<^item> \<open>Rbh_Listener\<close> (\<open>listener.rs\<close>): both receive loops and the acknowledgement rounds; order and
    safety of commits and clears, delivery, progress.
  \<^item> \<open>Rbh_Model\<close>, \<open>Rbh_Store\<close> (\<open>rbh-entry-store\<close>): identities and rows, and the scoped tables with
    every operation that changes them; well-formedness, isolation of filesystems, link counts,
    renames, replays.
  \<^item> \<open>Rbh_Predicate\<close> (\<open>rbh-predicate\<close>): evaluator and SQL translation; \<open>LIKE\<close> against its meaning.
  \<^item> \<open>Rbh_Change_Source\<close> (\<open>rbh-change-source\<close>): the trait as the locale \<open>change_source\<close>, interpreted
    by the Lustre and the JuiceFS source; delivery without loss or repetition.
  \<^item> \<open>Rbh_Trigger\<close>, \<open>Rbh_Classifier\<close> (\<open>trigger_parser.rs\<close>, \<open>classifier.rs\<close>): parsers, the rule
    evaluation and the table of classifiers.
  \<^item> \<open>Rbh_Namespace\<close> (\<open>rbh-namespace\<close>): paths, both adapters, soundness of a resolution.
  \<^item> \<open>Rbh_Scan\<close> (\<open>rbh-fs-scan\<close>): ignore files, the concurrent walker as a state machine with all
    its interleavings, enrichment, comparison with the catalog.
  \<^item> \<open>Rbh_Apply\<close>, \<open>Rbh_Ingest\<close> (\<open>rbh-daemon/src/changelog.rs\<close>): the application of each change,
    and the loop; what is committed, when a baseline is ready, isolation. The loop is proved
    once over the locale \<open>change_source\<close>.
  \<^item> \<open>Rbh_Actions\<close> (\<open>rbh-actions/src/backend.rs\<close>): purge, alert and backup; a purge deletes the
    recorded object or nothing under every interference that leaves its quarantine name alone.
  \<^item> \<open>Rbh_Executor\<close> (\<open>executor.rs\<close>, \<open>rbh-backup\<close>, \<open>lustre-api/src/hsm.rs\<close>): the Lustre executors,
    HSM requests, command templates against one-pass substitution.
  \<^item> \<open>Rbh_Policy\<close> (\<open>model.rs\<close>, \<open>store.rs\<close>, \<open>validation.rs\<close>, \<open>reconcile.rs\<close>, \<open>task.rs\<close>): the table,
    the capability checks, schedules, workers, dispatchers and the run of a policy.
  \<^item> \<open>Rbh_Float\<close>: the rounding of 64-bit floating-point numbers, with its error bounds.
  \<^item> \<open>Rbh_Mdt\<close> (\<open>lustre-api/src/mdt.rs\<close>): metadata and object targets, changelog users.
  \<^item> \<open>Rbh_Threshold\<close> (\<open>thresholds.rs\<close>): the threshold checker, when it schedules a run, how far
    apart its runs are, and the accuracy of its floating-point comparisons.
  \<^item> \<open>Rbh_Import\<close> (\<open>rbh-config-import\<close>): the importer of configuration files; its splitter against a
    printer, when it fails, what its policies select.
  \<^item> \<open>Rbh_Legacy\<close> (the \<open>legacy_lustre\<close> operations of \<open>store.rs\<close>): the unscoped tables and the sweep of
    stale objects, whose removals may fail.
  \<^item> \<open>Rbh_Api\<close> (\<open>rbh-api\<close>): the policy and classifier requests on the state they share; an invariant
    of the tables, the schedules and the cache over all sequences of requests, answered one
    after the other, in which calls of the scheduler and reloads of the cache may fail.

  \<^bold>\<open>How code is modelled.\<close>
  Structures are records, enums datatypes, fallible operations sums or options. Stateful
  code passes its state explicitly; loops over inputs are recursion over the list of what
  they meet, so every interleaving of failures, cancellations and arrivals is a list.
  Unsigned 64, 32 and 16 bit values are words; \<open>i64\<close> is \<open>int\<close> with the wrap-around of release
  builds written out where it can occur; \<open>usize\<close>, counters and durations are natural numbers.
  Floating-point results are the exact ones, rounded to 53 bits with an unbounded exponent.
  Strings are byte strings and case folding is that of ASCII. Tables are association lists
  under their primary key; every store operation is atomic as in its transaction, and failures
  of the database connection are outside the model, except those of the cursor commits, of the
  reload of the classifier cache and of the removals of a sweep. System calls, liblustreapi,
  the gRPC client, the regex engine, the scheduler, the SQL engine and the clock are
  parameters; what a property needs of them is a named hypothesis, shown to be satisfiable in
  its witness.

  \<^bold>\<open>Termination.\<close>
  No definition uses fuel. The walk to the root ends because a visited set bounds it by the
  number of catalog rows, the walker because its tree is finite (every schedule of it has the
  same length), retries because their number is bounded; the receive loops follow their lists
  of inputs. Measures are given where the recursion is not structural.

  \<^bold>\<open>Not modelled.\<close>
  The REST handlers of queries, reports, scans, dump and restore, the transport of requests, the
  command-line client, start-up, signals and supervision of the daemon, the HSM poller, metrics
  and logs (but the record of an alert), the pointer arithmetic over C records and the foreign function calls, and the
  floating-point rate limiter.
\<close>

end
